(* ===== verification/Agent_Prelude.thy ===== *)
theory Agent_Prelude
  imports Main "HOL-Library.Word" "HOL-Library.Multiset" "HOL-Library.AList"
begin

text \<open>
  Shared vocabulary of the development: machine integers, errors as values, Go maps and the
  iteration order of \<open>range\<close>, contexts with cancellation, and the generic lemmas the
  components use.  Conventions:
  \<^item> a Go \<open>string\<close> or \<open>[]byte\<close> is a list of bytes (\<open>string\<close>, \<open>byte list\<close>);
    \<open>uint64\<close>, \<open>uint32\<close>, \<open>int32\<close> are words of that width; \<open>int\<close>
    counters are \<open>nat\<close>; a \<open>time.Time\<close> and a \<open>time.Duration\<close> are nanoseconds;
  \<^item> a call \<open>(v, err)\<close> returns a sum, \<open>Inl\<close> the error; a call that returns only
    \<open>error\<close> returns an \<open>option\<close>; a run-time panic is the error
    \<open>RuntimePanic\<close>, and every caller that lets a panic through says so;
  \<^item> a Go map is an association list with distinct keys, and \<open>range\<close> over it visits the
    keys in the order a parameter \<open>ord\<close> of type \<open>iter_order\<close> chooses, since Go
    leaves that order open.
\<close>

named_theorems go_simps \<open>rewrite rules for Go's maps, errors and contexts\<close>
named_theorems scan_simps \<open>rewrite rules for the loops that scan replies\<close>

type_synonym byte = "8 word"
type_synonym u32 = "32 word"
type_synonym i32 = "32 word"
type_synonym u64 = "64 word"
type_synonym i64 = "64 word"
type_synonym time = int
type_synonym duration = int

section \<open>Errors\<close>

text \<open>
  The errors the code tells apart with \<open>errors.Is\<close> or a type assertion are constructors;
  every other error is opaque, with its message.  \<open>Wrapped op e\<close> is
  \<open>fmt.Errorf("...%w", op, e)\<close>.
\<close>

datatype error =
    Err string
  | Canceled
  | DeadlineExceeded
  | ErrNoRows
  | RedisNil
  | ErrNoTransactionsWereFound
  | ErrDHTValueIsNotFound
  | LSError int
  | RuntimePanic string
  | Wrapped string error

type_synonym 'a res = "error + 'a"

primrec errors_Is :: "error \<Rightarrow> error \<Rightarrow> bool" where
  "errors_Is (Err s) t = (t = Err s)"
| "errors_Is Canceled t = (t = Canceled)"
| "errors_Is DeadlineExceeded t = (t = DeadlineExceeded)"
| "errors_Is ErrNoRows t = (t = ErrNoRows)"
| "errors_Is RedisNil t = (t = RedisNil)"
| "errors_Is ErrNoTransactionsWereFound t = (t = ErrNoTransactionsWereFound)"
| "errors_Is ErrDHTValueIsNotFound t = (t = ErrDHTValueIsNotFound)"
| "errors_Is (LSError c) t = (t = LSError c)"
| "errors_Is (RuntimePanic s) t = (t = RuntimePanic s)"
| "errors_Is (Wrapped s e) t = (t = Wrapped s e \<or> errors_Is e t)"

lemma errors_Is_refl [simp]: "errors_Is e e"
  by (cases e) simp_all

text \<open>
  A panic is not an error value: it passes through \<open>fmt.Errorf\<close> and \<open>if err != nil\<close>
  unchanged and unwinds the goroutine, so the code that wraps or ignores errors is modelled with
  \<open>wrap_err\<close> and \<open>is_panic\<close>.
\<close>

primrec is_panic :: "error \<Rightarrow> bool" where
  "is_panic (Err s) = False"
| "is_panic Canceled = False"
| "is_panic DeadlineExceeded = False"
| "is_panic ErrNoRows = False"
| "is_panic RedisNil = False"
| "is_panic ErrNoTransactionsWereFound = False"
| "is_panic ErrDHTValueIsNotFound = False"
| "is_panic (LSError c) = False"
| "is_panic (RuntimePanic s) = True"
| "is_panic (Wrapped s e) = False"

definition wrap_err :: "string \<Rightarrow> error \<Rightarrow> error" where
  "wrap_err op e = (if is_panic e then e else Wrapped op e)"

section \<open>Contexts\<close>

text \<open>
  A \<open>context.Context\<close> as a handler sees it: the job id stored under \<open>jobIDKey\<close>, and
  the moment it is done.  Moments are counted in observations of the context
  (\<open>ctx.Err()\<close> or a \<open>select\<close> on \<open>ctx.Done()\<close>) that the handler makes:
  \<open>done_from = Some k\<close> says that the context is done from the \<open>k\<close>-th observation on,
  with the error \<open>done_err\<close>; a context that is done stays done.
\<close>

record ctx =
  ctx_jobID :: "string option"
  done_from :: "nat option"
  done_err :: error

definition ctx_Err :: "ctx \<Rightarrow> nat \<Rightarrow> error option" where
  "ctx_Err c i = (case done_from c of None \<Rightarrow> None | Some k \<Rightarrow> if k \<le> i then Some (done_err c) else None)"

definition live :: "ctx \<Rightarrow> bool" where
  "live c \<longleftrightarrow> done_from c = None"

lemma ctx_Err_live [go_simps]: "live c \<Longrightarrow> ctx_Err c i = None"
  by (simp add: ctx_Err_def live_def)

lemma ctx_Err_stays: "ctx_Err c i = Some e \<Longrightarrow> i \<le> j \<Longrightarrow> ctx_Err c j = Some e"
  by (auto simp: ctx_Err_def split: option.splits if_splits)

lemma ctx_Err_before: "ctx_Err c j = None \<Longrightarrow> i \<le> j \<Longrightarrow> ctx_Err c i = None"
  by (auto simp: ctx_Err_def split: option.splits if_splits)

lemma ctx_Err_done_err: "ctx_Err c i = Some e \<Longrightarrow> e = done_err c"
  by (auto simp: ctx_Err_def split: option.splits if_splits)

section \<open>Maps and the order of range\<close>

type_synonym ('k, 'v) gomap = "('k \<times> 'v) list"

text \<open>The contract of a map: what a lookup returns after an assignment, and the key list.\<close>

locale key_value_map =
  fixes empty :: 'm
    and get :: "'m \<Rightarrow> 'k \<Rightarrow> 'v option"
    and put :: "'k \<Rightarrow> 'v \<Rightarrow> 'm \<Rightarrow> 'm"
    and keys :: "'m \<Rightarrow> 'k list"
    and wf :: "'m \<Rightarrow> bool"
  assumes wf_empty: "wf empty"
    and wf_put: "wf m \<Longrightarrow> wf (put k v m)"
    and get_empty: "get empty k = None"
    and get_put: "get (put k v m) k' = (if k' = k then Some v else get m k')"
    and keys_get: "set (keys m) = {k. get m k \<noteq> None}"
    and keys_distinct: "wf m \<Longrightarrow> distinct (keys m)"
begin

lemma fold_put_wf: "wf m \<Longrightarrow> wf (fold (\<lambda>x. put (kf x) (vf x)) xs m)"
  by (induction xs arbitrary: m) (simp_all add: wf_put)

lemma fold_put_get:
  "get (fold (\<lambda>x. put (kf x) (vf x)) xs m) k =
     (case map_of (rev (map (\<lambda>x. (kf x, vf x)) xs)) k of Some v \<Rightarrow> Some v | None \<Rightarrow> get m k)"
  by (induction xs arbitrary: m) (auto simp: get_put map_add_def split: option.splits)

lemma fold_put_keys: "set (keys (fold (\<lambda>x. put (kf x) (vf x)) xs m)) = set (keys m) \<union> kf ` set xs"
proof (induction xs arbitrary: m)
  case Nil
  then show ?case by simp
next
  case (Cons x xs)
  have "set (keys (put (kf x) (vf x) m)) = insert (kf x) (set (keys m))"
    by (auto simp: keys_get get_put)
  with Cons show ?case by auto
qed

end

interpretation gm: key_value_map "[]" map_of AList.update "map fst" "\<lambda>m. distinct (map fst m)"
proof unfold_locales
  fix m :: "('a \<times> 'b) list" and k k' :: 'a and v :: 'b
  show "map_of (AList.update k v m) k' = (if k' = k then Some v else map_of m k')"
    by (simp add: update_conv)
  show "set (map fst m) = {k. map_of m k \<noteq> None}"
    by (auto simp: map_of_eq_None_iff)
qed (simp_all add: distinct_update)

text \<open>Assignment of a key that is not yet there: the first value of a key stays.\<close>

definition put_new :: "'k \<times> 'v \<Rightarrow> ('k, 'v) gomap \<Rightarrow> ('k, 'v) gomap" where
  "put_new kv m = (if map_of m (fst kv) \<noteq> None then m else AList.update (fst kv) (snd kv) m)"

lemma map_of_put_new:
  "map_of (put_new kv m) k = (if map_of m k = None \<and> k = fst kv then Some (snd kv) else map_of m k)"
  by (auto simp: put_new_def update_conv)

lemma distinct_put_new: "distinct (map fst m) \<Longrightarrow> distinct (map fst (put_new kv m))"
  by (simp add: put_new_def distinct_update)

lemma map_of_fold_put_new:
  "map_of (fold put_new kvs m) k = (case map_of m k of Some v \<Rightarrow> Some v | None \<Rightarrow> map_of kvs k)"
  by (induction kvs arbitrary: m) (auto simp: map_of_put_new split: option.splits)

lemma distinct_fold_put_new: "distinct (map fst m) \<Longrightarrow> distinct (map fst (fold put_new kvs m))"
  by (induction kvs arbitrary: m) (simp_all add: distinct_put_new)

text \<open>
  An order that the language or a service leaves open: any function that permutes its argument.
  \<open>range\<close> over a map visits the keys in such an order, goroutines finish in such an order, and
  a query without \<open>ORDER BY\<close> returns its rows in such an order.
\<close>

typedef 'a iter_order = "{f :: 'a list \<Rightarrow> 'a list. \<forall>xs. mset (f xs) = mset xs}"
  morphisms reorder Iter_order
  by (rule exI [of _ "\<lambda>xs. xs"]) simp

setup_lifting type_definition_iter_order

lemma mset_reorder [simp]: "mset (reorder ord xs) = mset xs"
  using reorder [of ord] by simp

lemma set_reorder [simp]: "set (reorder ord xs) = set xs"
  by (metis mset_reorder set_mset_mset)

lemma length_reorder [simp]: "length (reorder ord xs) = length xs"
  by (metis mset_reorder size_mset)

lemma distinct_reorder [simp]: "distinct (reorder ord xs) = distinct xs"
  by (metis mset_reorder mset_eq_imp_distinct_iff)

lemma reorder_Nil [simp]: "reorder ord [] = []"
  by (metis length_reorder length_0_conv)

lift_definition source_order :: "'a iter_order" is "\<lambda>xs. xs" by simp

lift_definition reverse_order :: "'a iter_order" is rev by simp

lemma reorder_source [simp]: "reorder source_order xs = xs"
  by transfer simp

lemma reorder_reverse [simp]: "reorder reverse_order xs = rev xs"
  by transfer simp

lemma ex_reorder:
  assumes "mset ys = mset xs"
  shows "\<exists>ord. reorder ord xs = ys"
proof -
  have "reorder (Iter_order (\<lambda>zs. if zs = xs then ys else zs)) xs = ys"
    using assms by (subst Iter_order_inverse) auto
  then show ?thesis by blast
qed

definition map_range :: "'k iter_order \<Rightarrow> ('k, 'v) gomap \<Rightarrow> ('k \<times> 'v) list" where
  "map_range ord m = List.map_filter (\<lambda>k. map_option (Pair k) (map_of m k)) (reorder ord (map fst m))"

lemma mset_map_filter: "mset (List.map_filter f xs) = mset (List.map_filter f ys)"
  if "mset xs = mset ys"
  using that by (simp add: map_filter_def mset_filter)

lemma map_filter_map_of:
  "distinct (map fst m) \<Longrightarrow> List.map_filter (\<lambda>k. map_option (Pair k) (map_of m k)) (map fst m) = m"
proof (induction m)
  case Nil
  then show ?case by (simp add: map_filter_simps)
next
  case (Cons p m)
  obtain k v where p: "p = (k, v)" by (cases p)
  have "List.map_filter (\<lambda>k'. map_option (Pair k') (map_of (p # m) k')) (map fst m) =
      List.map_filter (\<lambda>k'. map_option (Pair k') (map_of m k')) (map fst m)"
    using Cons.prems p by (auto simp: map_filter_def intro!: map_cong filter_cong)
  with Cons p show ?case by (simp add: map_filter_simps)
qed

lemma mset_map_range [go_simps]:
  assumes "distinct (map fst m)"
  shows "mset (map_range ord m) = mset m"
proof -
  have "mset (map_range ord m) =
      mset (List.map_filter (\<lambda>k. map_option (Pair k) (map_of m k)) (map fst m))"
    unfolding map_range_def by (rule mset_map_filter) simp
  then show ?thesis using assms by (simp add: map_filter_map_of)
qed

lemma set_map_range [go_simps]: "distinct (map fst m) \<Longrightarrow> set (map_range ord m) = set m"
  by (metis mset_map_range set_mset_mset)

lemma distinct_map_range: "distinct (map fst m) \<Longrightarrow> distinct (map fst (map_range ord m))"
proof -
  assume *: "distinct (map fst m)"
  then have "mset (map fst (map_range ord m)) = mset (map fst m)" by (simp add: mset_map_range)
  then show ?thesis using * by (metis mset_eq_imp_distinct_iff)
qed

lemma length_map_range [go_simps]: "distinct (map fst m) \<Longrightarrow> length (map_range ord m) = length m"
  by (metis mset_map_range size_mset)

lemma map_range_Nil [simp]: "map_range ord [] = []"
  by (simp add: map_range_def map_filter_simps)

lemma map_range_source: "distinct (map fst m) \<Longrightarrow> map_range source_order m = m"
  by (simp add: map_range_def map_filter_map_of)

section \<open>Time\<close>

definition second :: duration where "second = 1000000000"
definition millisecond :: duration where "millisecond = 1000000"
definition minute :: duration where "minute = 60 * second"
definition hour :: duration where "hour = 60 * minute"

text \<open>\<open>time.Time.Sub\<close> saturates at the ends of \<open>int64\<close>.\<close>

definition time_Sub :: "time \<Rightarrow> time \<Rightarrow> duration" where
  "time_Sub t u = max (- (2 ^ 63)) (min (2 ^ 63 - 1) (t - u))"

definition time_Unix :: "time \<Rightarrow> int" where
  "time_Unix t = t div second"

text \<open>The zero \<open>time.Time\<close> is the first instant of the year 1.\<close>

definition zero_time :: time where
  "zero_time = - 62135596800 * second"

section \<open>Lists\<close>

lemma mset_concat_cong: "mset (map f xs) = mset (map g ys) \<Longrightarrow> mset (concat (map f xs)) = mset (concat (map g ys))"
  by (metis mset_concat mset_map sum_mset_sum_list)

lemma drop_pred_append: "n \<le> length xs \<Longrightarrow> drop (n - 1) (xs @ ys) = drop (n - 1) xs @ ys"
  by simp

lemma filter_mset_list: "mset xs = mset ys \<Longrightarrow> mset (filter P xs) = mset (filter P ys)"
  by (simp add: mset_filter)

end
