(* ===== verification/Agent_Domain.thy ===== *)
theory Agent_Domain
  imports Agent_Prelude
begin

text \<open>
  The data of the program: the structs of \<open>internal/domain\<close> and the envelopes and per-cycle
  results of \<open>internal/jobs/types.go\<close>, one record per struct with the fields in the order of
  the source (a field carries a short prefix where several structs share its name), and the job
  id that travels through a context.
\<close>

section \<open>internal/domain\<close>

record Provider =
  PublicKey :: string
  Address :: string
  LT :: u64
  RegisteredAt :: time

record Rates =
  RatePerMBDay :: i64
  MinBounty :: i64
  MinSpan :: u32
  MaxSpan :: u32

record Endpoint =
  EP_PublicKey :: "byte list"
  IP :: string
  Port :: i32

definition zero_Endpoint :: Endpoint where
  "zero_Endpoint = \<lparr>EP_PublicKey = [], IP = '''', Port = 0\<rparr>"

record ProviderEndpoint =
  PE_PublicKey :: string
  PE_Provider :: Endpoint
  Storage :: Endpoint
  UpdatedAt :: time

definition zero_ProviderEndpoint :: ProviderEndpoint where
  "zero_ProviderEndpoint =
     \<lparr>PE_PublicKey = '''', PE_Provider = zero_Endpoint, Storage = zero_Endpoint,
      UpdatedAt = zero_time\<rparr>"

record ProviderStatus =
  PS_PublicKey :: string
  IsOnline :: bool
  PS_CheckedAt :: time

record IpInfo =
  Country :: string
  CountryISO :: string
  City :: string
  TimeZone :: string
  II_IP :: string

definition StorageRewardWithdrawalOpCode :: u64 where
  "StorageRewardWithdrawalOpCode = 0xa91baf56"

definition TspRegistrationPrefix :: string where
  "TspRegistrationPrefix = ''tsp-''"

record StorageContract =
  SC_Address :: string
  BagID :: string
  OwnerAddr :: string
  Size :: u64
  ChunkSize :: u64
  LastLT :: u64
  Providers :: "string list"

record ContractProviderRelation =
  ContractAddr :: string
  ProviderPubkey :: string
  ProviderAddress :: string
  R_BagID :: string
  R_Size :: u64

record OnChainProvider =
  Key :: "byte list"
  LastProofTime :: time
  OC_RatePerMBDay :: u64
  OC_MaxSpan :: u32

record ContractOnChainState =
  OC_Address :: string
  Balance :: u64
  OC_Providers :: "OnChainProvider list"
  LiteServerError :: bool

type_synonym ReasonCode = u32

record ProofResult =
  PR_ContractAddr :: string
  PR_ProviderAddr :: string
  Reason :: ReasonCode
  PR_CheckedAt :: time

definition ValidStorageProof :: ReasonCode where "ValidStorageProof = 0"
definition IPNotFound :: ReasonCode where "IPNotFound = 101"
definition NotFound :: ReasonCode where "NotFound = 102"
definition UnavailableProvider :: ReasonCode where "UnavailableProvider = 103"
definition CantCreatePeer :: ReasonCode where "CantCreatePeer = 104"
definition UnknownPeer :: ReasonCode where "UnknownPeer = 105"
definition PingFailed :: ReasonCode where "PingFailed = 201"
definition InvalidBagID :: ReasonCode where "InvalidBagID = 202"
definition FailedInitialPing :: ReasonCode where "FailedInitialPing = 203"
definition GetInfoFailed :: ReasonCode where "GetInfoFailed = 301"
definition InvalidHeader :: ReasonCode where "InvalidHeader = 302"
definition CantGetPiece :: ReasonCode where "CantGetPiece = 401"
definition CantParseBoC :: ReasonCode where "CantParseBoC = 402"
definition ProofCheckFailed :: ReasonCode where "ProofCheckFailed = 403"

lemmas reason_defs =
  ValidStorageProof_def IPNotFound_def NotFound_def UnavailableProvider_def CantCreatePeer_def
  UnknownPeer_def PingFailed_def InvalidBagID_def FailedInitialPing_def GetInfoFailed_def
  InvalidHeader_def CantGetPiece_def CantParseBoC_def ProofCheckFailed_def

section \<open>internal/jobs\<close>

definition WithJobID :: "ctx \<Rightarrow> string \<Rightarrow> ctx" where
  "WithJobID c jobID = c\<lparr>ctx_jobID := Some jobID\<rparr>"

definition JobIDFrom :: "ctx \<Rightarrow> string" where
  "JobIDFrom c = (case ctx_jobID c of Some v \<Rightarrow> v | None \<Rightarrow> '''')"

lemma JobIDFrom_WithJobID [simp, go_simps]: "JobIDFrom (WithJobID c j) = j"
  by (simp add: JobIDFrom_def WithJobID_def)

lemma WithJobID_Err [simp, go_simps]: "ctx_Err (WithJobID c j) i = ctx_Err c i"
  by (simp add: ctx_Err_def WithJobID_def split: option.split)

definition CycleScanMaster :: string where "CycleScanMaster = ''scan_master''"
definition CycleScanWallets :: string where "CycleScanWallets = ''scan_wallets''"
definition CycleResolveEndpoints :: string where "CycleResolveEndpoints = ''resolve_endpoints''"
definition CycleProbeRates :: string where "CycleProbeRates = ''probe_rates''"
definition CycleInspectContracts :: string where "CycleInspectContracts = ''inspect_contracts''"
definition CycleCheckProofs :: string where "CycleCheckProofs = ''check_proofs''"
definition CycleLookupIPInfo :: string where "CycleLookupIPInfo = ''lookup_ipinfo''"

lemmas cycle_defs =
  CycleScanMaster_def CycleScanWallets_def CycleResolveEndpoints_def CycleProbeRates_def
  CycleInspectContracts_def CycleCheckProofs_def CycleLookupIPInfo_def

record TriggerEnvelope =
  TE_JobID :: string
  TE_Type :: string
  Hint :: string
  EnqueuedAt :: time

definition StatusOK :: string where "StatusOK = ''ok''"
definition StatusError :: string where "StatusError = ''error''"

record ScanMasterResult =
  NewProviders :: "Provider list"
  SM_LastLT :: u64
  ScannedCount :: nat

record ScanWalletsResult =
  SW_Contracts :: "StorageContract list"
  SW_Relations :: "ContractProviderRelation list"
  UpdatedWallets :: "Provider list"

record ResolveEndpointsResult =
  Endpoints :: "ProviderEndpoint list"
  RE_Skipped :: nat
  Failed :: nat

record ProviderRateUpdate =
  RU_PublicKey :: string
  RU_Rates :: Rates

record ProbeRatesResult =
  Statuses :: "ProviderStatus list"
  PRR_Rates :: "ProviderRateUpdate list"

record InspectContractsResult =
  Rejected :: "ContractProviderRelation list"
  IC_Skipped :: "string list"

record CheckProofsResult =
  Results :: "ProofResult list"

record IPInfoUpdate =
  IU_PublicKey :: string
  IU_IP :: string
  Info :: IpInfo

record LookupIPInfoResult =
  Items :: "IPInfoUpdate list"

text \<open>The \<open>any\<close> that an envelope carries is one of the seven results.\<close>

datatype Payload =
    PScanMaster ScanMasterResult
  | PScanWallets ScanWalletsResult
  | PResolveEndpoints ResolveEndpointsResult
  | PProbeRates ProbeRatesResult
  | PInspectContracts InspectContractsResult
  | PCheckProofs CheckProofsResult
  | PLookupIPInfo LookupIPInfoResult

record ResultEnvelope =
  JobID :: string
  Type :: string
  Status :: string
  Error :: string
  RPayload :: "Payload option"
  ProcessedAt :: time
  AgentID :: string

text \<open>The port \<open>Publisher\<close> that each use case declares: stream, job id, cycle type, payload.\<close>

type_synonym 'w PublisherPort = "string \<Rightarrow> string \<Rightarrow> string \<Rightarrow> Payload \<Rightarrow> 'w \<Rightarrow> error option \<times> 'w"

end
