(* ===== verification/Go_Std.thy ===== *)
theory Go_Std
  imports Agent_Prelude
begin

text \<open>
  What the source uses of Go's standard library, and the helpers of \<open>internal/lib/utils\<close>:
  \<open>strings.ToLower\<close> and \<open>strings.Index\<close>, \<open>encoding/hex\<close> and \<open>%x\<close>,
  \<open>strconv.FormatUint\<close> and \<open>strconv.ParseUint\<close>, \<open>big.Int.SetBytes\<close> with
  \<open>Int64\<close>, \<open>rand.Shuffle\<close>, \<open>ValidateBagID\<close>, \<open>TryNTimes\<close> and the
  address template.  The lemmas are the round trips of the codecs and the facts the scanners use.
\<close>

section \<open>Bytes and strings\<close>

definition byte_of :: "nat \<Rightarrow> byte" where "byte_of n = word_of_nat n"

lemma unat_byte_of: "n < 256 \<Longrightarrow> unat (byte_of n) = n"
  by (simp add: byte_of_def unat_of_nat)

lemma byte_of_unat [simp]: "byte_of (unat b) = b"
  by (simp add: byte_of_def)

lemma unat_byte [simp]: "unat (b :: byte) < 256"
  using unsigned_less [of b] by simp

definition code :: "char \<Rightarrow> nat" where "code c = of_char c"

definition isASCII :: "string \<Rightarrow> bool" where
  "isASCII s = list_all (\<lambda>c. code c < 128) s"

definition lower_char :: "char \<Rightarrow> char" where
  "lower_char c = (if 65 \<le> code c \<and> code c \<le> 90 then char_of (code c + 32) else c)"

text \<open>
  \<open>strings.ToLower\<close> maps an ASCII string byte by byte.  On other strings the runes outside
  ASCII follow the Unicode tables, which the parameter \<open>uni\<close> stands for; the ASCII letters,
  and those a rune maps to, are lower case in the result there too.
\<close>

definition ToLower :: "(string \<Rightarrow> string) \<Rightarrow> string \<Rightarrow> string" where
  "ToLower uni s = map lower_char (if isASCII s then s else uni s)"

lemma code_bound [simp]: "code c < 256"
  by (simp add: code_def)

lemma code_char_of [simp]: "n < 256 \<Longrightarrow> code (char_of n) = n"
  by (simp add: code_def)

lemma code_inject: "code c = code d \<longleftrightarrow> c = d"
  by (simp add: code_def)

lemma code_lower_char: "code (lower_char c) = (if 65 \<le> code c \<and> code c \<le> 90 then code c + 32 else code c)"
  by (simp add: lower_char_def)

lemma lower_char_idem [simp]: "lower_char (lower_char c) = lower_char c"
  by (simp add: lower_char_def)

lemma isASCII_lower [simp]: "isASCII s \<Longrightarrow> isASCII (map lower_char s)"
  by (auto simp: isASCII_def list_all_iff code_lower_char)

lemma lower_ToLower [simp]: "map lower_char (ToLower uni s) = ToLower uni s"
  by (simp add: ToLower_def)

lemma ToLower_idem: "isASCII s \<Longrightarrow> ToLower uni (ToLower uni s) = ToLower uni s"
  by (simp add: ToLower_def)

text \<open>\<open>strings.Index\<close>: the first position of the substring, or \<open>-1\<close>.\<close>

fun index_from :: "nat \<Rightarrow> string \<Rightarrow> string \<Rightarrow> int" where
  "index_from n [] p = (if p = [] then int n else -1)"
| "index_from n (c # cs) p =
     (if take (length p) (c # cs) = p then int n else index_from (Suc n) cs p)"

definition strings_Index :: "string \<Rightarrow> string \<Rightarrow> int" where
  "strings_Index s p = index_from 0 s p"

lemma index_from_range: "index_from n s p = -1 \<or> int n \<le> index_from n s p"
proof (induction s arbitrary: n)
  case (Cons c cs)
  then show ?case using Cons.IH [of "Suc n"] by auto
qed simp

lemma index_from_found:
  "index_from n s p = int k \<Longrightarrow>
     n \<le> k \<and> take (length p) (drop (k - n) s) = p"
proof (induction s arbitrary: n)
  case Nil
  then show ?case by (auto split: if_splits)
next
  case (Cons c cs)
  show ?case
  proof (cases "take (length p) (c # cs) = p")
    case True
    with Cons.prems show ?thesis by simp
  next
    case False
    with Cons.prems have "index_from (Suc n) cs p = int k" by simp
    from Cons.IH [OF this] have "Suc n \<le> k" "take (length p) (drop (k - Suc n) cs) = p" by auto
    moreover from \<open>Suc n \<le> k\<close> have "k - n = Suc (k - Suc n)" by simp
    ultimately show ?thesis by simp
  qed
qed

lemma strings_Index_found:
  "strings_Index s p = int k \<Longrightarrow> take (length p) (drop k s) = p"
  using index_from_found [of 0 s p k] by (simp add: strings_Index_def)

lemma strings_Index_prefix: "strings_Index (p @ s) p = 0"
  by (cases "p @ s") (simp_all add: strings_Index_def, metis append_eq_conv_conj)

section \<open>encoding/hex\<close>

definition hex_digit :: "nat \<Rightarrow> char" where
  "hex_digit n = (if n < 10 then char_of (48 + n) else char_of (87 + n))"

text \<open>The value of a hex digit of either case; \<open>None\<close> is an entry \<open>> 0x0f\<close> of the table.\<close>

definition hex_val :: "char \<Rightarrow> nat option" where
  "hex_val c =
     (let n = code c in
      if 48 \<le> n \<and> n \<le> 57 then Some (n - 48)
      else if 97 \<le> n \<and> n \<le> 102 then Some (n - 87)
      else if 65 \<le> n \<and> n \<le> 70 then Some (n - 55)
      else None)"

definition InvalidByteError :: "char \<Rightarrow> error" where
  "InvalidByteError c = Err (''encoding/hex: invalid byte: '' @ [c])"

definition ErrLength :: error where
  "ErrLength = Err ''encoding/hex: odd length hex string''"

fun hex_DecodeString :: "string \<Rightarrow> byte list res" where
  "hex_DecodeString [] = Inr []"
| "hex_DecodeString [p] = (case hex_val p of None \<Rightarrow> Inl (InvalidByteError p) | Some _ \<Rightarrow> Inl ErrLength)"
| "hex_DecodeString (p # q # s) =
     (case hex_val p of None \<Rightarrow> Inl (InvalidByteError p)
      | Some a \<Rightarrow>
        (case hex_val q of None \<Rightarrow> Inl (InvalidByteError q)
         | Some b \<Rightarrow>
           (case hex_DecodeString s of Inl e \<Rightarrow> Inl e
            | Inr bs \<Rightarrow> Inr (byte_of (16 * a + b) # bs))))"

text \<open>\<open>fmt.Sprintf("%x", b)\<close> and \<open>hex.EncodeToString\<close>: two lower-case digits a byte.\<close>

fun hex_EncodeToString :: "byte list \<Rightarrow> string" where
  "hex_EncodeToString [] = []"
| "hex_EncodeToString (b # bs) =
     hex_digit (unat b div 16) # hex_digit (unat b mod 16) # hex_EncodeToString bs"

lemma code_hex_digit: "n < 16 \<Longrightarrow> code (hex_digit n) = (if n < 10 then 48 + n else 87 + n)"
  by (simp add: hex_digit_def)

lemma hex_val_digit [simp]: "n < 16 \<Longrightarrow> hex_val (hex_digit n) = Some n"
  by (auto simp: hex_val_def code_hex_digit Let_def)

lemma hex_val_bound: "hex_val c = Some n \<Longrightarrow> n < 16"
  by (auto simp: hex_val_def Let_def split: if_splits)

lemma hex_digit_val_lower: "hex_val c = Some n \<Longrightarrow> hex_digit n = lower_char c"
  by (auto simp: hex_val_def Let_def hex_digit_def lower_char_def simp flip: code_inject split: if_splits)

lemma byte_div_16 [simp]: "unat (b :: byte) div 16 < 16"
  using unat_byte [of b] by linarith

lemma hex_decode_encode: "hex_DecodeString (hex_EncodeToString bs) = Inr bs"
  by (induction bs) simp_all

lemma hex_encode_decode: "hex_DecodeString s = Inr bs \<Longrightarrow> hex_EncodeToString bs = map lower_char s"
proof (induction s arbitrary: bs rule: hex_DecodeString.induct)
  case (3 p q s)
  then obtain a b bs' where ab: "hex_val p = Some a" "hex_val q = Some b"
    and s: "hex_DecodeString s = Inr bs'" and bs: "bs = byte_of (16 * a + b) # bs'"
    by (auto split: option.splits sum.splits)
  have lt: "a < 16" "b < 16" using ab by (auto dest: hex_val_bound)
  have "hex_EncodeToString bs' = map lower_char s" using "3.IH" [OF ab s] .
  with ab show ?case
    using lt by (simp add: bs unat_byte_of hex_digit_val_lower)
qed (auto split: option.splits)

lemma hex_decode_length: "hex_DecodeString s = Inr bs \<Longrightarrow> length s = 2 * length bs"
  by (induction s arbitrary: bs rule: hex_DecodeString.induct) (auto split: option.splits sum.splits)

lemma hex_val_ascii: "hex_val c = Some n \<Longrightarrow> code c < 128"
  by (auto simp: hex_val_def Let_def split: if_splits)

lemma hex_decode_ascii: "hex_DecodeString s = Inr bs \<Longrightarrow> isASCII s"
  by (induction s arbitrary: bs rule: hex_DecodeString.induct)
    (auto simp: isASCII_def dest: hex_val_ascii split: option.splits sum.splits)

lemma length_hex_encode [simp]: "length (hex_EncodeToString bs) = 2 * length bs"
  by (induction bs) simp_all

text \<open>The contract of a codec and what its clients use: encoding is injective.\<close>

locale codec =
  fixes enc :: "'a \<Rightarrow> 'b" and dec :: "'b \<Rightarrow> 'a res"
  assumes dec_enc: "dec (enc x) = Inr x"
begin

lemma enc_inject: "enc x = enc y \<longleftrightarrow> x = y"
  by (metis dec_enc sum.inject(2))

lemma dec_of_enc: "dec s = Inl e \<Longrightarrow> s \<noteq> enc x"
  by (auto simp: dec_enc)

end

interpretation hex: codec hex_EncodeToString hex_DecodeString
  by unfold_locales (rule hex_decode_encode)

section \<open>Conversions between string and []byte\<close>

definition string_of_bytes :: "byte list \<Rightarrow> string" where
  "string_of_bytes bs = map (\<lambda>b. char_of (unat b)) bs"

definition bytes_of_string :: "string \<Rightarrow> byte list" where
  "bytes_of_string s = map (\<lambda>c. byte_of (code c)) s"

lemma bytes_of_string_of_bytes [simp]: "bytes_of_string (string_of_bytes bs) = bs"
  by (simp add: bytes_of_string_def string_of_bytes_def comp_def)

section \<open>strconv\<close>

definition digit :: "nat \<Rightarrow> char" where "digit n = char_of (48 + n)"

definition dec_val :: "char \<Rightarrow> nat option" where
  "dec_val c = (if 48 \<le> code c \<and> code c \<le> 57 then Some (code c - 48) else None)"

fun format_nat :: "nat \<Rightarrow> string" where
  "format_nat n = (if n < 10 then [digit n] else format_nat (n div 10) @ [digit (n mod 10)])"

declare format_nat.simps [simp del]

definition FormatUint :: "u64 \<Rightarrow> string" where
  "FormatUint n = format_nat (unat n)"

definition ErrSyntax :: error where "ErrSyntax = Err ''invalid syntax''"
definition ErrRange :: error where "ErrRange = Err ''value out of range''"

definition cutoff :: u64 where "cutoff = 0xFFFFFFFFFFFFFFFF div 10 + 1"

text \<open>The loop of \<open>ParseUint(s, 10, 64)\<close>, on 64-bit words with its two overflow tests.\<close>

fun parse_loop :: "u64 \<Rightarrow> string \<Rightarrow> u64 res" where
  "parse_loop n [] = Inr n"
| "parse_loop n (c # cs) =
     (case dec_val c of None \<Rightarrow> Inl ErrSyntax
      | Some d \<Rightarrow>
        if cutoff \<le> n then Inl ErrRange
        else (let m = n * 10; n1 = m + word_of_nat d in
              if n1 < m then Inl ErrRange else parse_loop n1 cs))"

definition ParseUint :: "string \<Rightarrow> u64 res" where
  "ParseUint s = (if s = '''' then Inl ErrSyntax else parse_loop 0 s)"

fun dec_value :: "nat \<Rightarrow> string \<Rightarrow> nat" where
  "dec_value n [] = n"
| "dec_value n (c # cs) = dec_value (n * 10 + the (dec_val c)) cs"

lemma dec_val_digit [simp]: "n < 10 \<Longrightarrow> dec_val (digit n) = Some n"
  by (simp add: dec_val_def digit_def)

lemma dec_val_bound: "dec_val c = Some d \<Longrightarrow> d < 10"
  by (auto simp: dec_val_def split: if_splits)

lemma dec_value_append: "dec_value n (s @ t) = dec_value (dec_value n s) t"
  by (induction s arbitrary: n) simp_all

lemma dec_value_ge: "n \<le> dec_value n s"
proof (induction s arbitrary: n)
  case (Cons c cs)
  from Cons.IH [of "n * 10 + the (dec_val c)"] show ?case by simp
qed simp

lemma format_nat_value: "dec_value 0 (format_nat n) = n"
proof (induction n rule: format_nat.induct)
  case (1 n)
  then show ?case by (cases "n < 10") (simp_all add: format_nat.simps [of n] dec_value_append)
qed

lemma format_nat_digits: "list_all (\<lambda>c. dec_val c \<noteq> None) (format_nat n)"
proof (induction n rule: format_nat.induct)
  case (1 n)
  then show ?case by (cases "n < 10") (simp_all add: format_nat.simps [of n])
qed

lemma format_nat_nonempty [simp]: "format_nat n \<noteq> []"
  by (subst format_nat.simps) simp

lemma parse_step_ok:
  assumes "unat n * 10 + d < 2 ^ 64" "d < 10"
  shows "\<not> cutoff \<le> n" "unat (n * 10 + word_of_nat d :: u64) = unat n * 10 + d"
    "\<not> n * 10 + word_of_nat d < (n * 10 :: u64)"
proof -
  show "\<not> cutoff \<le> n" using assms by (simp add: cutoff_def word_le_nat_alt)
  have m: "unat (n * 10 :: u64) = unat n * 10"
    using assms unat_mult_lem [of n 10] by simp
  have d: "unat (word_of_nat d :: u64) = d"
    using assms by (simp add: unat_of_nat)
  have s: "unat (n * 10 + word_of_nat d :: u64) = unat (n * 10) + unat (word_of_nat d :: u64)"
    using assms m d unat_add_lem [of "n * 10" "word_of_nat d :: u64"] by simp
  then show "unat (n * 10 + word_of_nat d :: u64) = unat n * 10 + d" by (simp only: m d)
  show "\<not> n * 10 + word_of_nat d < (n * 10 :: u64)"
    by (simp only: word_less_nat_alt s)
qed

lemma parse_loop_value:
  "list_all (\<lambda>c. dec_val c \<noteq> None) s \<Longrightarrow> dec_value (unat n) s < 2 ^ 64 \<Longrightarrow>
     parse_loop n s = Inr (word_of_nat (dec_value (unat n) s))"
proof (induction s arbitrary: n)
  case Nil
  then show ?case by simp
next
  case (Cons c cs)
  then obtain d where d: "dec_val c = Some d" by auto
  let ?n1 = "n * 10 + word_of_nat d"
  from Cons.prems d have lt: "unat n * 10 + d < 2 ^ 64"
    using dec_value_ge [of "unat n * 10 + d" cs] by simp
  note ok = parse_step_ok [OF lt dec_val_bound [OF d]]
  from Cons.prems d ok(2) have "dec_value (unat ?n1) cs < 2 ^ 64" by simp
  with Cons.IH [of ?n1] Cons.prems(1) have "parse_loop ?n1 cs = Inr (word_of_nat (dec_value (unat ?n1) cs))"
    by simp
  with ok d show ?case by simp
qed

lemma ParseUint_FormatUint: "ParseUint (FormatUint n) = Inr n"
proof -
  have "dec_value (unat (0 :: u64)) (format_nat (unat n)) = unat n"
    by (simp add: format_nat_value)
  with parse_loop_value [OF format_nat_digits, of 0 "unat n"] unsigned_less [of n]
  show ?thesis by (simp add: ParseUint_def FormatUint_def)
qed

lemma FormatUint_nonempty [simp]: "FormatUint n \<noteq> []"
  by (simp add: FormatUint_def)

interpretation dec: codec FormatUint ParseUint
  by unfold_locales (rule ParseUint_FormatUint)

section \<open>math/big and math/rand\<close>

definition be_nat :: "byte list \<Rightarrow> nat" where
  "be_nat bs = foldl (\<lambda>n b. 256 * n + unat b) 0 bs"

text \<open>\<open>new(big.Int).SetBytes(b).Int64()\<close>: the low 64 bits, read as two's complement.\<close>

definition SetBytes_Int64 :: "byte list \<Rightarrow> i64" where
  "SetBytes_Int64 bs = word_of_nat (be_nat bs)"

text \<open>\<open>rand.Shuffle\<close>: Fisher-Yates from the last index down; \<open>rnd i\<close> is the draw for index
  \<open>i\<close>, reduced to \<open>[0, i]\<close> as \<open>int31n(i + 1)\<close> does.\<close>

definition swap :: "'a list \<Rightarrow> nat \<Rightarrow> nat \<Rightarrow> 'a list" where
  "swap xs i j = xs[i := xs ! j, j := xs ! i]"

primrec shuffle_loop :: "(nat \<Rightarrow> nat) \<Rightarrow> nat \<Rightarrow> 'a list \<Rightarrow> 'a list" where
  "shuffle_loop rnd 0 xs = xs"
| "shuffle_loop rnd (Suc i) xs = shuffle_loop rnd i (swap xs (Suc i) (rnd (Suc i) mod Suc (Suc i)))"

definition rand_Shuffle :: "(nat \<Rightarrow> nat) \<Rightarrow> 'a list \<Rightarrow> 'a list" where
  "rand_Shuffle rnd xs = shuffle_loop rnd (length xs - 1) xs"

lemma length_swap [simp]: "length (swap xs i j) = length xs"
  by (simp add: swap_def)

lemma mset_swap_idx: "i < length xs \<Longrightarrow> j < length xs \<Longrightarrow> mset (swap xs i j) = mset xs"
  by (simp add: swap_def mset_swap)

lemma mset_shuffle_loop: "i < length xs \<Longrightarrow> mset (shuffle_loop rnd i xs) = mset xs"
proof (induction i arbitrary: xs)
  case (Suc i)
  let ?j = "rnd (Suc i) mod Suc (Suc i)"
  have "?j < length xs"
    using Suc.prems mod_less_divisor [of "Suc (Suc i)" "rnd (Suc i)"] by linarith
  with Suc show ?case by (simp add: mset_swap_idx)
qed simp

lemma mset_rand_Shuffle [simp]: "mset (rand_Shuffle rnd xs) = mset xs"
  by (cases xs) (simp_all add: rand_Shuffle_def mset_shuffle_loop del: shuffle_loop.simps(2))

lemma length_rand_Shuffle [simp]: "length (rand_Shuffle rnd xs) = length xs"
  by (metis mset_rand_Shuffle size_mset)

lemma set_rand_Shuffle [simp]: "set (rand_Shuffle rnd xs) = set xs"
  by (metis mset_rand_Shuffle set_mset_mset)

section \<open>internal/lib/utils and the address template\<close>

text \<open>
  \<open>TryNTimes(f, n)\<close>: the closure \<open>f\<close> changes the variables it captures, so it is a function
  on a state; the pause between attempts has no effect on it.
\<close>

primrec try_loop :: "('s \<Rightarrow> error option \<times> 's) \<Rightarrow> nat \<Rightarrow> error option \<Rightarrow> 's \<Rightarrow> error option \<times> 's" where
  "try_loop f 0 err s = (err, s)"
| "try_loop f (Suc n) err s =
     (case f s of (None, s') \<Rightarrow> (None, s') | (Some e, s') \<Rightarrow> try_loop f n (Some e) s')"

definition TryNTimes :: "('s \<Rightarrow> error option \<times> 's) \<Rightarrow> nat \<Rightarrow> 's \<Rightarrow> error option \<times> 's" where
  "TryNTimes f n s = try_loop f n None s"

definition hex_lower_char :: "char \<Rightarrow> bool" where
  "hex_lower_char c = ((48 \<le> code c \<and> code c \<le> 57) \<or> (97 \<le> code c \<and> code c \<le> 102))"

text \<open>The loop over the first 64 bytes; an index past the end panics.\<close>

fun bag_loop :: "nat \<Rightarrow> string \<Rightarrow> bool res" where
  "bag_loop 0 s = Inr True"
| "bag_loop (Suc n) [] = Inl (RuntimePanic ''index out of range'')"
| "bag_loop (Suc n) (c # s) = (if \<not> hex_lower_char c then Inr False else bag_loop n s)"

definition ValidateBagID :: "(string \<Rightarrow> string) \<Rightarrow> string \<Rightarrow> bool res" where
  "ValidateBagID uni bagid =
     (if length bagid \<noteq> 64 then Inr False else bag_loop 64 (ToLower uni bagid))"

text \<open>The template \<open>^[EUk0][Qq][A-Za-z0-9_-]{46}$\<close> together with the length test.\<close>

definition addr_char :: "char \<Rightarrow> bool" where
  "addr_char c =
     ((65 \<le> code c \<and> code c \<le> 90) \<or> (97 \<le> code c \<and> code c \<le> 122) \<or>
      (48 \<le> code c \<and> code c \<le> 57) \<or> c = CHR ''_'' \<or> c = CHR ''-'')"

definition IsUserFriendly :: "string \<Rightarrow> bool" where
  "IsUserFriendly s =
     (length s = 48 \<and>
      (case s of a # b # rest \<Rightarrow>
         List.member ''EUk0'' a \<and> List.member ''Qq'' b \<and> length rest = 46 \<and> list_all addr_char rest
       | _ \<Rightarrow> False))"

lemma hex_lower_char_iff: "hex_lower_char (lower_char c) \<longleftrightarrow> hex_val c \<noteq> None"
  by (auto simp: hex_lower_char_def hex_val_def code_lower_char Let_def)

lemma bag_loop_all: "length s = n \<Longrightarrow> bag_loop n s = Inr (list_all hex_lower_char s)"
  by (induction n s rule: bag_loop.induct) auto

lemma hex_decodes_iff: "(\<exists>bs. hex_DecodeString s = Inr bs) \<longleftrightarrow> even (length s) \<and> list_all (\<lambda>c. hex_val c \<noteq> None) s"
proof (induction s rule: hex_DecodeString.induct)
  case (3 p q s)
  show ?case
  proof (cases "hex_val p \<noteq> None \<and> hex_val q \<noteq> None")
    case True
    then obtain a b where ab: "hex_val p = Some a" "hex_val q = Some b" by auto
    with "3.IH" [OF ab] show ?thesis by (auto split: sum.splits)
  qed (auto split: option.splits)
qed (auto split: option.splits)

text \<open>The state before the \<open>i\<close>-th attempt of a retried closure.\<close>

primrec before_attempt :: "('s \<Rightarrow> error option \<times> 's) \<Rightarrow> nat \<Rightarrow> 's \<Rightarrow> 's" where
  "before_attempt f 0 s = s"
| "before_attempt f (Suc i) s = before_attempt f i (snd (f s))"

lemma try_loop_succeeds:
  "try_loop f n err s = (None, s') \<Longrightarrow> err \<noteq> None \<or> 0 < n \<Longrightarrow>
     \<exists>k < n. (\<forall>i < k. fst (f (before_attempt f i s)) \<noteq> None) \<and>
       fst (f (before_attempt f k s)) = None \<and> s' = before_attempt f (Suc k) s"
proof (induction n arbitrary: err s)
  case (Suc n)
  obtain r t where f: "f s = (r, t)" by (cases "f s")
  show ?case
  proof (cases r)
    case None
    with Suc.prems f show ?thesis by (intro exI [of _ 0]) simp
  next
    case (Some e)
    with Suc.prems f have "try_loop f n (Some e) t = (None, s')" by simp
    from Suc.IH [OF this] obtain k where k: "k < n"
      "\<forall>i < k. fst (f (before_attempt f i t)) \<noteq> None"
      "fst (f (before_attempt f k t)) = None" "s' = before_attempt f (Suc k) t" by blast
    have "fst (f (before_attempt f i s)) \<noteq> None" if "i < Suc k" for i
      using that k(2) Some f by (cases i) simp_all
    with k f show ?thesis by (intro exI [of _ "Suc k"]) simp
  qed
qed simp

lemma try_loop_fails:
  "(\<forall>i < n. fst (f (before_attempt f i s)) \<noteq> None) \<Longrightarrow> err \<noteq> None \<or> 0 < n \<Longrightarrow>
     \<exists>e. try_loop f n err s = (Some e, before_attempt f n s)"
proof (induction n arbitrary: err s)
  case (Suc n)
  obtain r t where f: "f s = (r, t)" by (cases "f s")
  with Suc.prems(1) obtain e where r: "r = Some e" by fastforce
  have "\<forall>i < n. fst (f (before_attempt f i t)) \<noteq> None"
  proof (intro allI impI)
    fix i assume "i < n"
    with Suc.prems(1) have "fst (f (before_attempt f (Suc i) s)) \<noteq> None" by blast
    with f show "fst (f (before_attempt f i t)) \<noteq> None" by simp
  qed
  from Suc.IH [OF this, of "Some e"] show ?case using f r by simp
qed auto

lemma try_loop_error:
  "fst (try_loop f n err s) \<noteq> None \<Longrightarrow> \<forall>i < n. fst (f (before_attempt f i s)) \<noteq> None"
proof (induction n arbitrary: err s)
  case (Suc n)
  obtain r t where f: "f s = (r, t)" by (cases "f s")
  with Suc.prems obtain e where r: "r = Some e" by (cases r) auto
  with f Suc have "\<forall>i < n. fst (f (before_attempt f i t)) \<noteq> None" by simp
  then have "fst (f (before_attempt f i s)) \<noteq> None" if "i < Suc n" for i
    using that f r by (cases i) auto
  then show ?case by blast
qed simp

section \<open>Properties\<close>

text \<open>
  \<open>ValidateBagID\<close> on an ASCII string: it returns true exactly when the string is the hex of
  32 bytes, in either case, and it does not index past the end.
\<close>

lemma ValidateBagID_iff:
  assumes "isASCII s"
  shows "ValidateBagID uni s = Inr (case hex_DecodeString s of Inr bs \<Rightarrow> length bs = 32 | Inl e \<Rightarrow> False)"
proof (cases "length s = 64")
  case True
  then have "ValidateBagID uni s = Inr (list_all (\<lambda>c. hex_val c \<noteq> None) s)"
    using assms by (simp add: ValidateBagID_def ToLower_def bag_loop_all list_all_length hex_lower_char_iff)
  moreover have "list_all (\<lambda>c. hex_val c \<noteq> None) s \<longleftrightarrow> (\<exists>bs. hex_DecodeString s = Inr bs)"
    using True by (simp add: hex_decodes_iff)
  ultimately show ?thesis using True hex_decode_length [of s] by (cases "hex_DecodeString s") auto
next
  case False
  then show ?thesis using hex_decode_length [of s] by (auto simp: ValidateBagID_def split: sum.split)
qed

text \<open>
  \<open>TryNTimes\<close> with a positive count: it returns nil exactly when one of the first
  \<open>n\<close> attempts succeeds, with the state after the first that does; otherwise it returns an error
  after exactly \<open>n\<close> attempts.
\<close>

lemma TryNTimes_first_success:
  assumes "0 < n"
  shows "case TryNTimes f n s of
     (None, s') \<Rightarrow> \<exists>k < n. (\<forall>i < k. fst (f (before_attempt f i s)) \<noteq> None) \<and> fst (f (before_attempt f k s)) = None \<and>
        s' = before_attempt f (Suc k) s
   | (Some e, s') \<Rightarrow> (\<forall>i < n. fst (f (before_attempt f i s)) \<noteq> None) \<and> s' = before_attempt f n s"
proof (cases "\<forall>i < n. fst (f (before_attempt f i s)) \<noteq> None")
  case True
  then obtain e where "try_loop f n None s = (Some e, before_attempt f n s)"
    using try_loop_fails [of n f s None] assms by blast
  with True show ?thesis by (simp add: TryNTimes_def)
next
  case False
  then have "fst (try_loop f n None s) = None"
    by (rule contrapos_np) (rule try_loop_error)
  then obtain s' where "try_loop f n None s = (None, s')" by (cases "try_loop f n None s") auto
  with try_loop_succeeds [OF this] assms show ?thesis by (simp add: TryNTimes_def)
qed

end
