(* ===== verification/Postgres.thy ===== *)
theory Postgres
  imports Agent_Domain Go_Std
begin

text \<open>
  The repositories of \<open>internal/adapters/outbound/postgres\<close> over an explicit database state:
  the tables \<open>providers.providers\<close>, \<open>providers.storage_contracts\<close> and
  \<open>system.params\<close> with the columns the SQL names.  Each method is the Go code around its
  statement (every early return is a branch) and the statement's effect on the tables.  What the
  driver and the server may do is a parameter: the errors of \<open>Query\<close>, \<open>Scan\<close>,
  \<open>rows.Err\<close> and \<open>Exec\<close>, the order of the rows (no statement has an
  \<open>ORDER BY\<close>), the server's clock, and \<open>lower()\<close> outside ASCII.
\<close>

record provider_row =
  c_public_key :: string
  c_address :: string
  c_last_tx_lt :: int
  c_ip :: "string option"
  c_port :: "i32 option"
  c_storage_ip :: "string option"
  c_storage_port :: "i32 option"
  c_ip_info :: "(string \<times> string option) list option"
  c_updated_at :: time

record contract_row =
  sc_address :: string
  sc_provider_address :: string
  sc_bag_id :: string
  sc_size :: int

record Db =
  sys_params :: "(string, string) gomap"
  providers_tbl :: "provider_row list"
  contracts_tbl :: "contract_row list"

section \<open>Queries\<close>

text \<open>What one \<open>Query\<close> does besides the statement's meaning.\<close>

record 'r pg_reply =
  query_err :: "error option"
  row_order :: "'r iter_order"
  scan_err :: "nat \<Rightarrow> error option"
  rows_err :: "error option"

definition pg_ok :: "'r pg_reply \<Rightarrow> bool" where
  "pg_ok q \<longleftrightarrow> query_err q = None \<and> rows_err q = None \<and> (\<forall>i. scan_err q i = None)"

text \<open>The loop \<open>for rows.Next() \{ rows.Scan(...); append \}\<close>.\<close>

fun scan_loop :: "(nat \<Rightarrow> error option) \<Rightarrow> ('r \<Rightarrow> 'a res) \<Rightarrow> nat \<Rightarrow> 'r list \<Rightarrow> 'a list res" where
  "scan_loop serr dec i [] = Inr []"
| "scan_loop serr dec i (r # rs) =
     (case serr i of Some e \<Rightarrow> Inl e
      | None \<Rightarrow>
        (case dec r of Inl e \<Rightarrow> Inl e
         | Inr x \<Rightarrow> (case scan_loop serr dec (Suc i) rs of Inl e \<Rightarrow> Inl e | Inr xs \<Rightarrow> Inr (x # xs))))"

definition query_rows :: "string \<Rightarrow> 'r pg_reply \<Rightarrow> ('r \<Rightarrow> 'a res) \<Rightarrow> 'r list \<Rightarrow> 'a list res" where
  "query_rows op q dec rs =
     (case query_err q of
        Some e \<Rightarrow> if errors_Is e ErrNoRows then Inr [] else Inl (Wrapped op e)
      | None \<Rightarrow>
        (case scan_loop (scan_err q) dec 0 (reorder (row_order q) rs) of
           Inl e \<Rightarrow> Inl (Wrapped op e)
         | Inr xs \<Rightarrow> (case rows_err q of Some e \<Rightarrow> Inl (Wrapped op e) | None \<Rightarrow> Inr xs)))"

definition scan_uint64 :: "int \<Rightarrow> u64 res" where
  "scan_uint64 v = (if v < 0 then Inl (Err ''value is less than zero for uint64'') else Inr (word_of_int v))"

lemma scan_loop_ok:
  "(\<forall>i. serr i = None) \<Longrightarrow> scan_loop serr (\<lambda>r. Inr (g r)) i rs = Inr (map g rs)"
  by (induction rs arbitrary: i) auto

lemma scan_loop_Inr:
  "scan_loop serr dec i rs = Inr xs \<Longrightarrow> list_all2 (\<lambda>r x. dec r = Inr x) rs xs"
  by (induction rs arbitrary: i xs) (auto split: option.splits sum.splits)

lemma query_rows_ok:
  "pg_ok q \<Longrightarrow> query_rows op q (\<lambda>r. Inr (g r)) rs = Inr (map g (reorder (row_order q) rs))"
  by (simp add: query_rows_def pg_ok_def scan_loop_ok)

section \<open>ProviderRepo\<close>

definition GetAllPubkeys :: "provider_row pg_reply \<Rightarrow> Db \<Rightarrow> string list res" where
  "GetAllPubkeys q db =
     query_rows ''postgres.ProviderRepo.GetAllPubkeys'' q (\<lambda>r. Inr (c_public_key r)) (providers_tbl db)"

definition wallet_of_row :: "provider_row \<Rightarrow> Provider res" where
  "wallet_of_row r =
     (case scan_uint64 (c_last_tx_lt r) of Inl e \<Rightarrow> Inl e
      | Inr lt \<Rightarrow> Inr \<lparr>PublicKey = c_public_key r, Address = c_address r, LT = lt, RegisteredAt = zero_time\<rparr>)"

definition GetAllWallets :: "provider_row pg_reply \<Rightarrow> Db \<Rightarrow> Provider list res" where
  "GetAllWallets q db =
     query_rows ''postgres.ProviderRepo.GetAllWallets'' q wallet_of_row (providers_tbl db)"

record providerLTDTO =
  dto_PublicKey :: string
  dto_LastTxLT :: u64

text \<open>
  The statement of \<open>UpdateLT\<close>: a row whose key equals the lowered key of some item takes that
  item's LT; where several items match, the server uses one of them, which \<open>pick\<close> chooses.  A
  value that does not fit \<open>bigint\<close> makes the statement fail.
\<close>

definition lt_matches :: "(string \<Rightarrow> string) \<Rightarrow> providerLTDTO list \<Rightarrow> provider_row \<Rightarrow> u64 list" where
  "lt_matches loc ds r =
     map dto_LastTxLT (filter (\<lambda>d. c_public_key r = ToLower loc (dto_PublicKey d)) ds)"

definition bigint_overflow :: "(string \<Rightarrow> string) \<Rightarrow> providerLTDTO list \<Rightarrow> provider_row list \<Rightarrow> bool" where
  "bigint_overflow loc ds rs = list_ex (\<lambda>r. list_ex (\<lambda>lt. 2 ^ 63 \<le> unat lt) (lt_matches loc ds r)) rs"

definition set_row_lt :: "(string \<Rightarrow> string) \<Rightarrow> (u64 list \<Rightarrow> u64) \<Rightarrow> providerLTDTO list \<Rightarrow> provider_row \<Rightarrow> provider_row" where
  "set_row_lt loc pick ds r =
     (case lt_matches loc ds r of [] \<Rightarrow> r | l # ls \<Rightarrow> r\<lparr>c_last_tx_lt := int (unat (pick (l # ls)))\<rparr>)"

definition UpdateLT ::
  "(string \<Rightarrow> string) \<Rightarrow> (u64 list \<Rightarrow> u64) \<Rightarrow> error option \<Rightarrow> Provider list \<Rightarrow> Db \<Rightarrow> error option \<times> Db" where
  "UpdateLT loc pick exec_err ps db =
     (if ps = [] then (None, db)
      else (let dtos = map (\<lambda>p. \<lparr>dto_PublicKey = PublicKey p, dto_LastTxLT = LT p\<rparr>) ps in
        (case exec_err of
           Some e \<Rightarrow> (Some (Wrapped ''postgres.ProviderRepo.UpdateLT'' e), db)
         | None \<Rightarrow>
           if bigint_overflow loc dtos (providers_tbl db)
           then (Some (Wrapped ''postgres.ProviderRepo.UpdateLT'' (Err ''bigint out of range'')), db)
           else (None, db\<lparr>providers_tbl := map (set_row_lt loc pick dtos) (providers_tbl db)\<rparr>))))"

section \<open>ContractRepo\<close>

text \<open>The rows of \<open>storage_contracts sc JOIN providers p ON p.address = sc.provider_address\<close>.\<close>

definition relation_rows :: "Db \<Rightarrow> (provider_row \<times> contract_row) list" where
  "relation_rows db =
     concat (map (\<lambda>sc. map (\<lambda>p. (p, sc)) (filter (\<lambda>p. c_address p = sc_provider_address sc) (providers_tbl db)))
       (contracts_tbl db))"

definition relation_of_row :: "provider_row \<times> contract_row \<Rightarrow> ContractProviderRelation res" where
  "relation_of_row = (\<lambda>(p, sc).
     (case scan_uint64 (sc_size sc) of Inl e \<Rightarrow> Inl e
      | Inr sz \<Rightarrow> Inr \<lparr>ContractAddr = sc_address sc, ProviderPubkey = c_public_key p,
          ProviderAddress = sc_provider_address sc, R_BagID = sc_bag_id sc, R_Size = sz\<rparr>))"

definition GetActiveRelations ::
  "(provider_row \<times> contract_row) pg_reply \<Rightarrow> Db \<Rightarrow> ContractProviderRelation list res" where
  "GetActiveRelations q db =
     query_rows ''postgres.ContractRepo.GetActiveRelations'' q relation_of_row (relation_rows db)"

section \<open>EndpointRepo\<close>

text \<open>The four nullable columns overwrite the zero endpoint when they are not \<open>NULL\<close>.\<close>

definition endpoint_of_row :: "provider_row \<Rightarrow> ProviderEndpoint" where
  "endpoint_of_row r =
     zero_ProviderEndpoint\<lparr>
       PE_PublicKey := c_public_key r,
       PE_Provider := zero_Endpoint\<lparr>IP := (case c_ip r of Some v \<Rightarrow> v | None \<Rightarrow> ''''),
                                 Port := (case c_port r of Some v \<Rightarrow> v | None \<Rightarrow> 0)\<rparr>,
       Storage := zero_Endpoint\<lparr>IP := (case c_storage_ip r of Some v \<Rightarrow> v | None \<Rightarrow> ''''),
                                Port := (case c_storage_port r of Some v \<Rightarrow> v | None \<Rightarrow> 0)\<rparr>\<rparr>"

definition fresh_row :: "(string \<Rightarrow> string) \<Rightarrow> time \<Rightarrow> string \<Rightarrow> duration \<Rightarrow> provider_row \<Rightarrow> bool" where
  "fresh_row loc now pubkey maxAge r =
     (ToLower loc (c_public_key r) = ToLower loc pubkey \<and> c_ip r \<noteq> None \<and> c_updated_at r > now - maxAge)"

text \<open>
  \<open>QueryRow(...).Scan(...)\<close> takes the first row that the server returns and is
  \<open>ErrNoRows\<close> when there is none.
\<close>

definition LoadFresh ::
  "(string \<Rightarrow> string) \<Rightarrow> provider_row pg_reply \<Rightarrow> time \<Rightarrow> string \<Rightarrow> duration \<Rightarrow> Db \<Rightarrow>
     (ProviderEndpoint \<times> bool) res" where
  "LoadFresh loc q now pubkey maxAge db =
     (let err = (case query_err q of Some e \<Rightarrow> Some e
                 | None \<Rightarrow> (case reorder (row_order q) (filter (fresh_row loc now pubkey maxAge) (providers_tbl db)) of
                     [] \<Rightarrow> Some ErrNoRows | _ \<Rightarrow> scan_err q 0)) in
      case err of
        Some e \<Rightarrow> if errors_Is e ErrNoRows then Inr (zero_ProviderEndpoint, False)
                  else Inl (Wrapped ''postgres.EndpointRepo.LoadFresh'' e)
      | None \<Rightarrow> Inr (endpoint_of_row (hd (reorder (row_order q) (filter (fresh_row loc now pubkey maxAge) (providers_tbl db)))), True))"

definition LoadAll :: "provider_row pg_reply \<Rightarrow> Db \<Rightarrow> (string, ProviderEndpoint) gomap res" where
  "LoadAll q db =
     (case query_rows ''postgres.EndpointRepo.LoadAll'' q
         (\<lambda>r. Inr ((endpoint_of_row r)\<lparr>UpdatedAt := c_updated_at r\<rparr>))
         (filter (\<lambda>r. case c_ip r of None \<Rightarrow> False | Some ip \<Rightarrow> length ip > 0) (providers_tbl db)) of
        Inl e \<Rightarrow> Inl e
      | Inr eps \<Rightarrow> Inr (fold (\<lambda>ep. AList.update (PE_PublicKey ep) ep) eps []))"

section \<open>IPInfoRepo\<close>

text \<open>The \<open>WHERE\<close> clause of \<open>GetProvidersIPs\<close>, with SQL's \<open>NULL\<close> counted as not true.\<close>

definition needs_ipinfo :: "provider_row \<Rightarrow> bool" where
  "needs_ipinfo r =
     (case (c_ip r, c_ip_info r) of
        (Some ip, Some info) \<Rightarrow>
          length ip > 0 \<and> (info = [] \<or> (case map_of info ''ip'' of Some (Some v) \<Rightarrow> v \<noteq> ip | _ \<Rightarrow> False))
      | _ \<Rightarrow> False)"

definition GetProvidersIPs :: "provider_row pg_reply \<Rightarrow> Db \<Rightarrow> ProviderEndpoint list res" where
  "GetProvidersIPs q db =
     query_rows ''postgres.IPInfoRepo.GetProvidersIPs'' q
       (\<lambda>r. Inr (zero_ProviderEndpoint\<lparr>PE_PublicKey := c_public_key r,
          PE_Provider := zero_Endpoint\<lparr>IP := (case c_ip r of Some ip \<Rightarrow> ip | None \<Rightarrow> '''')\<rparr>\<rparr>))
       (filter needs_ipinfo (providers_tbl db))"

section \<open>SystemRepo\<close>

definition lastLTKey :: string where "lastLTKey = ''masterWalletLastLT''"

definition SetMasterWalletLT :: "error option \<Rightarrow> u64 \<Rightarrow> Db \<Rightarrow> error option \<times> Db" where
  "SetMasterWalletLT exec_err lt db =
     (case exec_err of
        Some e \<Rightarrow> (Some (Wrapped ''postgres.SystemRepo.SetMasterWalletLT'' e), db)
      | None \<Rightarrow> (None, db\<lparr>sys_params := AList.update lastLTKey (FormatUint lt) (sys_params db)\<rparr>))"

definition GetMasterWalletLT :: "string pg_reply \<Rightarrow> Db \<Rightarrow> u64 res" where
  "GetMasterWalletLT q db =
     (let op = ''postgres.SystemRepo.GetMasterWalletLT'' in
      case query_err q of Some e \<Rightarrow> Inl (Wrapped op e)
      | None \<Rightarrow>
        (let row = map_of (sys_params db) lastLTKey;
             scanned = (case row of None \<Rightarrow> Inr '''' | Some v \<Rightarrow>
                          (case scan_err q 0 of Some e \<Rightarrow> Inl e | None \<Rightarrow> Inr v)) in
         case scanned of Inl e \<Rightarrow> Inl (Wrapped op e)
         | Inr val \<Rightarrow>
           (case rows_err q of Some e \<Rightarrow> Inl (Wrapped op e)
            | None \<Rightarrow>
              if val = '''' then Inr 0
              else (case ParseUint val of Inl e \<Rightarrow> Inl (Wrapped op e) | Inr lt \<Rightarrow> Inr lt))))"

section \<open>Facts about the repositories\<close>

text \<open>A reply without faults, whatever the row order.\<close>

definition reliable :: "'r iter_order \<Rightarrow> 'r pg_reply" where
  "reliable ord = \<lparr>query_err = None, row_order = ord, scan_err = (\<lambda>_. None), rows_err = None\<rparr>"

lemma reliable_simps [simp]:
  "query_err (reliable ord) = None" "row_order (reliable ord) = ord"
  "scan_err (reliable ord) i = None" "rows_err (reliable ord) = None"
  by (simp_all add: reliable_def)

lemma pg_ok_reliable [simp]: "pg_ok (reliable ord)"
  by (simp add: pg_ok_def)

text \<open>The contract of a checkpoint: what is read after a write, and that a failed write changes
  nothing.  The client advances the checkpoint only to a greater value.\<close>

locale checkpoint =
  fixes get :: "'s \<Rightarrow> u64 res" and set_lt :: "u64 \<Rightarrow> 's \<Rightarrow> error option \<times> 's"
  assumes get_set: "set_lt lt s = (None, s') \<Longrightarrow> get s' = Inr lt"
    and set_fails: "set_lt lt s = (Some e, s') \<Longrightarrow> s' = s"
begin

lemma advance_reads_max:
  assumes "get s = Inr from"
    and "(if from < lt then set_lt lt s else (None, s)) = (None, s')"
  shows "get s' = Inr (max from lt)"
  using assms by (auto simp: max_def dest: get_set split: if_splits)

lemma advance_never_back:
  assumes "get s = Inr from"
    and "(if from < lt then set_lt lt s else (None, s)) = (r, s')"
  shows "\<exists>lt'. get s' = Inr lt' \<and> from \<le> lt'"
proof (cases r)
  case None
  with advance_reads_max assms show ?thesis by fastforce
next
  case (Some e)
  with assms(2) have "s' = s" by (auto dest: set_fails split: if_splits)
  with assms(1) show ?thesis by simp
qed

end

interpretation master_lt: checkpoint "GetMasterWalletLT (reliable ord)" "SetMasterWalletLT flt" for ord flt
  by unfold_locales
    (auto simp: SetMasterWalletLT_def GetMasterWalletLT_def update_conv ParseUint_FormatUint split: option.splits)

lemma lt_matches_unique:
  assumes "distinct (map PublicKey ps)" "\<forall>p \<in> set ps. ToLower loc (PublicKey p) = PublicKey p"
  shows "lt_matches loc (map (\<lambda>p. \<lparr>dto_PublicKey = PublicKey p, dto_LastTxLT = LT p\<rparr>) ps) r =
     (case find (\<lambda>p. PublicKey p = c_public_key r) ps of None \<Rightarrow> [] | Some p \<Rightarrow> [LT p])"
  using assms
proof (induction ps)
  case (Cons p ps)
  show ?case
  proof (cases "PublicKey p = c_public_key r")
    case True
    with Cons.prems have "find (\<lambda>p. PublicKey p = c_public_key r) ps = None"
      by (auto simp: find_None_iff) (metis imageI)
    with Cons True show ?thesis by (simp add: lt_matches_def)
  next
    case False
    with Cons show ?thesis by (auto simp: lt_matches_def)
  qed
qed (simp add: lt_matches_def)

lemma lt_matches_upper:
  assumes "map lower_char (c_public_key r) \<noteq> c_public_key r"
  shows "lt_matches loc ds r = []"
proof -
  have "c_public_key r \<noteq> ToLower loc (dto_PublicKey d)" for d :: providerLTDTO
    using assms by (metis lower_ToLower)
  then show ?thesis by (simp add: lt_matches_def filter_empty_conv)
qed

lemma LoadFresh_hit:
  assumes "LoadFresh loc q now pubkey maxAge db = Inr (ep, True)"
  shows "\<exists>r \<in> set (providers_tbl db). fresh_row loc now pubkey maxAge r \<and> ep = endpoint_of_row r"
proof -
  let ?rs = "reorder (row_order q) (filter (fresh_row loc now pubkey maxAge) (providers_tbl db))"
  from assms have "?rs \<noteq> []" "ep = endpoint_of_row (hd ?rs)"
    by (auto simp: LoadFresh_def Let_def split: option.splits list.splits if_splits)
  moreover from this(1) have "hd ?rs \<in> set (filter (fresh_row loc now pubkey maxAge) (providers_tbl db))"
    by (metis hd_in_set set_reorder)
  ultimately show ?thesis by auto
qed

lemma endpoint_of_row_simps [simp]:
  "PE_PublicKey (endpoint_of_row r) = c_public_key r"
  "EP_PublicKey (Storage (endpoint_of_row r)) = []"
  "EP_PublicKey (PE_Provider (endpoint_of_row r)) = []"
  "IP (PE_Provider (endpoint_of_row r)) = (case c_ip r of Some v \<Rightarrow> v | None \<Rightarrow> '''')"
  by (simp_all add: endpoint_of_row_def zero_ProviderEndpoint_def zero_Endpoint_def)

lemma LoadFresh_no_storage_key:
  "LoadFresh loc q now pubkey maxAge db = Inr (ep, ok) \<Longrightarrow> EP_PublicKey (Storage ep) = []"
  by (auto simp: LoadFresh_def Let_def zero_ProviderEndpoint_def zero_Endpoint_def
      split: option.splits if_splits)

lemma LoadAll_keys:
  "LoadAll q db = Inr m \<Longrightarrow> distinct (map fst m)"
  by (auto simp: LoadAll_def intro!: gm.fold_put_wf split: sum.splits)

lemma set_relation_rows:
  "set (relation_rows db) =
     {(p, sc). p \<in> set (providers_tbl db) \<and> sc \<in> set (contracts_tbl db) \<and> c_address p = sc_provider_address sc}"
  by (auto simp: relation_rows_def)


lemma UpdateLT_monotone:
  assumes "distinct (map PublicKey ps)" "\<forall>p \<in> set ps. ToLower loc (PublicKey p) = PublicKey p" "\<And>l. pick [l] = l"
    and "\<And>p r. p \<in> set ps \<Longrightarrow> r \<in> set (providers_tbl db) \<Longrightarrow> PublicKey p = c_public_key r \<Longrightarrow> c_last_tx_lt r \<le> int (unat (LT p))"
  shows "list_all2 (\<lambda>r r'. c_last_tx_lt r \<le> c_last_tx_lt r') (providers_tbl db) (providers_tbl (snd (UpdateLT loc pick e ps db)))"
proof -
  let ?ds = "map (\<lambda>p. \<lparr>dto_PublicKey = PublicKey p, dto_LastTxLT = LT p\<rparr>) ps"
  have "c_last_tx_lt r \<le> c_last_tx_lt (set_row_lt loc pick ?ds r)" if "r \<in> set (providers_tbl db)" for r
    using assms(3) assms(4) [OF _ that]
    by (auto simp: set_row_lt_def lt_matches_unique [OF assms(1,2)] find_Some_iff split: option.split)
  then show ?thesis
    by (auto simp: UpdateLT_def Let_def list_all2_map2 list_all2_same split: option.split intro: list.rel_refl)
qed

section \<open>Properties\<close>

text \<open>
  C37.  The master checkpoint survives the trip through its decimal text: for every 64-bit value,
  what is read after a successful write is the value written, and no table or other parameter
  changes; a failed write changes nothing.
\<close>

theorem MasterWalletLT_roundtrip:
  "GetMasterWalletLT (reliable ord) (snd (SetMasterWalletLT None lt db)) = Inr lt \<and>
   providers_tbl (snd (SetMasterWalletLT r lt db)) = providers_tbl db \<and>
   contracts_tbl (snd (SetMasterWalletLT r lt db)) = contracts_tbl db \<and>
   (\<forall>k. k = lastLTKey \<or> map_of (sys_params (snd (SetMasterWalletLT r lt db))) k = map_of (sys_params db) k) \<and>
   snd (SetMasterWalletLT (Some e) lt db) = db"
proof -
  have "GetMasterWalletLT (reliable ord) (snd (SetMasterWalletLT None lt db)) = Inr lt"
    by (rule master_lt.get_set [where flt = None]) (simp add: SetMasterWalletLT_def)
  then show ?thesis by (simp add: SetMasterWalletLT_def update_conv split: option.split)
qed

text \<open>
  \<open>UpdateLT\<close> with distinct lower-case keys whose values fit a \<open>bigint\<close>: it succeeds, the
  rows of the named wallets take the given logical times, every other row and every other column
  stays.
\<close>

lemma UpdateLT_exact:
  assumes "distinct (map PublicKey ps)" "\<forall>p \<in> set ps. ToLower loc (PublicKey p) = PublicKey p"
    and "\<forall>p \<in> set ps. unat (LT p) < 2 ^ 63" "\<And>l. pick [l] = l"
  shows "UpdateLT loc pick None ps db = (None, db\<lparr>providers_tbl :=
     map (\<lambda>r. case find (\<lambda>p. PublicKey p = c_public_key r) ps of None \<Rightarrow> r | Some p \<Rightarrow> r\<lparr>c_last_tx_lt := int (unat (LT p))\<rparr>)
       (providers_tbl db)\<rparr>)"
proof -
  let ?ds = "map (\<lambda>p. \<lparr>dto_PublicKey = PublicKey p, dto_LastTxLT = LT p\<rparr>) ps"
  note m = lt_matches_unique [OF assms(1,2)]
  have "\<not> list_ex (\<lambda>lt. 2 ^ 63 \<le> unat lt) (lt_matches loc ?ds r)" for r
    using assms(3) by (auto simp: m find_Some_iff not_le split: option.split)
  then have "\<not> bigint_overflow loc ?ds (providers_tbl db)" by (simp add: bigint_overflow_def list_ex_iff)
  moreover have "set_row_lt loc pick ?ds = (\<lambda>r. case find (\<lambda>p. PublicKey p = c_public_key r) ps of None \<Rightarrow> r
      | Some p \<Rightarrow> r\<lparr>c_last_tx_lt := int (unat (LT p))\<rparr>)"
    by (rule ext) (simp add: set_row_lt_def m assms(4) split: option.split)
  ultimately show ?thesis by (cases "ps = []") (simp_all add: UpdateLT_def Let_def)
qed

definition sample_row :: "string \<Rightarrow> provider_row" where
  "sample_row k = \<lparr>c_public_key = k, c_address = ''UQ'' @ k, c_last_tx_lt = 7, c_ip = Some ''1.1.1.1'', c_port = None,
     c_storage_ip = Some ''1.1.1.1'', c_storage_port = Some 5, c_ip_info = Some [], c_updated_at = 100\<rparr>"

definition sample_db :: Db where
  "sample_db = \<lparr>sys_params = [], providers_tbl = [sample_row ''aa'', sample_row ''bb''], contracts_tbl = []\<rparr>"

definition sample_wallet :: Provider where
  "sample_wallet = \<lparr>PublicKey = ''bb'', Address = ''UQbb'', LT = 9, RegisteredAt = 0\<rparr>"

text \<open>
  C38.  A provider whose key is stored with an upper-case letter never advances: whatever wallets are
  passed, under the key as it is stored too, its row is the same after \<open>UpdateLT\<close>, since the
  statement compares the stored key with the lowered one.
\<close>

theorem UpdateLT_upper_case:
  assumes "i < length (providers_tbl db)" "map lower_char (c_public_key (providers_tbl db ! i)) \<noteq> c_public_key (providers_tbl db ! i)"
  shows "providers_tbl (snd (UpdateLT loc pick r ps db)) ! i = providers_tbl db ! i"
  using assms(1) lt_matches_upper [OF assms(2)]
  by (auto simp: UpdateLT_def Let_def set_row_lt_def split: option.split)

theorem UpdateLT_upper_case_witness:
  "providers_tbl (snd (UpdateLT (\<lambda>s. s) hd None [sample_wallet\<lparr>PublicKey := ''AB''\<rparr>]
      (sample_db\<lparr>providers_tbl := [sample_row ''AB'']\<rparr>))) ! 0 = sample_row ''AB''"
proof -
  have "map lower_char ''AB'' \<noteq> ''AB''" by code_simp
  then show ?thesis
    using UpdateLT_upper_case [of 0 "sample_db\<lparr>providers_tbl := [sample_row ''AB'']\<rparr>" "\<lambda>s. s" hd None "[sample_wallet\<lparr>PublicKey := ''AB''\<rparr>]"]
    by (simp add: sample_db_def sample_row_def)
qed

text \<open>
  An endpoint that \<open>LoadFresh\<close> reports as found is that of a row with the same key up to
  case, with a provider address, updated within the given age; and no endpoint it returns carries a
  public key of the storage node, since the statement does not select one.
\<close>

lemma LoadFresh_sound:
  assumes "LoadFresh loc q now pubkey maxAge db = Inr (ep, ok)"
  shows "EP_PublicKey (Storage ep) = [] \<and>
     (ok \<longrightarrow> (\<exists>r \<in> set (providers_tbl db). PE_PublicKey ep = c_public_key r \<and> ToLower loc (c_public_key r) = ToLower loc pubkey \<and>
        c_ip r \<noteq> None \<and> now - maxAge < c_updated_at r))"
proof (cases ok)
  case True
  with assms have "LoadFresh loc q now pubkey maxAge db = Inr (ep, True)" by simp
  from LoadFresh_hit [OF this] obtain r
    where "r \<in> set (providers_tbl db)" "fresh_row loc now pubkey maxAge r" "ep = endpoint_of_row r" by blast
  then show ?thesis by (auto simp: fresh_row_def)
next
  case False
  with LoadFresh_no_storage_key [OF assms] show ?thesis by simp
qed

end
