(* ===== verification/Worker_Pool.thy ===== *)
theory Worker_Pool
  imports Agent_Prelude
begin

text \<open>
  The bounded pool of goroutines that three functions of the program use
  (\<open>poll.UpdateProviderRates\<close>, \<open>proof.CheckStorageProofs\<close>,
  \<open>liteclient.GetProvidersInfo\<close>): a buffered channel \<open>sem\<close> as semaphore, a
  \<open>sync.WaitGroup\<close>, and a mutex around the shared slice.  Its steps are an inductive
  relation, one rule per transition, so that every interleaving is covered.  The lemmas: the
  semaphore bounds the running goroutines, the pool never blocks forever and every run ends, and
  when \<open>wg.Wait()\<close> returns the slice holds the result of every task exactly once, in some
  order.  The executable model of a client takes that order as a parameter.
\<close>

record ('t, 'r) pool =
  todo :: "'t list"
  running :: "'t list"
  acc :: "'r list"

text \<open>
  \<open>launch\<close>: a task takes a slot of the semaphore; with \<open>fifo\<close> the launching loop sends to
  \<open>sem\<close> before it starts the goroutine, so the tasks start in the loop's order, otherwise the
  goroutines compete for the slots.  \<open>finish\<close>: a running task appends its results under the
  mutex and gives the slot back.
\<close>

inductive pool_step ::
  "bool \<Rightarrow> nat \<Rightarrow> ('t \<Rightarrow> 'r list) \<Rightarrow> ('t, 'r) pool \<Rightarrow> ('t, 'r) pool \<Rightarrow> bool"
  for fifo :: bool and cap :: nat and f :: "'t \<Rightarrow> 'r list" where
  launch: "todo s = xs @ t # ys \<Longrightarrow> fifo \<longrightarrow> xs = [] \<Longrightarrow> length (running s) < cap \<Longrightarrow>
     pool_step fifo cap f s (s\<lparr>todo := xs @ ys, running := running s @ [t]\<rparr>)"
| finish: "running s = xs @ t # ys \<Longrightarrow>
     pool_step fifo cap f s (s\<lparr>running := xs @ ys, acc := acc s @ f t\<rparr>)"

inductive_cases pool_stepE: "pool_step fifo cap f s t"

definition pool_init :: "'t list \<Rightarrow> ('t, 'r) pool" where
  "pool_init ts = \<lparr>todo = ts, running = [], acc = []\<rparr>"

definition pool_done :: "('t, 'r) pool \<Rightarrow> bool" where
  "pool_done s \<longleftrightarrow> todo s = [] \<and> running s = []"

inductive pool_reach ::
  "bool \<Rightarrow> nat \<Rightarrow> ('t \<Rightarrow> 'r list) \<Rightarrow> 't list \<Rightarrow> ('t, 'r) pool \<Rightarrow> bool"
  for fifo :: bool and cap :: nat and f :: "'t \<Rightarrow> 'r list" and ts :: "'t list" where
  start: "pool_reach fifo cap f ts (pool_init ts)"
| step: "pool_reach fifo cap f ts s \<Longrightarrow> pool_step fifo cap f s t \<Longrightarrow> pool_reach fifo cap f ts t"

text \<open>The invariant: the tasks are split between the three stages and the slice is what the
  finished ones appended, in the order they finished.\<close>

definition pool_inv :: "nat \<Rightarrow> ('t \<Rightarrow> 'r list) \<Rightarrow> 't list \<Rightarrow> ('t, 'r) pool \<Rightarrow> bool" where
  "pool_inv cap f ts s \<longleftrightarrow> length (running s) \<le> cap \<and>
     (\<exists>fin. mset ts = mset (todo s) + mset (running s) + mset fin \<and> acc s = concat (map f fin))"

lemma pool_inv_init: "pool_inv cap f ts (pool_init ts)"
  by (auto simp: pool_inv_def pool_init_def)

lemma pool_step_inv:
  assumes "pool_step fifo cap f s t" "pool_inv cap f ts s"
  shows "pool_inv cap f ts t"
  using assms
proof (cases rule: pool_step.cases)
  case (launch xs x ys)
  with assms(2) show ?thesis by (auto simp: pool_inv_def)
next
  case (finish xs x ys)
  from assms(2) obtain fin where fin: "mset ts = mset (todo s) + mset (running s) + mset fin"
    "acc s = concat (map f fin)" and len: "length (running s) \<le> cap"
    by (auto simp: pool_inv_def)
  have "mset ts = mset (todo t) + mset (running t) + mset (fin @ [x])"
    "acc t = concat (map f (fin @ [x]))" using fin finish by simp_all
  moreover have "length (running t) \<le> cap" using len finish by simp
  ultimately show ?thesis unfolding pool_inv_def by blast
qed

lemma pool_reach_inv: "pool_reach fifo cap f ts s \<Longrightarrow> pool_inv cap f ts s"
  by (induction rule: pool_reach.induct) (auto intro: pool_inv_init pool_step_inv)

lemma pool_reach_steps: "(pool_step fifo cap f)\<^sup>*\<^sup>* s t \<Longrightarrow> pool_reach fifo cap f ts s \<Longrightarrow> pool_reach fifo cap f ts t"
  by (induction rule: rtranclp_induct) (auto intro: pool_reach.step)

definition pool_measure :: "('t, 'r) pool \<Rightarrow> nat" where
  "pool_measure s = 2 * length (todo s) + length (running s)"

lemma pool_step_decreases: "pool_step fifo cap f s t \<Longrightarrow> pool_measure t < pool_measure s"
  by (auto simp: pool_measure_def elim!: pool_stepE)

text \<open>What a client assumes of its pool, and what it gets: the slice after \<open>wg.Wait()\<close> is the
  concatenation of the results in an order that permutes the tasks.\<close>

definition pool_results :: "'t iter_order \<Rightarrow> ('t \<Rightarrow> 'r list) \<Rightarrow> 't list \<Rightarrow> 'r list" where
  "pool_results ord f ts = concat (map f (reorder ord ts))"

lemma mset_pool_results [go_simps]: "mset (pool_results ord f ts) = mset (concat (map f ts))"
  unfolding pool_results_def by (rule mset_concat_cong) simp

lemma set_pool_results [go_simps]: "set (pool_results ord f ts) = (\<Union>t \<in> set ts. set (f t))"
  by (simp add: pool_results_def)

locale worker_pool =
  fixes fifo :: bool and cap :: nat
  assumes slots: "0 < cap"
begin

lemma not_stuck: "\<not> pool_done s \<Longrightarrow> \<exists>t. pool_step fifo cap f s t"
proof -
  assume "\<not> pool_done s"
  then consider x ys where "running s = [] @ x # ys" | "running s = []" "todo s \<noteq> []"
    by (cases "running s") (auto simp: pool_done_def)
  then show ?thesis
  proof cases
    case 1
    then show ?thesis by (blast intro: pool_step.finish)
  next
    case 2
    then obtain x ys where "todo s = [] @ x # ys" by (cases "todo s") auto
    with 2 slots show ?thesis using pool_step.launch [of s "[]" x ys fifo cap f] by auto
  qed
qed

lemma run_ends: "\<exists>t. (pool_step fifo cap f)\<^sup>*\<^sup>* s t \<and> pool_done t"
proof (induction "pool_measure s" arbitrary: s rule: less_induct)
  case less
  show ?case
  proof (cases "pool_done s")
    case True
    then show ?thesis by blast
  next
    case False
    then obtain u where u: "pool_step fifo cap f s u" using not_stuck by blast
    then obtain t where "(pool_step fifo cap f)\<^sup>*\<^sup>* u t" "pool_done t"
      using less pool_step_decreases by blast
    with u show ?thesis by (meson converse_rtranclp_into_rtranclp)
  qed
qed

lemma waited_result:
  assumes "pool_reach fifo cap f ts s" "pool_done s"
  shows "\<exists>ord. acc s = pool_results ord f ts"
proof -
  from pool_reach_inv [OF assms(1)] assms(2) obtain fin
    where fin: "mset fin = mset ts" "acc s = concat (map f fin)"
    by (auto simp: pool_inv_def pool_done_def)
  with ex_reorder [OF fin(1)] show ?thesis by (auto simp: pool_results_def)
qed

text \<open>A client whose result is \<open>h\<close> of the slice: in every interleaving the pool keeps to its slots and
  can go on to its end, and then the client has what \<open>h\<close> gives for some finishing order.\<close>

lemma refines:
  assumes "pool_reach fifo cap f ts s" "\<And>ord. g ord = h (pool_results ord f ts)"
  shows "length (running s) \<le> cap \<and> (\<exists>t. (pool_step fifo cap f)\<^sup>*\<^sup>* s t \<and> pool_done t) \<and> (pool_done s \<longrightarrow> (\<exists>ord. g ord = h (acc s)))"
proof (intro conjI impI)
  show "length (running s) \<le> cap" using pool_reach_inv [OF assms(1)] by (simp add: pool_inv_def)
  show "\<exists>t. (pool_step fifo cap f)\<^sup>*\<^sup>* s t \<and> pool_done t" by (rule run_ends)
  assume "pool_done s"
  with waited_result [OF assms(1)] assms(2) show "\<exists>ord. g ord = h (acc s)" by metis
qed

end

end
