(* ===== verification/Liteclient.thy ===== *)
theory Liteclient
  imports Agent_Domain Go_Std Worker_Pool
begin

text \<open>
  The TON client of \<open>internal/adapters/outbound/ton/liteclient/client.go\<close>.  The liteserver
  and the packages behind it (\<open>tonutils-go\<close>, \<open>tonutils-storage-provider\<close>) are the
  parameter \<open>api\<close>, a record with one field per call.  \<open>GetTransactions\<close> walks an
  account's history backwards in batches; its loop may run as long as the server returns
  transactions, so it is a \<open>partial_function\<close> into \<open>option\<close>, and the lemmas show that it
  returns on a server that walks back in logical time, and what it returns on a server that serves
  a given history.
\<close>

section \<open>The data of the client\<close>

record Transaction =
  Tx_Hash :: "byte list"
  Tx_LT :: u64
  Tx_Op :: u64
  Tx_From :: string
  Tx_To :: string
  Tx_Message :: string
  Tx_CreatedAt :: time

record LC_StorageContract =
  LC_Address :: string
  LC_BagID :: string
  LC_OwnerAddr :: string
  LC_Size :: u64
  LC_ChunkSize :: u64

record LC_Provider =
  LP_Key :: string
  LP_LastProofTime :: time
  LP_RatePerMBDay :: u64
  LP_MaxSpan :: u32

record StorageContractProviders =
  SP_Address :: string
  SP_Balance :: u64
  SP_Providers :: "LC_Provider list"
  SP_LiteServerError :: bool

section \<open>The packages the client calls\<close>

text \<open>
  The part of \<open>tlb.Transaction\<close> that \<open>parseTx\<close> reads.  A payload is given by what its
  two parses return with their errors ignored: the snake string and the first 32 bits.
\<close>

record tlb_payload =
  snake_string :: string
  uint32_prefix :: u64

record InternalMessage =
  SrcAddr :: string
  DstAddr :: string
  IM_CreatedAt :: u32
  IM_Payload :: "tlb_payload option"

datatype tlb_message = MsgInternal "InternalMessage option" | MsgOther

record tlb_tx =
  tlb_Hash :: "byte list"
  tlb_LT :: u64
  PrevTxLT :: u64
  PrevTxHash :: "byte list"
  IO_In :: "tlb_message option"

record storage_info =
  TorrentHash :: "byte list"
  SI_OwnerAddr :: string
  SI_Size :: u64
  SI_ChunkSize :: u64

record ProviderDataV1 =
  PD_Key :: "byte list"
  LastProofAt :: time
  RatePerMB :: nat
  PD_MaxSpan :: u32

text \<open>
  One field per call.  \<open>ListTransactions\<close> and \<open>GetProvidersV1\<close> are called repeatedly, so
  they take the number of the call; the latter returns its values together with the error, as the
  closure assigns all three.
\<close>

record ('a, 'b) LiteApi =
  ParseAddr :: "string \<Rightarrow> 'a res"
  GetMasterchainInfo :: "'b res"
  GetAccount :: "'b \<Rightarrow> 'a \<Rightarrow> (u64 \<times> byte list) res"
  ListTransactions :: "nat \<Rightarrow> 'a \<Rightarrow> nat \<Rightarrow> u64 \<Rightarrow> byte list \<Rightarrow> tlb_tx list res"
  GetStorageInfoV1 :: "'b \<Rightarrow> 'a \<Rightarrow> storage_info option res"
  GetProvidersV1 :: "nat \<Rightarrow> 'b \<Rightarrow> 'a \<Rightarrow> (ProviderDataV1 list \<times> nat) \<times> error option"

definition getProvidersRetries :: nat where "getProvidersRetries = 5"
definition parrallelRequests :: nat where "parrallelRequests = 30"
definition batch :: nat where "batch = 100"

section \<open>parseTx\<close>

text \<open>A transaction without an inbound message makes \<open>tx.IO.In.MsgType\<close> panic.\<close>

definition parseTx :: "tlb_tx \<Rightarrow> Transaction option res" where
  "parseTx tx =
     (case IO_In tx of
        None \<Rightarrow> Inl (RuntimePanic ''nil pointer dereference'')
      | Some MsgOther \<Rightarrow> Inr None
      | Some (MsgInternal None) \<Rightarrow> Inr None
      | Some (MsgInternal (Some msg)) \<Rightarrow>
          Inr (Some \<lparr>Tx_Hash = tlb_Hash tx, Tx_LT = tlb_LT tx,
            Tx_Op = (case IM_Payload msg of Some b \<Rightarrow> uint32_prefix b | None \<Rightarrow> 0),
            Tx_From = SrcAddr msg, Tx_To = DstAddr msg,
            Tx_Message = (case IM_Payload msg of Some b \<Rightarrow> snake_string b | None \<Rightarrow> ''''),
            Tx_CreatedAt = int (unat (IM_CreatedAt msg)) * second\<rparr>))"

fun parse_all :: "tlb_tx list \<Rightarrow> Transaction option list res" where
  "parse_all [] = Inr []"
| "parse_all (t # ts) =
     (case parseTx t of Inl e \<Rightarrow> Inl e
      | Inr r \<Rightarrow>
        (case parse_all ts of Inl e \<Rightarrow> Inl e
         | Inr rs \<Rightarrow> Inr (case r of Some tx \<Rightarrow> Some tx # rs | None \<Rightarrow> rs)))"

section \<open>GetTransactions\<close>

text \<open>The inner loop: from the last index down, the first transaction at or below
  \<open>lastProcessedLT\<close>; the answer is the batch from it on.\<close>

primrec cut_loop :: "u64 \<Rightarrow> tlb_tx list \<Rightarrow> nat \<Rightarrow> tlb_tx list option" where
  "cut_loop lp res 0 = None"
| "cut_loop lp res (Suc i) = (if tlb_LT (res ! i) \<le> lp then Some (drop i res) else cut_loop lp res i)"

definition list_stops :: "error \<Rightarrow> tlb_tx list \<Rightarrow> bool" where
  "list_stops e txs =
     ((errors_Is e ErrNoTransactionsWereFound \<and> length txs > 0) \<or> errors_Is e DeadlineExceeded \<or> e = LSError (-400))"

partial_function (option) list_loop ::
  "('a, 'b) LiteApi \<Rightarrow> 'a \<Rightarrow> u64 \<Rightarrow> nat \<Rightarrow> u64 \<Rightarrow> byte list \<Rightarrow> tlb_tx list \<Rightarrow> tlb_tx list res option" where
  "list_loop api a lp k lastLT lastHash txs =
     (case ListTransactions api k a batch lastLT lastHash of
        Inl e \<Rightarrow> Some (if list_stops e txs then Inr txs else Inl (Wrapped ''list transactions'' e))
      | Inr res \<Rightarrow>
        if res = [] then Some (Inr txs)
        else (case cut_loop lp res (length res) of
                Some newer \<Rightarrow> Some (Inr (txs @ newer))
              | None \<Rightarrow> list_loop api a lp (Suc k) (PrevTxLT (hd res)) (PrevTxHash (hd res)) (txs @ res)))"

definition GetTransactions :: "('a, 'b) LiteApi \<Rightarrow> string \<Rightarrow> u64 \<Rightarrow> Transaction option list res option" where
  "GetTransactions api addr lastProcessedLT =
     (case ParseAddr api addr of
        Inl e \<Rightarrow> Some (Inl (Wrapped ''failed to parse master address'' e))
      | Inr a \<Rightarrow>
        (case GetMasterchainInfo api of
           Inl e \<Rightarrow> Some (Inl (Wrapped ''get masterchain info err'' e))
         | Inr block \<Rightarrow>
           (case GetAccount api block a of
              Inl e \<Rightarrow> Some (Inl (Wrapped ''get account err'' e))
            | Inr (lastLT, lastHash) \<Rightarrow>
              (case list_loop api a lastProcessedLT 0 lastLT lastHash [] of
                 None \<Rightarrow> None
               | Some (Inl e) \<Rightarrow> Some (Inl e)
               | Some (Inr transactions) \<Rightarrow> Some (parse_all transactions)))))"

section \<open>GetStorageContractsInfo\<close>

fun contracts_loop :: "('a, 'b) LiteApi \<Rightarrow> 'b \<Rightarrow> string list \<Rightarrow> LC_StorageContract list" where
  "contracts_loop api block [] = []"
| "contracts_loop api block (a # as) =
     (case ParseAddr api a of Inl e \<Rightarrow> contracts_loop api block as
      | Inr addr \<Rightarrow>
        (case GetStorageInfoV1 api block addr of
           Inl e \<Rightarrow> contracts_loop api block as
         | Inr None \<Rightarrow> contracts_loop api block as
         | Inr (Some info) \<Rightarrow>
             \<lparr>LC_Address = a, LC_BagID = hex_EncodeToString (TorrentHash info),
              LC_OwnerAddr = SI_OwnerAddr info, LC_Size = SI_Size info, LC_ChunkSize = SI_ChunkSize info\<rparr>
             # contracts_loop api block as))"

definition GetStorageContractsInfo :: "('a, 'b) LiteApi \<Rightarrow> string list \<Rightarrow> LC_StorageContract list res" where
  "GetStorageContractsInfo api addrs =
     (case GetMasterchainInfo api of
        Inl e \<Rightarrow> Inl (Wrapped ''get masterchain info err'' e)
      | Inr block \<Rightarrow> Inr (contracts_loop api block addrs))"

section \<open>GetProvidersInfo\<close>

text \<open>The closure given to \<open>TryNTimes\<close>: its state is the attempt number and the captured
  \<open>info\<close> and \<open>coins\<close>.\<close>

definition providers_attempt ::
  "('a, 'b) LiteApi \<Rightarrow> 'b \<Rightarrow> 'a \<Rightarrow> nat \<times> ProviderDataV1 list \<times> nat \<Rightarrow>
     error option \<times> nat \<times> ProviderDataV1 list \<times> nat" where
  "providers_attempt api block addr = (\<lambda>(k, _, _).
     (case GetProvidersV1 api k block addr of ((info, coins), cErr) \<Rightarrow> (cErr, Suc k, info, coins)))"

text \<open>One goroutine: what it appends to the shared slice.\<close>

definition provider_task :: "('a, 'b) LiteApi \<Rightarrow> 'b \<Rightarrow> string \<Rightarrow> StorageContractProviders list" where
  "provider_task api block addrStr =
     (case ParseAddr api addrStr of Inl e \<Rightarrow> []
      | Inr addr \<Rightarrow>
        (case TryNTimes (providers_attempt api block addr) getProvidersRetries (0, [], 0) of
           (callErr, _, info, coins) \<Rightarrow>
             [\<lparr>SP_Address = addrStr, SP_Balance = word_of_nat coins,
               SP_Providers = map (\<lambda>p. \<lparr>LP_Key = string_of_bytes (PD_Key p), LP_LastProofTime = LastProofAt p,
                 LP_RatePerMBDay = word_of_nat (RatePerMB p), LP_MaxSpan = PD_MaxSpan p\<rparr>) info,
               SP_LiteServerError = (callErr \<noteq> None)\<rparr>]))"

definition GetProvidersInfo ::
  "string iter_order \<Rightarrow> ('a, 'b) LiteApi \<Rightarrow> string list \<Rightarrow> StorageContractProviders list res" where
  "GetProvidersInfo ord api addrs =
     (case GetMasterchainInfo api of
        Inl e \<Rightarrow> Inl (Wrapped ''get masterchain info err'' e)
      | Inr block \<Rightarrow> Inr (pool_results ord (provider_task api block) addrs))"

interpretation providers_pool: worker_pool False parrallelRequests
  by unfold_locales (simp add: parrallelRequests_def)

text \<open>The goroutines of \<open>GetProvidersInfo\<close>, which compete for the slots: at most \<open>parrallelRequests\<close> of
  them ask the liteserver at a time, they all end, and the reply is one that the function computes.\<close>

lemma providers_pool_refines:
  assumes "GetMasterchainInfo api = Inr block" "pool_reach False parrallelRequests (provider_task api block) addrs s"
  shows "length (running s) \<le> parrallelRequests \<and>
     (\<exists>t. (pool_step False parrallelRequests (provider_task api block))\<^sup>*\<^sup>* s t \<and> pool_done t) \<and>
     (pool_done s \<longrightarrow> (\<exists>ord. GetProvidersInfo ord api addrs = Inr (acc s)))"
  by (rule providers_pool.refines [OF assms(2)]) (simp add: GetProvidersInfo_def assms(1))

section \<open>The walk over a history\<close>

text \<open>The server walks back in logical time: the first transaction of a batch has a predecessor
  below the point the batch was asked for.\<close>

definition walks_back :: "('a, 'b) LiteApi \<Rightarrow> 'a \<Rightarrow> bool" where
  "walks_back api a \<longleftrightarrow>
     (\<forall>k lt h r rs. ListTransactions api k a batch lt h = Inr (r # rs) \<longrightarrow> PrevTxLT r < lt)"

lemma list_loop_returns:
  "walks_back api a \<Longrightarrow> \<exists>r. list_loop api a lp k lt h txs = Some r"
proof (induction "unat lt" arbitrary: k lt h txs rule: less_induct)
  case less
  show ?case
  proof (cases "ListTransactions api k a batch lt h")
    case (Inl e)
    then show ?thesis by (simp add: list_loop.simps)
  next
    case (Inr res)
    show ?thesis
    proof (cases res)
      case Nil
      with Inr show ?thesis by (simp add: list_loop.simps)
    next
      case (Cons r rs)
      with Inr less.prems have "PrevTxLT r < lt" unfolding walks_back_def by blast
      then have "unat (PrevTxLT r) < unat lt" by (simp add: word_less_nat_alt)
      from less.hyps [OF this less.prems] Inr Cons show ?thesis
        by (auto simp: list_loop.simps [of api a lp k lt h txs] split: option.split)
    qed
  qed
qed

text \<open>
  A server that serves the history \<open>hist\<close> (oldest first, as \<open>ListTransactions\<close> returns its
  batches): logical times increase, each transaction points to its predecessor, and a request at a
  transaction returns the at most \<open>batch\<close> transactions up to it; before the first there is none.
\<close>

definition chained :: "tlb_tx list \<Rightarrow> bool" where
  "chained hist \<longleftrightarrow> sorted_wrt (\<lambda>s t. tlb_LT s < tlb_LT t) hist \<and>
     (\<forall>i. Suc i < length hist \<longrightarrow> PrevTxLT (hist ! Suc i) = tlb_LT (hist ! i)) \<and>
     (hist \<noteq> [] \<longrightarrow> PrevTxLT (hd hist) = 0) \<and> (\<forall>t \<in> set hist. 0 < tlb_LT t)"

definition serves :: "('a, 'b) LiteApi \<Rightarrow> 'a \<Rightarrow> tlb_tx list \<Rightarrow> bool" where
  "serves api a hist \<longleftrightarrow> chained hist \<and>
     (\<forall>k h i. i < length hist \<longrightarrow>
        ListTransactions api k a batch (tlb_LT (hist ! i)) h = Inr (drop (Suc i - batch) (take (Suc i) hist))) \<and>
     (\<forall>k h. ListTransactions api k a batch 0 h = Inl ErrNoTransactionsWereFound)"

text \<open>The number of transactions at or below a logical time, a prefix of a sorted history.\<close>

definition n_upto :: "u64 \<Rightarrow> tlb_tx list \<Rightarrow> nat" where
  "n_upto lp ts = length (filter (\<lambda>t. tlb_LT t \<le> lp) ts)"

lemma cut_loop_None: "cut_loop lp res n = None \<longleftrightarrow> (\<forall>i < n. \<not> tlb_LT (res ! i) \<le> lp)"
  by (induction n) (auto simp: less_Suc_eq)

lemma cut_loop_Some:
  "cut_loop lp res n = Some ys \<Longrightarrow>
     \<exists>i < n. tlb_LT (res ! i) \<le> lp \<and> (\<forall>j. i < j \<and> j < n \<longrightarrow> \<not> tlb_LT (res ! j) \<le> lp) \<and> ys = drop i res"
proof (induction n)
  case (Suc n)
  show ?case
  proof (cases "tlb_LT (res ! n) \<le> lp")
    case True
    with Suc.prems show ?thesis by (intro exI [of _ n]) auto
  next
    case False
    with Suc obtain i where "i < n" "tlb_LT (res ! i) \<le> lp"
      "\<forall>j. i < j \<and> j < n \<longrightarrow> \<not> tlb_LT (res ! j) \<le> lp" "ys = drop i res" by auto
    with False show ?thesis by (intro exI [of _ i]) (auto simp: less_Suc_eq)
  qed
qed simp

lemma sorted_nth_less:
  "sorted_wrt (\<lambda>s t. tlb_LT s < tlb_LT t) ts \<Longrightarrow> i \<le> j \<Longrightarrow> j < length ts \<Longrightarrow> tlb_LT (ts ! i) \<le> tlb_LT (ts ! j)"
  by (cases "i = j") (auto simp: sorted_wrt_iff_nth_less le_less)

lemma n_upto_sorted:
  assumes "sorted_wrt (\<lambda>s t. tlb_LT s < tlb_LT t) ts" "m \<le> length ts"
    and "\<And>i. i < m \<Longrightarrow> tlb_LT (ts ! i) \<le> lp" "\<And>i. m \<le> i \<Longrightarrow> i < length ts \<Longrightarrow> lp < tlb_LT (ts ! i)"
  shows "n_upto lp ts = m"
proof -
  have "filter (\<lambda>t. tlb_LT t \<le> lp) (take m ts) = take m ts"
    using assms(2,3) by (auto simp: filter_id_conv in_set_conv_nth)
  moreover have "filter (\<lambda>t. tlb_LT t \<le> lp) (drop m ts) = []"
  proof -
    have "\<not> tlb_LT t \<le> lp" if "t \<in> set (drop m ts)" for t
    proof -
      from that obtain i where "i < length ts - m" "t = ts ! (m + i)" by (auto simp: in_set_conv_nth)
      with assms(4) [of "m + i"] show ?thesis by (simp add: less_diff_conv2 not_le)
    qed
    then show ?thesis by (simp add: filter_empty_conv)
  qed
  ultimately have "filter (\<lambda>t. tlb_LT t \<le> lp) ts = take m ts"
    by (metis append_Nil2 append_take_drop_id filter_append)
  with assms(2) show ?thesis by (simp add: n_upto_def)
qed

lemma chained_take: "chained hist \<Longrightarrow> sorted_wrt (\<lambda>s t. tlb_LT s < tlb_LT t) (take n hist)"
  by (simp add: chained_def sorted_wrt_take)

lemma n_upto_cut:
  assumes sorted: "sorted_wrt (\<lambda>s t. tlb_LT s < tlb_LT t) P" and c: "c < length P"
    and le: "tlb_LT (P ! c) \<le> lp" and gt: "\<And>j. c < j \<Longrightarrow> j < length P \<Longrightarrow> \<not> tlb_LT (P ! j) \<le> lp"
  shows "n_upto lp P = Suc c"
proof (rule n_upto_sorted [OF sorted])
  show "Suc c \<le> length P" using c by simp
  show "tlb_LT (P ! i) \<le> lp" if "i < Suc c" for i
    using sorted_nth_less [OF sorted, of i c] that c le by simp
  show "lp < tlb_LT (P ! i)" if "Suc c \<le> i" "i < length P" for i
    using gt [of i] that by (simp add: not_le)
qed

lemma n_upto_append: "n_upto lp (xs @ ys) = n_upto lp xs + n_upto lp ys"
  by (simp add: n_upto_def)

lemma n_upto_le_length: "n_upto lp xs \<le> length xs"
  by (simp add: n_upto_def)

lemma n_upto_none: "(\<And>j. j < length xs \<Longrightarrow> \<not> tlb_LT (xs ! j) \<le> lp) \<Longrightarrow> n_upto lp xs = 0"
  by (auto simp: n_upto_def filter_empty_conv in_set_conv_nth)

text \<open>A batch \<open>res\<close> at the end of what is to be collected: either the cut falls into it, or all of it is
  above the limit.\<close>

lemma cut_newer:
  assumes "cut_loop lp res (length res) = Some newer" "sorted_wrt (\<lambda>s t. tlb_LT s < tlb_LT t) (xs @ res)"
  shows "drop (n_upto lp (xs @ res) - 1) (xs @ res) = newer"
proof -
  obtain c where c: "c < length res" "tlb_LT (res ! c) \<le> lp"
    "\<And>j. c < j \<Longrightarrow> j < length res \<Longrightarrow> \<not> tlb_LT (res ! j) \<le> lp" "newer = drop c res"
    using assms(1) by (blast dest: cut_loop_Some)
  have "n_upto lp (xs @ res) = Suc (length xs + c)"
  proof (rule n_upto_cut [OF assms(2)])
    show "\<not> tlb_LT ((xs @ res) ! j) \<le> lp" if "length xs + c < j" "j < length (xs @ res)" for j
      using c(3) [of "j - length xs"] that by (simp add: nth_append)
  qed (use c(1,2) in \<open>simp_all add: nth_append\<close>)
  then show ?thesis by (simp add: c(4))
qed

lemma uncut:
  assumes "n_upto lp res = 0"
  shows "drop (n_upto lp (xs @ res) - 1) (xs @ res) = drop (n_upto lp xs - 1) xs @ res"
  using drop_pred_append [OF n_upto_le_length, of lp xs res] assms by (simp add: n_upto_append del: drop_append)

lemma list_loop_collects:
  assumes "serves api a hist"
  shows "i < length hist \<Longrightarrow>
     \<exists>ys. list_loop api a lp k (tlb_LT (hist ! i)) h txs = Some (Inr ys) \<and>
       mset ys = mset txs + mset (drop (n_upto lp (take (Suc i) hist) - 1) (take (Suc i) hist))"
proof (induction i arbitrary: k h txs rule: less_induct)
  case (less i)
  define b where "b = Suc i - batch"
  define P where "P = take (Suc i) hist"
  define res where "res = drop b P"
  have b: "b < Suc i" by (simp add: b_def batch_def)
  have "take b P = take b hist" using b by (simp add: P_def min_absorb1)
  then have P: "P = take b hist @ res" unfolding res_def by (metis append_take_drop_id)
  have lenP: "length P = Suc i" using less.prems by (simp add: P_def)
  then have res: "res \<noteq> []" "hd res = hist ! b" using b less.prems
    by (simp_all add: res_def hd_drop_conv_nth P_def)
  have sorted: "sorted_wrt (\<lambda>s t. tlb_LT s < tlb_LT t) P"
    using assms by (simp add: serves_def P_def chained_take)
  have listed: "ListTransactions api k a batch (tlb_LT (hist ! i)) h = Inr res"
    using assms less.prems by (simp add: serves_def res_def P_def b_def)
  show ?case
  proof (cases "cut_loop lp res (length res)")
    case (Some newer)
    then have "drop (n_upto lp P - 1) P = newer" unfolding P using sorted by (intro cut_newer) (simp_all flip: P)
    with Some listed res show ?thesis by (simp add: list_loop.simps flip: P_def)
  next
    case None
    then have above: "n_upto lp res = 0" by (intro n_upto_none) (simp add: cut_loop_None)
    have step: "list_loop api a lp k (tlb_LT (hist ! i)) h txs =
        list_loop api a lp (Suc k) (PrevTxLT (hist ! b)) (PrevTxHash (hist ! b)) (txs @ res)"
      by (subst list_loop.simps) (simp add: listed None res)
    show ?thesis
    proof (cases b)
      case 0
      then have "PrevTxLT (hist ! b) = 0"
        using assms less.prems by (auto simp: serves_def chained_def hd_conv_nth)
      moreover have "list_loop api a lp (Suc k) 0 (PrevTxHash (hist ! b)) (txs @ res) = Some (Inr (txs @ res))"
        using assms res by (subst list_loop.simps) (simp add: serves_def list_stops_def)
      ultimately show ?thesis using step above 0 P by (simp flip: P_def)
    next
      case (Suc b')
      then have b': "b' < i" "b' < length hist" using b less.prems by simp_all
      have "PrevTxLT (hist ! b) = tlb_LT (hist ! b')"
        using assms less.prems b Suc by (simp add: serves_def chained_def)
      with less.IH [OF b', of "Suc k" "PrevTxHash (hist ! b)" "txs @ res"] step Suc
      obtain ys where ys: "list_loop api a lp k (tlb_LT (hist ! i)) h txs = Some (Inr ys)"
        "mset ys = mset (txs @ res) + mset (drop (n_upto lp (take b hist) - 1) (take b hist))" by auto
      have "drop (n_upto lp P - 1) P = drop (n_upto lp (take b hist) - 1) (take b hist) @ res" unfolding P by (rule uncut [OF above])
      with ys show ?thesis by (simp add: ac_simps flip: P_def)
    qed
  qed
qed


text \<open>What \<open>parseTx\<close> keeps of a list: the transactions with an inbound internal message.\<close>

definition internal_of :: "tlb_tx \<Rightarrow> Transaction option" where
  "internal_of t = (case parseTx t of Inl e \<Rightarrow> None | Inr r \<Rightarrow> r)"

lemma parse_all_ok:
  "\<forall>t \<in> set ts. IO_In t \<noteq> None \<Longrightarrow> parse_all ts = Inr (map Some (List.map_filter internal_of ts))"
proof (induction ts)
  case (Cons t ts)
  then have "\<exists>r. parseTx t = Inr r"
    by (auto simp: parseTx_def split: option.split tlb_message.split)
  then obtain r where "parseTx t = Inr r" ..
  with Cons show ?case by (auto simp: internal_of_def map_filter_simps split: option.split)
qed (simp add: map_filter_simps)

section \<open>Properties\<close>

text \<open>
  C26.  \<open>GetTransactions\<close> returns: on a server whose batches start below the logical time they
  were asked for, the backward walk ends for every account and every checkpoint, with a list or an
  error.
\<close>

theorem GetTransactions_returns:
  assumes "\<And>a. walks_back api a"
  shows "\<exists>r. GetTransactions api addr lp = Some r"
proof -
  have "\<exists>r. list_loop api a lp 0 lt h [] = Some r" for a lt h using assms by (rule list_loop_returns)
  then show ?thesis
    by (auto simp: GetTransactions_def split: sum.split prod.split) (metis option.simps(5) sum.exhaust sum.simps(5) sum.simps(6))
qed

text \<open>
  C25.  \<open>GetTransactions\<close> is complete: on a server that serves an account's history in batches of
  a hundred, it returns the internal messages of exactly the transactions above the checkpoint and
  of the last one at or below it, each once, however many batches that takes.
\<close>

theorem GetTransactions_collects:
  assumes "ParseAddr api addr = Inr a" "GetMasterchainInfo api = Inr block" "GetAccount api block a = Inr (tlb_LT (last hist), h)"
    and "serves api a hist" "hist \<noteq> []" "\<forall>t \<in> set hist. IO_In t \<noteq> None"
  shows "\<exists>txs. GetTransactions api addr lp = Some (Inr txs) \<and>
     mset txs = mset (map Some (List.map_filter internal_of (drop (n_upto lp hist - 1) hist)))"
proof -
  let ?ts = "drop (n_upto lp hist - 1) hist"
  have "length hist - 1 < length hist" "hist ! (length hist - 1) = last hist" "take (Suc (length hist - 1)) hist = hist"
    using assms(5) by (simp_all add: last_conv_nth)
  with list_loop_collects [OF assms(4) this(1), of lp 0 h "[]"] obtain ys
    where ys: "list_loop api a lp 0 (tlb_LT (last hist)) h [] = Some (Inr ys)" "mset ys = mset ?ts" by auto
  have "set ys = set ?ts" using ys(2) by (metis set_mset_mset)
  then have "\<forall>t \<in> set ys. IO_In t \<noteq> None" using assms(6) by (auto dest: in_set_dropD)
  then have "GetTransactions api addr lp = Some (Inr (map Some (List.map_filter internal_of ys)))"
    using assms(1-3) ys(1) by (simp add: GetTransactions_def parse_all_ok)
  moreover have "mset (List.map_filter internal_of ys) = mset (List.map_filter internal_of ?ts)"
    using ys(2) by (rule mset_map_filter)
  then have "mset (map Some (List.map_filter internal_of ys)) = mset (map Some (List.map_filter internal_of ?ts))"
    unfolding mset_map by simp
  ultimately show ?thesis by blast
qed

definition sample_tx :: "u64 \<Rightarrow> u64 \<Rightarrow> tlb_tx" where
  "sample_tx lt prev = \<lparr>tlb_Hash = [], tlb_LT = lt, PrevTxLT = prev, PrevTxHash = [], IO_In = Some (MsgInternal (Some
     \<lparr>SrcAddr = ''UQ'', DstAddr = ''EQ'', IM_CreatedAt = 3, IM_Payload = None\<rparr>))\<rparr>"

definition sample_api :: "(unit, unit) LiteApi" where
  "sample_api = \<lparr>ParseAddr = (\<lambda>s. Inr ()), GetMasterchainInfo = Inr (), GetAccount = (\<lambda>b a. Inr (20, [])),
     ListTransactions = (\<lambda>k a n lt h. if lt = 20 then Inr [sample_tx 10 0, sample_tx 20 10] else if lt = 10 then Inr [sample_tx 10 0]
        else Inl ErrNoTransactionsWereFound),
     GetStorageInfoV1 = (\<lambda>b a. Inr None), GetProvidersV1 = (\<lambda>k b a. (([], 0), None))\<rparr>"

lemma sample_api_serves: "serves sample_api () [sample_tx 10 0, sample_tx 20 10]"
  by (auto simp: serves_def chained_def sample_api_def sample_tx_def batch_def less_Suc_eq)

theorem GetTransactions_returns_witness: "\<exists>r. GetTransactions sample_api ''EQ'' 5 = Some r"
  by (rule GetTransactions_returns) (auto simp: walks_back_def sample_api_def sample_tx_def split: if_splits)

theorem GetTransactions_collects_witness:
  "\<exists>txs. GetTransactions sample_api ''EQ'' 12 = Some (Inr txs) \<and>
     mset txs = mset (map Some (List.map_filter internal_of [sample_tx 10 0, sample_tx 20 10]))"
  using GetTransactions_collects [of sample_api "''EQ''" "()" "()" "[sample_tx 10 0, sample_tx 20 10]" "[]" 12, OF _ _ _ sample_api_serves]
  by (simp add: sample_api_def sample_tx_def n_upto_def)

end
