(* ===== verification/Ton_Scanners.thy ===== *)
theory Ton_Scanners
  imports Liteclient
begin

text \<open>
  The adapters of \<open>internal/adapters/outbound/ton\<close> over the \<open>Client\<close> interface:
  \<open>MasterScanner.Scan\<close> finds registrations in the master wallet's transactions,
  \<open>Scanner.Scan\<close> finds the storage contracts that paid a provider's wallet, and
  \<open>Inspector.InspectProviders\<close> maps on-chain states.  The contracts that the use cases rely on
  are locales (\<open>master_scanner\<close>, \<open>wallet_scanner\<close>, \<open>contract_inspector\<close>),
  interpreted here on these definitions for every client.
\<close>

text \<open>The interface \<open>Client\<close> of the liteclient package.\<close>

record TonClient =
  cl_GetTransactions :: "string \<Rightarrow> u64 \<Rightarrow> Transaction option list res"
  cl_GetStorageContractsInfo :: "string list \<Rightarrow> LC_StorageContract list res"
  cl_GetProvidersInfo :: "string list \<Rightarrow> StorageContractProviders list res"

section \<open>MasterScanner\<close>

definition pubkeyHexLen :: nat where "pubkeyHexLen = 64"

text \<open>The registration a transaction carries, by the chain of \<open>continue\<close>s of the loop body.\<close>

definition registration :: "(string \<Rightarrow> string) \<Rightarrow> Transaction \<Rightarrow> string option" where
  "registration uni tx =
     (if \<not> IsUserFriendly (Tx_From tx) then None
      else (let pos = strings_Index (Tx_Message tx) TspRegistrationPrefix in
        if pos < 0 then None
        else (let pos' = nat pos + length TspRegistrationPrefix in
          if length (Tx_Message tx) \<le> pos' then None
          else (let pubkey = ToLower uni (drop pos' (Tx_Message tx)) in
            if length pubkey \<noteq> pubkeyHexLen then None
            else (case hex_DecodeString pubkey of
                    Inl e \<Rightarrow> None
                  | Inr raw \<Rightarrow> if length raw \<noteq> 32 then None else Some pubkey)))))"

definition master_step ::
  "(string \<Rightarrow> string) \<Rightarrow> u64 \<Rightarrow> Transaction option \<Rightarrow> (string, Provider) gomap \<times> u64 \<Rightarrow>
     (string, Provider) gomap \<times> u64" where
  "master_step uni fromLT otx = (\<lambda>(unique, lastLT).
     (case otx of None \<Rightarrow> (unique, lastLT)
      | Some tx \<Rightarrow>
        if Tx_LT tx \<le> fromLT then (unique, lastLT)
        else (let lastLT' = (if Tx_LT tx > lastLT then Tx_LT tx else lastLT) in
          (case registration uni tx of None \<Rightarrow> (unique, lastLT')
           | Some pubkey \<Rightarrow>
             if map_of unique pubkey \<noteq> None then (unique, lastLT')
             else (AList.update pubkey
                     \<lparr>PublicKey = pubkey, Address = Tx_From tx, LT = 0, RegisteredAt = Tx_CreatedAt tx\<rparr> unique,
                   lastLT')))))"

definition MasterScanner_Scan ::
  "(string \<Rightarrow> string) \<Rightarrow> string iter_order \<Rightarrow> TonClient \<Rightarrow> string \<Rightarrow> u64 \<Rightarrow> (Provider list \<times> u64) res" where
  "MasterScanner_Scan uni ord client masterAddr fromLT =
     (case cl_GetTransactions client masterAddr fromLT of
        Inl e \<Rightarrow> Inl (wrap_err ''adapters.outbound.ton.MasterScanner.Scan: get transactions'' e)
      | Inr txs \<Rightarrow>
        (case fold (master_step uni fromLT) txs ([], fromLT) of (unique, lastLT) \<Rightarrow>
           if unique = [] then Inr ([], lastLT)
           else Inr (map snd (map_range ord unique), lastLT)))"

section \<open>Scanner\<close>

definition scan_step :: "Transaction option \<Rightarrow> (string, u64) gomap \<times> u64 \<Rightarrow> (string, u64) gomap \<times> u64" where
  "scan_step otx = (\<lambda>(contractLT, lastLT).
     (case otx of None \<Rightarrow> (contractLT, lastLT)
      | Some tx \<Rightarrow>
        if Tx_Op tx \<noteq> StorageRewardWithdrawalOpCode then (contractLT, lastLT)
        else ((if Tx_LT tx > (case map_of contractLT (Tx_From tx) of Some l \<Rightarrow> l | None \<Rightarrow> 0)
               then AList.update (Tx_From tx) (Tx_LT tx) contractLT else contractLT),
              (if Tx_LT tx > lastLT then Tx_LT tx else lastLT))))"

definition enrich :: "(string, u64) gomap \<Rightarrow> string \<Rightarrow> LC_StorageContract list \<Rightarrow> StorageContract list" where
  "enrich contractLT walletAddr infos =
     List.map_filter (\<lambda>info. case map_of contractLT (LC_Address info) of
         None \<Rightarrow> None
       | Some txLT \<Rightarrow> Some \<lparr>SC_Address = LC_Address info, BagID = LC_BagID info, OwnerAddr = LC_OwnerAddr info,
           Size = LC_Size info, ChunkSize = LC_ChunkSize info, LastLT = txLT, Providers = [walletAddr]\<rparr>) infos"

definition Scanner_Scan ::
  "string iter_order \<Rightarrow> TonClient \<Rightarrow> string \<Rightarrow> u64 \<Rightarrow> (StorageContract list \<times> u64) res" where
  "Scanner_Scan ord client walletAddr fromLT =
     (case cl_GetTransactions client walletAddr fromLT of
        Inl e \<Rightarrow> Inl (wrap_err ''adapters.outbound.ton.Scanner.Scan: get transactions'' e)
      | Inr txs \<Rightarrow>
        (case fold scan_step txs ([], fromLT) of (contractLT, lastLT) \<Rightarrow>
           if contractLT = [] then Inr ([], lastLT)
           else (case cl_GetStorageContractsInfo client (map fst (map_range ord contractLT)) of
                   Inl e \<Rightarrow> Inl (wrap_err ''adapters.outbound.ton.Scanner.Scan: get storage contracts info'' e)
                 | Inr infos \<Rightarrow> Inr (enrich contractLT walletAddr infos, lastLT))))"

section \<open>Inspector\<close>

definition InspectProviders :: "TonClient \<Rightarrow> string list \<Rightarrow> ContractOnChainState list res" where
  "InspectProviders client addrs =
     (if addrs = [] then Inr []
      else (case cl_GetProvidersInfo client addrs of
              Inl e \<Rightarrow> Inl (wrap_err ''adapters.outbound.ton.Inspector.InspectProviders'' e)
            | Inr raw \<Rightarrow>
                Inr (map (\<lambda>r. \<lparr>OC_Address = SP_Address r, Balance = SP_Balance r,
                  OC_Providers = map (\<lambda>p. \<lparr>Key = bytes_of_string (LP_Key p), LastProofTime = LP_LastProofTime p,
                    OC_RatePerMBDay = LP_RatePerMBDay p, OC_MaxSpan = LP_MaxSpan p\<rparr>) (SP_Providers r),
                  LiteServerError = SP_LiteServerError r\<rparr>) raw)))"

section \<open>What the master scan returns\<close>

text \<open>A public key as the scanner accepts it: 64 lower-case hex digits.\<close>

definition pubkey_ok :: "string \<Rightarrow> bool" where
  "pubkey_ok s = (length s = 64 \<and> map lower_char s = s \<and> (case hex_DecodeString s of Inr bs \<Rightarrow> length bs = 32 | Inl _ \<Rightarrow> False))"

lemma registration_ok: "registration uni tx = Some pk \<Longrightarrow> pubkey_ok pk \<and> IsUserFriendly (Tx_From tx)"
  by (auto simp: registration_def Let_def pubkey_ok_def pubkeyHexLen_def split: if_splits sum.splits)

text \<open>
  The scan in one pass: the transactions above \<open>fromLT\<close>, the registrations they carry in
  order, and the highest logical time.
\<close>

definition above :: "u64 \<Rightarrow> Transaction option list \<Rightarrow> Transaction list" where
  "above fromLT txs = filter (\<lambda>tx. fromLT < Tx_LT tx) (List.map_filter id txs)"

definition provider_of :: "string \<Rightarrow> Transaction \<Rightarrow> Provider" where
  "provider_of pubkey tx = \<lparr>PublicKey = pubkey, Address = Tx_From tx, LT = 0, RegisteredAt = Tx_CreatedAt tx\<rparr>"

definition registrations :: "(string \<Rightarrow> string) \<Rightarrow> Transaction list \<Rightarrow> (string \<times> Provider) list" where
  "registrations uni txs =
     List.map_filter (\<lambda>tx. map_option (\<lambda>pk. (pk, provider_of pk tx)) (registration uni tx)) txs"

definition max_LT :: "u64 \<Rightarrow> Transaction list \<Rightarrow> u64" where
  "max_LT l txs = fold max (map Tx_LT txs) l"

lemma registrations_Cons:
  "registrations uni (tx # txs) =
     (case registration uni tx of None \<Rightarrow> registrations uni txs
      | Some pk \<Rightarrow> (pk, provider_of pk tx) # registrations uni txs)"
  by (simp add: registrations_def map_filter_simps split: option.split)

lemma above_Cons:
  "above fromLT (otx # txs) =
     (case otx of Some tx \<Rightarrow> (if fromLT < Tx_LT tx then tx # above fromLT txs else above fromLT txs)
      | None \<Rightarrow> above fromLT txs)"
  by (simp add: above_def map_filter_simps split: option.split)

lemma set_above: "tx \<in> set (above fromLT txs) \<longleftrightarrow> Some tx \<in> set txs \<and> fromLT < Tx_LT tx"
  by (induction txs) (auto simp: above_Cons above_def map_filter_simps split: option.splits)

lemma master_fold:
  "fold (master_step uni fromLT) txs (u, l) =
     (fold put_new (registrations uni (above fromLT txs)) u, max_LT l (above fromLT txs))"
proof (induction txs arbitrary: u l)
  case Nil
  show ?case by (simp add: above_def registrations_def max_LT_def map_filter_simps)
next
  case (Cons otx txs)
  show ?case
  proof (cases "\<exists>tx. otx = Some tx \<and> fromLT < Tx_LT tx")
    case False
    then have "master_step uni fromLT otx (u, l) = (u, l)" "above fromLT (otx # txs) = above fromLT txs"
      by (auto simp: master_step_def above_Cons split: option.splits)
    with Cons show ?thesis by simp
  next
    case True
    then obtain tx where tx: "otx = Some tx" "fromLT < Tx_LT tx" by blast
    then have "master_step uni fromLT otx (u, l) =
        ((case registration uni tx of None \<Rightarrow> u | Some pk \<Rightarrow> put_new (pk, provider_of pk tx) u), max (Tx_LT tx) l)"
      by (auto simp: master_step_def put_new_def provider_of_def max_def not_le Let_def split: option.split)
    with tx Cons show ?thesis
      by (simp add: above_Cons registrations_Cons max_LT_def split: option.split)
  qed
qed

lemma max_LT_Cons: "max_LT l (t # ts) = max_LT (max (Tx_LT t) l) ts"
  by (simp add: max_LT_def)

lemma max_LT_ge: "l \<le> max_LT l txs"
proof (induction txs arbitrary: l)
  case (Cons t ts)
  then show ?case by (metis max_LT_Cons max.boundedE)
qed (simp add: max_LT_def)

lemma max_LT_bound: "tx \<in> set txs \<Longrightarrow> Tx_LT tx \<le> max_LT l txs"
proof (induction txs arbitrary: l)
  case (Cons t ts)
  have "Tx_LT t \<le> max_LT (max (Tx_LT t) l) ts" by (metis max_LT_ge max.boundedE)
  with Cons show ?case by (auto simp: max_LT_Cons)
qed simp

lemma max_LT_from: "max_LT l txs = l \<or> (\<exists>tx \<in> set txs. max_LT l txs = Tx_LT tx)"
proof (induction txs arbitrary: l)
  case (Cons t ts)
  from Cons.IH [of "max (Tx_LT t) l"] show ?case by (auto simp: max_LT_def max_def split: if_splits)
qed (simp add: max_LT_def)

lemma registrations_PublicKey: "(pk, p) \<in> set (registrations uni txs) \<Longrightarrow> PublicKey p = pk \<and> pubkey_ok pk \<and> IsUserFriendly (Address p)"
  by (induction txs)
    (auto simp: registrations_Cons registrations_def map_filter_simps provider_of_def dest: registration_ok split: option.splits)

lemma MasterScanner_Scan_Inr:
  "MasterScanner_Scan uni ord client addr fromLT = Inr (ps, lastLT) \<longleftrightarrow>
     (\<exists>txs. cl_GetTransactions client addr fromLT = Inr txs \<and> lastLT = max_LT fromLT (above fromLT txs) \<and>
        ps = map snd (map_range ord (fold put_new (registrations uni (above fromLT txs)) [])))"
  by (auto simp: MasterScanner_Scan_def master_fold split: sum.splits prod.splits)

lemma master_unique:
  fixes uni txs
  defines "m \<equiv> fold put_new (registrations uni txs) []"
  shows "distinct (map fst m)" and "map_of m = map_of (registrations uni txs)"
    and "(k, p) \<in> set m \<longleftrightarrow> map_of (registrations uni txs) k = Some p"
proof -
  show d: "distinct (map fst m)" unfolding m_def by (rule distinct_fold_put_new) simp
  show mo: "map_of m = map_of (registrations uni txs)"
    by (rule ext) (simp add: m_def map_of_fold_put_new)
  show "(k, p) \<in> set m \<longleftrightarrow> map_of (registrations uni txs) k = Some p"
    using d by (simp flip: mo add: map_of_eq_Some_iff)
qed

lemma MasterScanner_Scan_set:
  assumes "MasterScanner_Scan uni ord client addr fromLT = Inr (ps, lastLT)"
    and "cl_GetTransactions client addr fromLT = Inr txs"
  shows "set ps = {p. \<exists>k. map_of (registrations uni (above fromLT txs)) k = Some p}"
proof -
  have "set ps = snd ` set (fold put_new (registrations uni (above fromLT txs)) [])"
    using assms by (auto simp: MasterScanner_Scan_Inr set_map_range master_unique(1))
  also have "\<dots> = {p. \<exists>k. map_of (registrations uni (above fromLT txs)) k = Some p}"
    using master_unique(3) [where txs = "above fromLT txs" and uni = uni] by (force simp: image_iff)
  finally show ?thesis .
qed

text \<open>What the use case relies on: the checkpoint does not go back, and the keys are distinct,
  well-formed and lower case.\<close>

locale master_scanner =
  fixes scan :: "string \<Rightarrow> u64 \<Rightarrow> (Provider list \<times> u64) res"
  assumes lt_grows: "scan addr lt = Inr (ps, l) \<Longrightarrow> lt \<le> l"
    and keys_distinct: "scan addr lt = Inr (ps, l) \<Longrightarrow> distinct (map PublicKey ps)"
    and keys_ok: "scan addr lt = Inr (ps, l) \<Longrightarrow> p \<in> set ps \<Longrightarrow> pubkey_ok (PublicKey p)"
begin

lemma keys_lower: "scan addr lt = Inr (ps, l) \<Longrightarrow> p \<in> set ps \<Longrightarrow> ToLower uni (PublicKey p) = PublicKey p"
  using keys_ok [of addr lt ps l p]
  by (auto simp: pubkey_ok_def ToLower_def dest: hex_decode_ascii split: sum.splits)

end

interpretation ms: master_scanner "MasterScanner_Scan uni ord client" for uni ord client
proof unfold_locales
  fix addr lt ps l p
  assume scan: "MasterScanner_Scan uni ord client addr lt = Inr (ps, l)"
  then obtain txs where txs: "cl_GetTransactions client addr lt = Inr txs" "l = max_LT lt (above lt txs)"
    and ps: "ps = map snd (map_range ord (fold put_new (registrations uni (above lt txs)) []))"
    by (auto simp: MasterScanner_Scan_Inr)
  show "lt \<le> l" by (simp add: txs max_LT_ge)
  let ?m = "fold put_new (registrations uni (above lt txs)) []"
  have key: "PublicKey (snd kp) = fst kp \<and> pubkey_ok (fst kp)" if "kp \<in> set (map_range ord ?m)" for kp
    using that master_unique(3) [of "fst kp" "snd kp"]
    by (auto simp: set_map_range master_unique(1) dest!: map_of_SomeD dest: registrations_PublicKey)
  then have "map PublicKey ps = map fst (map_range ord ?m)" by (simp add: ps)
  then show "distinct (map PublicKey ps)" by (simp add: distinct_map_range master_unique(1))
  show "pubkey_ok (PublicKey p)" if "p \<in> set ps"
    using that key by (auto simp: ps)
qed

section \<open>What the wallet scan returns\<close>

definition withdrawals :: "Transaction option list \<Rightarrow> Transaction list" where
  "withdrawals txs = filter (\<lambda>tx. Tx_Op tx = StorageRewardWithdrawalOpCode) (List.map_filter id txs)"

definition lookup0 :: "(string, u64) gomap \<Rightarrow> string \<Rightarrow> u64" where
  "lookup0 m k = (case map_of m k of Some l \<Rightarrow> l | None \<Rightarrow> 0)"

definition raise_lt :: "Transaction \<Rightarrow> (string, u64) gomap \<Rightarrow> (string, u64) gomap" where
  "raise_lt tx m = (if lookup0 m (Tx_From tx) < Tx_LT tx then AList.update (Tx_From tx) (Tx_LT tx) m else m)"

lemma withdrawals_Cons:
  "withdrawals (otx # txs) =
     (case otx of Some tx \<Rightarrow>
        (if Tx_Op tx = StorageRewardWithdrawalOpCode then tx # withdrawals txs else withdrawals txs)
      | None \<Rightarrow> withdrawals txs)"
  by (simp add: withdrawals_def map_filter_simps split: option.split)

lemma scan_fold:
  "fold scan_step txs (m, l) = (fold raise_lt (withdrawals txs) m, max_LT l (withdrawals txs))"
proof (induction txs arbitrary: m l)
  case Nil
  show ?case by (simp add: withdrawals_def max_LT_def map_filter_simps)
next
  case (Cons otx txs)
  then show ?case
    by (auto simp: scan_step_def withdrawals_Cons raise_lt_def lookup0_def max_LT_Cons max_def split: option.splits)
qed

lemma lookup0_raise: "lookup0 (raise_lt tx m) a = (if Tx_From tx = a then max (Tx_LT tx) (lookup0 m a) else lookup0 m a)"
  by (auto simp: raise_lt_def lookup0_def update_conv max_def)

lemma lookup0_fold: "lookup0 (fold raise_lt ws m) a = max_LT (lookup0 m a) (filter (\<lambda>tx. Tx_From tx = a) ws)"
proof (induction ws arbitrary: m)
  case Nil
  show ?case by (simp add: max_LT_def)
next
  case (Cons w ws)
  then show ?case by (simp add: lookup0_raise max_LT_Cons)
qed

lemma raise_positive: "\<forall>l \<in> ran (map_of m). 0 < l \<Longrightarrow> \<forall>l \<in> ran (map_of (raise_lt tx m)). 0 < l"
  by (auto simp: raise_lt_def update_conv ran_def split: if_splits) (metis word_not_simps(1) word_gt_0)

lemma fold_raise_positive: "\<forall>l \<in> ran (map_of m). 0 < l \<Longrightarrow> \<forall>l \<in> ran (map_of (fold raise_lt ws m)). 0 < l"
proof (induction ws arbitrary: m)
  case (Cons w ws)
  from Cons.IH [OF raise_positive [OF Cons.prems]] show ?case by simp
qed simp

lemma raise_key:
  "map_of (fold raise_lt ws []) a = Some l \<longleftrightarrow>
     0 < l \<and> l = max_LT 0 (filter (\<lambda>tx. Tx_From tx = a) ws)"
proof -
  have "lookup0 (fold raise_lt ws []) a = max_LT 0 (filter (\<lambda>tx. Tx_From tx = a) ws)"
    by (simp add: lookup0_fold) (simp add: lookup0_def)
  moreover have "\<forall>l \<in> ran (map_of (fold raise_lt ws [])). 0 < l"
    by (rule fold_raise_positive) simp
  ultimately show ?thesis
    by (auto simp: lookup0_def ran_def split: option.splits)
qed

lemma Scanner_Scan_Inr:
  assumes "Scanner_Scan ord client wallet fromLT = Inr (cs, lastLT)"
  obtains txs where "cl_GetTransactions client wallet fromLT = Inr txs"
    and "lastLT = max_LT fromLT (withdrawals txs)"
    and "\<And>c. c \<in> set cs \<Longrightarrow> Providers c = [wallet] \<and>
       map_of (fold raise_lt (withdrawals txs) []) (SC_Address c) = Some (LastLT c)"
proof -
  from assms obtain txs where txs: "cl_GetTransactions client wallet fromLT = Inr txs"
    by (auto simp: Scanner_Scan_def split: sum.splits)
  let ?m = "fold raise_lt (withdrawals txs) []"
  from assms txs have l: "lastLT = max_LT fromLT (withdrawals txs)"
    by (auto simp: Scanner_Scan_def scan_fold split: sum.splits if_splits)
  from assms txs obtain infos where "cs = [] \<or> cs = enrich ?m wallet infos"
    by (auto simp: Scanner_Scan_def scan_fold split: sum.splits if_splits)
  then have "Providers c = [wallet] \<and> map_of ?m (SC_Address c) = Some (LastLT c)" if "c \<in> set cs" for c
    using that by (auto simp: enrich_def map_filter_def split: option.splits)
  with txs l that show ?thesis by blast
qed

text \<open>What the use case relies on: the wallet's checkpoint does not go back, and every contract
  names this wallet as its provider with a logical time the checkpoint covers.\<close>

locale wallet_scanner =
  fixes scan :: "string \<Rightarrow> u64 \<Rightarrow> (StorageContract list \<times> u64) res"
  assumes wallet_lt_grows: "scan wallet lt = Inr (cs, l) \<Longrightarrow> lt \<le> l"
    and own_contracts: "scan wallet lt = Inr (cs, l) \<Longrightarrow> c \<in> set cs \<Longrightarrow> Providers c = [wallet]"
    and covered: "scan wallet lt = Inr (cs, l) \<Longrightarrow> c \<in> set cs \<Longrightarrow> LastLT c \<le> l"

lemma max_LT_mono: "set ws \<subseteq> set vs \<Longrightarrow> l \<le> m \<Longrightarrow> max_LT l ws \<le> max_LT m vs"
  using max_LT_from [of l ws] max_LT_ge [of m vs] by (auto intro!: max_LT_bound)

interpretation ws: wallet_scanner "Scanner_Scan ord client" for ord client
proof unfold_locales
  fix wallet lt cs l c
  assume scan: "Scanner_Scan ord client wallet lt = Inr (cs, l)"
  then obtain txs where txs: "l = max_LT lt (withdrawals txs)"
    and c: "\<And>c. c \<in> set cs \<Longrightarrow> Providers c = [wallet] \<and>
       map_of (fold raise_lt (withdrawals txs) []) (SC_Address c) = Some (LastLT c)"
    by (blast elim: Scanner_Scan_Inr)
  show "lt \<le> l" by (simp add: txs max_LT_ge)
  show "Providers c = [wallet]" if "c \<in> set cs" using c [OF that] by simp
  show "LastLT c \<le> l" if "c \<in> set cs"
  proof -
    from c [OF that] have "LastLT c = max_LT 0 (filter (\<lambda>tx. Tx_From tx = SC_Address c) (withdrawals txs))"
      by (simp add: raise_key)
    then show ?thesis by (simp add: txs max_LT_mono)
  qed
qed

section \<open>What an inspection returns\<close>

text \<open>The client of \<open>NewClient\<close>; \<open>gt\<close> is what its \<open>GetTransactions\<close> returns.\<close>

definition lite_client ::
  "string iter_order \<Rightarrow> ('a, 'b) LiteApi \<Rightarrow> (string \<Rightarrow> u64 \<Rightarrow> Transaction option list res) \<Rightarrow> TonClient" where
  "lite_client ord api gt = \<lparr>cl_GetTransactions = gt, cl_GetStorageContractsInfo = GetStorageContractsInfo api,
     cl_GetProvidersInfo = GetProvidersInfo ord api\<rparr>"

locale contract_inspector =
  fixes inspect :: "string list \<Rightarrow> ContractOnChainState list res"
  assumes states_asked: "inspect as = Inr ss \<Longrightarrow> s \<in> set ss \<Longrightarrow> OC_Address s \<in> set as"
    and states_distinct: "inspect as = Inr ss \<Longrightarrow> distinct as \<Longrightarrow> distinct (map OC_Address ss)"

lemma provider_task_addr: "r \<in> set (provider_task api block a) \<Longrightarrow> SP_Address r = a"
  by (auto simp: provider_task_def split: sum.splits prod.splits)

lemma provider_task_le1: "length (provider_task api block a) \<le> 1"
  by (auto simp: provider_task_def split: sum.splits prod.splits)

lemma distinct_concat_tasks:
  assumes "\<And>x r. r \<in> set (f x) \<Longrightarrow> g r = x" "\<And>x. length (f x) \<le> 1"
  shows "distinct xs \<Longrightarrow> distinct (map g (concat (map f xs)))"
proof (induction xs)
  case (Cons x xs)
  have "distinct (map g (f x))" using assms(2) [of x] by (cases "f x") auto
  moreover have "g ` set (f x) \<inter> g ` set (concat (map f xs)) = {}"
    using Cons.prems assms(1) by fastforce
  ultimately show ?case using Cons by simp
qed simp

interpretation insp: contract_inspector "InspectProviders (lite_client ord api gt)" for ord api gt
proof unfold_locales
  fix as ss s
  assume insp: "InspectProviders (lite_client ord api gt) as = Inr ss"
  obtain block where tasks: "map OC_Address ss = map SP_Address (pool_results ord (provider_task api block) as)"
    using insp by (cases "as = []")
      (auto simp: InspectProviders_def lite_client_def GetProvidersInfo_def pool_results_def comp_def split: sum.splits)
  show "OC_Address s \<in> set as" if "s \<in> set ss"
  proof -
    from that have "OC_Address s \<in> set (map OC_Address ss)" by simp
    then show ?thesis by (auto simp: tasks set_pool_results dest: provider_task_addr)
  qed
  show "distinct (map OC_Address ss)" if "distinct as"
    unfolding tasks pool_results_def
    by (rule distinct_concat_tasks [OF provider_task_addr provider_task_le1]) (simp_all add: that)
qed


section \<open>Properties\<close>

text \<open>
  C27.  The master scan returns, for every public key that some transaction above the checkpoint
  registers, the provider of the first such transaction and nothing else; the keys are distinct,
  lower-case and the hex of 32 bytes, the senders are user-friendly addresses, and the new
  checkpoint is the highest logical time seen, registrations or not.
\<close>

theorem MasterScanner_exact:
  assumes "MasterScanner_Scan uni ord client addr fromLT = Inr (ps, lastLT)" "cl_GetTransactions client addr fromLT = Inr txs"
  shows "set ps = {p. \<exists>k. map_of (registrations uni (above fromLT txs)) k = Some p} \<and> distinct (map PublicKey ps) \<and>
     (\<forall>p \<in> set ps. pubkey_ok (PublicKey p) \<and> IsUserFriendly (Address p)) \<and>
     lastLT = fold max (map Tx_LT (above fromLT txs)) fromLT"
proof (intro conjI ballI)
  show s: "set ps = {p. \<exists>k. map_of (registrations uni (above fromLT txs)) k = Some p}"
    using assms by (rule MasterScanner_Scan_set)
  show "distinct (map PublicKey ps)" using assms(1) by (rule ms.keys_distinct)
  show "pubkey_ok (PublicKey p)" if "p \<in> set ps" for p using assms(1) that by (rule ms.keys_ok)
  show "IsUserFriendly (Address p)" if "p \<in> set ps" for p
    using that unfolding s by (auto dest!: map_of_SomeD dest: registrations_PublicKey)
  show "lastLT = fold max (map Tx_LT (above fromLT txs)) fromLT"
    using assms by (simp add: MasterScanner_Scan_Inr max_LT_def)
qed

definition sample_address :: string where
  "sample_address = ''UQ'' @ replicate 46 (CHR ''x'')"

definition sample_registration :: "u64 \<Rightarrow> Transaction" where
  "sample_registration lt = \<lparr>Tx_Hash = [], Tx_LT = lt, Tx_Op = 0, Tx_From = sample_address, Tx_To = ''EQ'',
     Tx_Message = ''tsp-'' @ replicate 64 (CHR ''B''), Tx_CreatedAt = 1\<rparr>"

definition sample_client :: TonClient where
  "sample_client = \<lparr>cl_GetTransactions = (\<lambda>a lt. Inr [Some (sample_registration 30), None, Some (sample_registration 5)]),
     cl_GetStorageContractsInfo = (\<lambda>as. Inr []), cl_GetProvidersInfo = (\<lambda>as. Inr [])\<rparr>"

lemma sample_registered: "registration (\<lambda>s. s) (sample_registration lt) = Some (replicate 64 (CHR ''b''))"
proof -
  have "IsUserFriendly sample_address" by code_simp
  moreover have "strings_Index (''tsp-'' @ replicate 64 (CHR ''B'')) TspRegistrationPrefix = 0" by code_simp
  moreover have "ToLower (\<lambda>s. s) (replicate 64 (CHR ''B'')) = replicate 64 (CHR ''b'')" by code_simp
  moreover have "\<exists>raw. hex_DecodeString (replicate 64 (CHR ''b'')) = Inr raw \<and> length raw = 32"
    using hex_decodes_iff [of "replicate 64 (CHR ''b'')"] hex_decode_length [of "replicate 64 (CHR ''b'')"]
    by (fastforce simp: list_all_iff hex_val_def code_def)
  ultimately show ?thesis
    by (auto simp: registration_def sample_registration_def TspRegistrationPrefix_def pubkeyHexLen_def Let_def)
qed

theorem MasterScanner_exact_witness:
  "\<exists>ps. MasterScanner_Scan (\<lambda>s. s) reverse_order sample_client ''EQ'' 10 = Inr (ps, 30) \<and>
     set ps = {provider_of (replicate 64 (CHR ''b'')) (sample_registration 30)}"
proof -
  let ?txs = "[Some (sample_registration 30), None, Some (sample_registration 5)]"
  have above: "above 10 ?txs = [sample_registration 30]"
    by (simp add: above_def map_filter_simps sample_registration_def)
  have tx: "cl_GetTransactions sample_client ''EQ'' 10 = Inr ?txs" by (simp add: sample_client_def)
  obtain ps where ps: "MasterScanner_Scan (\<lambda>s. s) reverse_order sample_client ''EQ'' 10 = Inr (ps, max_LT 10 (above 10 ?txs))"
    using tx by (auto simp: MasterScanner_Scan_Inr)
  have "map_of (registrations (\<lambda>s. s) (above 10 ?txs)) k = Some p \<longleftrightarrow>
      k = replicate 64 (CHR ''b'') \<and> p = provider_of (replicate 64 (CHR ''b'')) (sample_registration 30)" for k p
    unfolding above by (auto simp: registrations_def map_filter_simps sample_registered)
  moreover have "max_LT 10 (above 10 ?txs) = 30" unfolding above by (simp add: max_LT_def sample_registration_def)
  ultimately show ?thesis using MasterScanner_exact [OF ps tx] ps by auto
qed

text \<open>
  The wallet scan: the new checkpoint is the highest logical time of a reward withdrawal, never
  below the old one; every contract that is returned paid this wallet, has it as its only provider,
  and carries the highest logical time of its own withdrawals.
\<close>

lemma Scanner_sound:
  assumes "Scanner_Scan ord client wallet fromLT = Inr (cs, lastLT)" "cl_GetTransactions client wallet fromLT = Inr txs"
  shows "lastLT = fold max (map Tx_LT (withdrawals txs)) fromLT \<and> fromLT \<le> lastLT \<and>
     (\<forall>c \<in> set cs. Providers c = [wallet] \<and> LastLT c \<le> lastLT \<and>
        LastLT c = fold max (map Tx_LT (filter (\<lambda>tx. Tx_From tx = SC_Address c) (withdrawals txs))) 0 \<and>
        (\<exists>tx \<in> set (withdrawals txs). Tx_From tx = SC_Address c \<and> Tx_LT tx = LastLT c))"
proof -
  from assms obtain txs' where t: "cl_GetTransactions client wallet fromLT = Inr txs'" "lastLT = max_LT fromLT (withdrawals txs')"
    and c: "\<And>c. c \<in> set cs \<Longrightarrow> Providers c = [wallet] \<and>
       map_of (fold raise_lt (withdrawals txs') []) (SC_Address c) = Some (LastLT c)"
    by (blast elim: Scanner_Scan_Inr)
  have "Providers c = [wallet] \<and> LastLT c \<le> lastLT \<and> LastLT c = max_LT 0 (filter (\<lambda>tx. Tx_From tx = SC_Address c) (withdrawals txs)) \<and>
      (\<exists>tx \<in> set (withdrawals txs). Tx_From tx = SC_Address c \<and> Tx_LT tx = LastLT c)" if "c \<in> set cs" for c
  proof -
    from c [OF that] assms(2) t(1) have l: "0 < LastLT c" "LastLT c = max_LT 0 (filter (\<lambda>tx. Tx_From tx = SC_Address c) (withdrawals txs))"
      by (auto simp: raise_key)
    with max_LT_from [of 0 "filter (\<lambda>tx. Tx_From tx = SC_Address c) (withdrawals txs)"]
    have "\<exists>tx \<in> set (withdrawals txs). Tx_From tx = SC_Address c \<and> Tx_LT tx = LastLT c" by auto
    with c [OF that] l ws.covered [OF assms(1) that] show ?thesis by blast
  qed
  moreover have "lastLT = max_LT fromLT (withdrawals txs)" using assms(2) t by simp
  ultimately show ?thesis using ws.wallet_lt_grows [OF assms(1)] unfolding max_LT_def by blast
qed

text \<open>
  C29.  A scan that meets the deadline loses what it did not reach.  When the second batch of the
  backward walk fails with \<open>DeadlineExceeded\<close>, the walk stops with the newest batch, the scan
  succeeds, and its checkpoint is at or above every message of that batch.  A scan from that
  checkpoint ignores every older transaction, so the registrations between the old checkpoint and
  the batch are never seen.
\<close>

theorem deadline_skips_history:
  assumes "ParseAddr api addr = Inr a" "GetMasterchainInfo api = Inr block" "GetAccount api block a = Inr (lt, h)"
    and "ListTransactions api 0 a batch lt h = Inr new" "\<forall>t \<in> set new. lp < tlb_LT t \<and> IO_In t \<noteq> None"
    and "ListTransactions api 1 a batch (PrevTxLT (hd new)) (PrevTxHash (hd new)) = Inl DeadlineExceeded"
    and "GetTransactions api addr lp = Some (cl_GetTransactions client addr lp)" "t0 \<in> set new" "internal_of t0 = Some tx0"
  shows "\<exists>ps l. MasterScanner_Scan uni ord client addr lp = Inr (ps, l) \<and> Tx_LT tx0 \<le> l \<and>
     (\<forall>p \<in> set ps. \<exists>t \<in> set new. \<exists>tx k. internal_of t = Some tx \<and> p = provider_of k tx) \<and>
     (\<forall>later tx. Tx_LT tx \<le> Tx_LT tx0 \<longrightarrow> tx \<notin> set (above l later))"
proof -
  let ?txs = "map Some (List.map_filter internal_of new)"
  have "cut_loop lp new (length new) = None"
    using assms(5) by (auto simp: cut_loop_None not_le)
  moreover have "new \<noteq> []" using assms(8) by auto
  ultimately have "list_loop api a lp 0 lt h [] = Some (Inr new)"
    using assms(4,6) by (subst list_loop.simps, simp, subst list_loop.simps) (simp add: list_stops_def)
  then have "cl_GetTransactions client addr lp = Inr ?txs"
    using assms(1-3,5,7) by (simp add: GetTransactions_def parse_all_ok)
  note txs = this
  obtain ps where scan: "MasterScanner_Scan uni ord client addr lp = Inr (ps, max_LT lp (above lp ?txs))"
    using txs by (auto simp: MasterScanner_Scan_Inr)
  have lt: "Tx_LT tx = tlb_LT t" if "internal_of t = Some tx" for t tx
    using that by (auto simp: internal_of_def parseTx_def split: option.splits tlb_message.splits sum.splits)
  have mem: "Some tx \<in> set ?txs \<longleftrightarrow> (\<exists>t \<in> set new. internal_of t = Some tx)" for tx
    by (force simp: map_filter_def)
  have "tx0 \<in> set (above lp ?txs)" using assms(5,8,9) lt mem by (auto simp: set_above)
  then have l: "Tx_LT tx0 \<le> max_LT lp (above lp ?txs)" by (rule max_LT_bound)
  have "\<exists>t \<in> set new. \<exists>tx k. internal_of t = Some tx \<and> p = provider_of k tx" if "p \<in> set ps" for p
  proof -
    from that obtain k where "(k, p) \<in> set (registrations uni (above lp ?txs))"
      using MasterScanner_Scan_set [OF scan txs] by (auto dest: map_of_SomeD)
    then obtain tx where "tx \<in> set (above lp ?txs)" "p = provider_of k tx"
      by (auto simp: registrations_def map_filter_def)
    then show ?thesis using mem by (auto simp: set_above)
  qed
  moreover have "tx \<notin> set (above (max_LT lp (above lp ?txs)) later)" if "Tx_LT tx \<le> Tx_LT tx0" for later tx
    using that l by (auto simp: set_above)
  ultimately show ?thesis using scan l by blast
qed

theorem deadline_skips_history_witness:
  "\<exists>ps l. MasterScanner_Scan (\<lambda>s. s) source_order (sample_client\<lparr>cl_GetTransactions := (\<lambda>a lp. Inr (map Some (List.map_filter internal_of [sample_tx 20 10])))\<rparr>)
      ''EQ'' 5 = Inr (ps, l) \<and> 20 \<le> l"
proof -
  let ?api = "sample_api\<lparr>ListTransactions := (\<lambda>k a n lt h. if k = 0 then Inr [sample_tx 20 10] else Inl DeadlineExceeded)\<rparr>"
  let ?client = "sample_client\<lparr>cl_GetTransactions := (\<lambda>a lp. Inr (map Some (List.map_filter internal_of [sample_tx 20 10])))\<rparr>"
  have "list_loop ?api () 5 0 20 [] [] = Some (Inr [sample_tx 20 10])"
    by (subst list_loop.simps, simp add: sample_tx_def, subst list_loop.simps) (simp add: list_stops_def)
  moreover have "ParseAddr ?api ''EQ'' = Inr ()" "GetMasterchainInfo ?api = Inr ()" "GetAccount ?api () () = Inr (20, [])"
    by (simp_all add: sample_api_def)
  moreover have "parse_all [sample_tx 20 10] = Inr (map Some (List.map_filter internal_of [sample_tx 20 10]))"
    by (rule parse_all_ok) (simp add: sample_tx_def)
  ultimately have "GetTransactions ?api ''EQ'' 5 = Some (cl_GetTransactions ?client ''EQ'' 5)"
    by (simp add: GetTransactions_def)
  moreover have "internal_of (sample_tx 20 10) = Some \<lparr>Tx_Hash = [], Tx_LT = 20, Tx_Op = 0, Tx_From = ''UQ'', Tx_To = ''EQ'', Tx_Message = [], Tx_CreatedAt = 3 * second\<rparr>"
    by (simp add: internal_of_def parseTx_def sample_tx_def)
  ultimately show ?thesis
    using deadline_skips_history [of ?api "''EQ''" "()" "()" 20 "[]" "[sample_tx 20 10]" 5 ?client "sample_tx 20 10"
        "\<lparr>Tx_Hash = [], Tx_LT = 20, Tx_Op = 0, Tx_From = ''UQ'', Tx_To = ''EQ'', Tx_Message = [], Tx_CreatedAt = 3 * second\<rparr>" "\<lambda>s. s" source_order]
    by (force simp: sample_api_def sample_tx_def)
qed

end
