(* ===== verification/Redis_Publisher.thy ===== *)
theory Redis_Publisher
  imports Agent_Domain
begin

text \<open>
  The result publisher of \<open>internal/adapters/outbound/redisstream/publisher.go\<close>.
  \<open>json.Marshal\<close> is the parameter \<open>marshal\<close>; the redis client's \<open>XAdd\<close> is a
  parameter over the state \<open>'w\<close> it acts on.  The bus is the agent's view of a server: the
  commands it accepted, and the reply it gives to each call.
\<close>

record XAddArgs =
  XA_Stream :: string
  XA_Values :: "(string \<times> string) list"
  XA_MaxLen :: int
  XA_Approx :: bool

record Publisher =
  maxLen :: int
  pub_agentID :: string

definition NewPublisher :: "int \<Rightarrow> string \<Rightarrow> Publisher" where
  "NewPublisher ml aid = \<lparr>maxLen = ml, pub_agentID = aid\<rparr>"

type_synonym 'w xadd = "XAddArgs \<Rightarrow> 'w \<Rightarrow> error option \<times> 'w"
type_synonym marshaller = "ResultEnvelope \<Rightarrow> string res"

definition publish :: "marshaller \<Rightarrow> 'w xadd \<Rightarrow> Publisher \<Rightarrow> string \<Rightarrow> ResultEnvelope \<Rightarrow> 'w \<Rightarrow> error option \<times> 'w" where
  "publish marshal xadd p streamKey res w =
     (let op = ''redisstream.Publisher.publish'' in
      case marshal res of Inl e \<Rightarrow> (Some (Wrapped op e), w)
      | Inr data \<Rightarrow>
        (let args = \<lparr>XA_Stream = streamKey, XA_Values = [(''data'', data)], XA_MaxLen = 0, XA_Approx = False\<rparr>;
             args = (if maxLen p > 0 then args\<lparr>XA_MaxLen := maxLen p, XA_Approx := True\<rparr> else args) in
         case xadd args w of (Some e, w') \<Rightarrow> (Some (Wrapped op e), w') | (None, w') \<Rightarrow> (None, w')))"

definition result_env :: "time \<Rightarrow> Publisher \<Rightarrow> string \<Rightarrow> string \<Rightarrow> Payload \<Rightarrow> ResultEnvelope" where
  "result_env now p jobID cycleType payload =
     \<lparr>JobID = jobID, Type = cycleType, Status = StatusOK, Error = '''', RPayload = Some payload,
      ProcessedAt = now, AgentID = pub_agentID p\<rparr>"

definition PublishResult ::
  "marshaller \<Rightarrow> 'w xadd \<Rightarrow> time \<Rightarrow> Publisher \<Rightarrow> string \<Rightarrow> string \<Rightarrow> string \<Rightarrow> Payload \<Rightarrow> 'w \<Rightarrow> error option \<times> 'w" where
  "PublishResult marshal xadd now p streamKey jobID cycleType payload w =
     publish marshal xadd p streamKey (result_env now p jobID cycleType payload) w"

definition PublishError ::
  "marshaller \<Rightarrow> 'w xadd \<Rightarrow> time \<Rightarrow> Publisher \<Rightarrow> string \<Rightarrow> string \<Rightarrow> string \<Rightarrow> string \<Rightarrow> 'w \<Rightarrow> error option \<times> 'w" where
  "PublishError marshal xadd now p streamKey jobID cycleType errMsg w =
     publish marshal xadd p streamKey
       \<lparr>JobID = jobID, Type = cycleType, Status = StatusError, Error = errMsg, RPayload = None,
        ProcessedAt = now, AgentID = pub_agentID p\<rparr> w"

section \<open>The bus\<close>

record Bus =
  bus_cmds :: "XAddArgs list"
  bus_calls :: nat
  bus_reply :: "nat \<Rightarrow> error option"

definition bus_XAdd :: "Bus xadd" where
  "bus_XAdd args b =
     (let b' = b\<lparr>bus_calls := Suc (bus_calls b)\<rparr> in
      case bus_reply b (bus_calls b) of
        Some e \<Rightarrow> (Some e, b')
      | None \<Rightarrow> (None, b'\<lparr>bus_cmds := bus_cmds b @ [args]\<rparr>))"

text \<open>What a use case relies on: a publication that returns no error is one new entry of the
  stream it names; one that returns an error is none.\<close>

locale result_publisher =
  fixes pub :: "string \<Rightarrow> string \<Rightarrow> string \<Rightarrow> Payload \<Rightarrow> 'w \<Rightarrow> error option \<times> 'w"
    and entries :: "'w \<Rightarrow> (string \<times> string) list"
    and encode :: "string \<Rightarrow> string \<Rightarrow> Payload \<Rightarrow> string res"
  assumes published: "pub s j c p w = (None, w') \<Longrightarrow>
      \<exists>d. encode j c p = Inr d \<and> entries w' = entries w @ [(s, d)]"
    and not_published: "pub s j c p w = (Some e, w') \<Longrightarrow> entries w' = entries w"
begin

lemma at_most_one: "pub s j c p w = (r, w') \<Longrightarrow> length (entries w') \<le> Suc (length (entries w))"
  by (cases r) (auto dest: published not_published)

lemma entry_of_stream:
  "pub s j c p w = (r, w') \<Longrightarrow> x \<in> set (entries w') \<Longrightarrow> x \<notin> set (entries w) \<Longrightarrow>
     fst x = s \<and> encode j c p = Inr (snd x)"
  by (cases r) (auto dest: published not_published)

end

definition bus_entries :: "Bus \<Rightarrow> (string \<times> string) list" where
  "bus_entries b =
     map (\<lambda>a. (XA_Stream a, case map_of (XA_Values a) ''data'' of Some d \<Rightarrow> d | None \<Rightarrow> '''')) (bus_cmds b)"

interpretation bus_pub: result_publisher
  "PublishResult marshal bus_XAdd now p" bus_entries "\<lambda>j c pl. marshal (result_env now p j c pl)"
  for marshal now p
  by unfold_locales
    (auto simp: PublishResult_def publish_def bus_XAdd_def bus_entries_def Let_def
       split: sum.splits option.splits if_splits prod.splits)

end
