(* ===== verification/Discovery_Cycle.thy ===== *)
theory Discovery_Cycle
  imports Agent_Domain Go_Std Ton_Scanners Redis_Publisher "HOL-Library.Sublist"
begin

text \<open>
  The use case \<open>internal/usecase/discovery\<close>: the cycles \<open>scan_master\<close>
  (\<open>CollectNewProviders\<close>), \<open>scan_wallets\<close> (\<open>CollectStorageContracts\<close>) and
  \<open>resolve_endpoints\<close> (\<open>ResolveEndpoints\<close>).  The struct \<open>Discovery\<close> is a record of its
  configuration and its ports; a port that writes acts on the state \<open>'w\<close>, and a port called in
  a loop takes the number of the iteration, since the world may answer differently each time.
\<close>

record DiscoveryConfig =
  MasterAddr :: string
  EndpointTTL :: duration
  ScanMasterStream :: string
  ScanWalletsStream :: string
  ResolveEndpointsStream :: string

text \<open>The ports of \<open>ports.go\<close>: a method without effect on the world is a function of its
  arguments, a method of a repository one of the world too.\<close>

type_synonym MasterScanner = "string \<Rightarrow> u64 \<Rightarrow> (Provider list \<times> u64) res"
type_synonym WalletScanner = "string \<Rightarrow> u64 \<Rightarrow> (StorageContract list \<times> u64) res"
type_synonym EndpointResolver_Resolve = "byte list \<Rightarrow> string \<Rightarrow> ProviderEndpoint res"
type_synonym EndpointResolver_ResolveStorageWithOverlay = "string \<Rightarrow> string list \<Rightarrow> Endpoint res"
type_synonym 'w ProviderRepo_GetAllPubkeys = "'w \<Rightarrow> string list res"
type_synonym 'w ProviderRepo_GetAllWallets = "'w \<Rightarrow> Provider list res"
type_synonym 'w ProviderRepo_UpdateLT = "Provider list \<Rightarrow> 'w \<Rightarrow> error option \<times> 'w"
type_synonym 'w ContractRepo = "'w \<Rightarrow> ContractProviderRelation list res"
type_synonym 'w EndpointRepo = "'w \<Rightarrow> (string, ProviderEndpoint) gomap res"
type_synonym 'w SystemRepo_GetMasterWalletLT = "'w \<Rightarrow> u64 res"
type_synonym 'w SystemRepo_SetMasterWalletLT = "u64 \<Rightarrow> 'w \<Rightarrow> error option \<times> 'w"

record 'w Discovery =
  d_cfg :: DiscoveryConfig
  masterScanner :: MasterScanner
  walletScanner :: "nat \<Rightarrow> WalletScanner"
  d_Resolve :: "nat \<Rightarrow> EndpointResolver_Resolve"
  d_ResolveStorageWithOverlay :: "nat \<Rightarrow> EndpointResolver_ResolveStorageWithOverlay"
  d_GetAllPubkeys :: "'w ProviderRepo_GetAllPubkeys"
  d_GetAllWallets :: "'w ProviderRepo_GetAllWallets"
  d_UpdateLT :: "'w ProviderRepo_UpdateLT"
  d_GetActiveRelations :: "'w ContractRepo"
  d_LoadAll :: "'w EndpointRepo"
  d_GetMasterWalletLT :: "'w SystemRepo_GetMasterWalletLT"
  d_SetMasterWalletLT :: "'w SystemRepo_SetMasterWalletLT"
  d_PublishResult :: "'w PublisherPort"

text \<open>The constructor; an interface with several methods is a tuple of them, in their order.\<close>

fun NewDiscovery ::
  "DiscoveryConfig \<Rightarrow> MasterScanner \<Rightarrow> (nat \<Rightarrow> WalletScanner) \<Rightarrow>
     (nat \<Rightarrow> EndpointResolver_Resolve) \<times> (nat \<Rightarrow> EndpointResolver_ResolveStorageWithOverlay) \<Rightarrow>
     'w ProviderRepo_GetAllPubkeys \<times> 'w ProviderRepo_GetAllWallets \<times> 'w ProviderRepo_UpdateLT \<Rightarrow> 'w ContractRepo \<Rightarrow> 'w EndpointRepo \<Rightarrow>
     'w SystemRepo_GetMasterWalletLT \<times> 'w SystemRepo_SetMasterWalletLT \<Rightarrow> 'w PublisherPort \<Rightarrow> 'w Discovery" where
  "NewDiscovery cfg ms ws (resolve, overlay) (pubkeys, wallets, updateLT) relations loadAll (getLT, setLT) publisher =
     \<lparr>d_cfg = cfg, masterScanner = ms, walletScanner = ws, d_Resolve = resolve, d_ResolveStorageWithOverlay = overlay,
      d_GetAllPubkeys = pubkeys, d_GetAllWallets = wallets, d_UpdateLT = updateLT, d_GetActiveRelations = relations, d_LoadAll = loadAll,
      d_GetMasterWalletLT = getLT, d_SetMasterWalletLT = setLT, d_PublishResult = publisher\<rparr>"

section \<open>scan_master\<close>

definition known_keys :: "(string \<Rightarrow> string) \<Rightarrow> string list \<Rightarrow> (string, unit) gomap" where
  "known_keys uni knownPubkeys = fold (\<lambda>pk. AList.update (ToLower uni pk) ()) knownPubkeys []"

fun new_loop :: "(string \<Rightarrow> string) \<Rightarrow> (string, unit) gomap \<Rightarrow> Provider list \<Rightarrow> Provider list" where
  "new_loop uni known [] = []"
| "new_loop uni known (p # ps) =
     (if map_of known (ToLower uni (PublicKey p)) \<noteq> None then new_loop uni known ps
      else p # new_loop uni known ps)"

definition CollectNewProviders :: "(string \<Rightarrow> string) \<Rightarrow> 'w Discovery \<Rightarrow> ctx \<Rightarrow> 'w \<Rightarrow> error option \<times> 'w" where
  "CollectNewProviders uni d c w =
     (case d_GetMasterWalletLT d w of Inl e \<Rightarrow> (Some e, w)
      | Inr fromLT \<Rightarrow>
        (case d_GetAllPubkeys d w of Inl e \<Rightarrow> (Some e, w)
         | Inr knownPubkeys \<Rightarrow>
           (case masterScanner d (MasterAddr (d_cfg d)) fromLT of Inl e \<Rightarrow> (Some e, w)
            | Inr (scanned, lastLT) \<Rightarrow>
              (let result = \<lparr>NewProviders = new_loop uni (known_keys uni knownPubkeys) scanned,
                             SM_LastLT = lastLT, ScannedCount = length scanned\<rparr> in
               case d_PublishResult d (ScanMasterStream (d_cfg d)) (JobIDFrom c) CycleScanMaster (PScanMaster result) w of
                 (Some e, w') \<Rightarrow> (Some e, w')
               | (None, w') \<Rightarrow>
                   if lastLT > fromLT then (None, snd (d_SetMasterWalletLT d lastLT w')) else (None, w')))))"

section \<open>scan_wallets\<close>

definition merge_contract :: "StorageContract \<Rightarrow> (string, StorageContract) gomap \<Rightarrow> (string, StorageContract) gomap" where
  "merge_contract sc merged =
     (case map_of merged (SC_Address sc) of
        Some existing \<Rightarrow>
          AList.update (SC_Address sc)
            (existing\<lparr>Providers := Providers existing @ Providers sc,
               LastLT := (if LastLT sc > LastLT existing then LastLT sc else LastLT existing)\<rparr>) merged
      | None \<Rightarrow> AList.update (SC_Address sc) sc merged)"

type_synonym wallets_state = "(string, StorageContract) gomap \<times> Provider list"

fun wallets_loop :: "'w Discovery \<Rightarrow> ctx \<Rightarrow> nat \<Rightarrow> Provider list \<Rightarrow> wallets_state \<Rightarrow> wallets_state res" where
  "wallets_loop d c k [] st = Inr st"
| "wallets_loop d c k (w # ws) (merged, updated) =
     (case ctx_Err c k of Some e \<Rightarrow> Inl e
      | None \<Rightarrow>
        if \<not> IsUserFriendly (Address w) then wallets_loop d c (Suc k) ws (merged, updated)
        else (case walletScanner d k (Address w) (LT w) of
                Inl e \<Rightarrow> if is_panic e then Inl e else wallets_loop d c (Suc k) ws (merged, updated)
              | Inr (contracts, lastLT) \<Rightarrow>
                  wallets_loop d c (Suc k) ws
                    (fold merge_contract contracts merged,
                     (if lastLT > LT w then updated @ [w\<lparr>LT := lastLT\<rparr>] else updated))))"

definition contract_relations :: "(string, string) gomap \<Rightarrow> StorageContract \<Rightarrow> ContractProviderRelation list" where
  "contract_relations addrToPubkey sc =
     List.map_filter (\<lambda>addr. case map_of addrToPubkey addr of
         None \<Rightarrow> None
       | Some pubkey \<Rightarrow> Some \<lparr>ContractAddr = SC_Address sc, ProviderPubkey = pubkey, ProviderAddress = addr,
           R_BagID = BagID sc, R_Size = Size sc\<rparr>) (Providers sc)"

definition addr_pubkeys :: "Provider list \<Rightarrow> (string, string) gomap" where
  "addr_pubkeys wallets = fold (\<lambda>w. AList.update (Address w) (PublicKey w)) wallets []"

definition CollectStorageContracts :: "string iter_order \<Rightarrow> 'w Discovery \<Rightarrow> ctx \<Rightarrow> 'w \<Rightarrow> error option \<times> 'w" where
  "CollectStorageContracts ord d c w =
     (case d_GetAllWallets d w of Inl e \<Rightarrow> (Some e, w)
      | Inr wallets \<Rightarrow>
        if wallets = [] then
          d_PublishResult d (ScanWalletsStream (d_cfg d)) (JobIDFrom c) CycleScanWallets
            (PScanWallets \<lparr>SW_Contracts = [], SW_Relations = [], UpdatedWallets = []\<rparr>) w
        else
          (case wallets_loop d c 0 wallets ([], []) of Inl e \<Rightarrow> (Some e, w)
           | Inr (merged, updatedWallets) \<Rightarrow>
             (let contracts = map snd (map_range ord merged);
                  relations = concat (map (contract_relations (addr_pubkeys wallets)) contracts);
                  result = \<lparr>SW_Contracts = contracts, SW_Relations = relations, UpdatedWallets = updatedWallets\<rparr> in
              case d_PublishResult d (ScanWalletsStream (d_cfg d)) (JobIDFrom c) CycleScanWallets (PScanWallets result) w of
                (Some e, w') \<Rightarrow> (Some e, w')
              | (None, w') \<Rightarrow>
                  if length updatedWallets > 0 then (None, snd (d_UpdateLT d updatedWallets w')) else (None, w'))))"

section \<open>resolve_endpoints\<close>

definition contracts_by_pubkey :: "ContractProviderRelation list \<Rightarrow> (string, string) gomap" where
  "contracts_by_pubkey rels = fold (\<lambda>r. put_new (ProviderPubkey r, ContractAddr r)) rels []"

definition bags_by_pubkey :: "ContractProviderRelation list \<Rightarrow> (string, string list) gomap" where
  "bags_by_pubkey rels =
     fold (\<lambda>r m. AList.update (ProviderPubkey r)
        ((case map_of m (ProviderPubkey r) of Some bs \<Rightarrow> bs | None \<Rightarrow> []) @ [R_BagID r]) m) rels []"

text \<open>The outcome of one iteration: a panic, or skipped, failed or resolved.\<close>

datatype resolve_outcome = Skipped | FailedOne | Resolved ProviderEndpoint

definition resolve_one ::
  "'w Discovery \<Rightarrow> time \<Rightarrow> (string, ProviderEndpoint) gomap \<Rightarrow> (string, string list) gomap \<Rightarrow> nat \<Rightarrow>
     string \<times> string \<Rightarrow> resolve_outcome res" where
  "resolve_one d now existing bags k = (\<lambda>(pubkey, contractAddr).
     (if (case map_of existing pubkey of Some ep \<Rightarrow> time_Sub now (UpdatedAt ep) < EndpointTTL (d_cfg d) | None \<Rightarrow> False)
      then Inr Skipped
      else (case hex_DecodeString pubkey of Inl e \<Rightarrow> Inr FailedOne
            | Inr pk \<Rightarrow>
              if length pk \<noteq> 32 then Inr FailedOne
              else (case d_Resolve d k pk contractAddr of
                      Inl e \<Rightarrow> if is_panic e then Inl e else Inr FailedOne
                    | Inr ep \<Rightarrow>
                      if IP (PE_Provider ep) = '''' then Inr FailedOne
                      else (let found = (if IP (Storage ep) = '''' then
                                (case d_ResolveStorageWithOverlay d k (IP (PE_Provider ep))
                                        (case map_of bags pubkey of Some bs \<Rightarrow> bs | None \<Rightarrow> []) of
                                   Inl e \<Rightarrow> if is_panic e then Inl e else Inr ep
                                 | Inr storageEP \<Rightarrow> Inr (ep\<lparr>Storage := storageEP\<rparr>))
                              else Inr ep) in
                            case found of Inl e \<Rightarrow> Inl e
                            | Inr ep \<Rightarrow> Inr (Resolved (ep\<lparr>PE_PublicKey := pubkey, UpdatedAt := now\<rparr>)))))))"

fun resolve_loop ::
  "'w Discovery \<Rightarrow> ctx \<Rightarrow> time \<Rightarrow> (string, ProviderEndpoint) gomap \<Rightarrow> (string, string list) gomap \<Rightarrow> nat \<Rightarrow>
     (string \<times> string) list \<Rightarrow> ResolveEndpointsResult \<Rightarrow> ResolveEndpointsResult res" where
  "resolve_loop d c now existing bags k [] r = Inr r"
| "resolve_loop d c now existing bags k (pc # pcs) r =
     (case ctx_Err c k of Some e \<Rightarrow> Inl e
      | None \<Rightarrow>
        (case resolve_one d now existing bags k pc of
           Inl e \<Rightarrow> Inl e
         | Inr Skipped \<Rightarrow> resolve_loop d c now existing bags (Suc k) pcs (r\<lparr>RE_Skipped := RE_Skipped r + 1\<rparr>)
         | Inr FailedOne \<Rightarrow> resolve_loop d c now existing bags (Suc k) pcs (r\<lparr>Failed := Failed r + 1\<rparr>)
         | Inr (Resolved ep) \<Rightarrow> resolve_loop d c now existing bags (Suc k) pcs (r\<lparr>Endpoints := Endpoints r @ [ep]\<rparr>)))"

definition empty_resolve :: ResolveEndpointsResult where
  "empty_resolve = \<lparr>Endpoints = [], RE_Skipped = 0, Failed = 0\<rparr>"

definition ResolveEndpoints :: "string iter_order \<Rightarrow> time \<Rightarrow> 'w Discovery \<Rightarrow> ctx \<Rightarrow> 'w \<Rightarrow> error option \<times> 'w" where
  "ResolveEndpoints ord now d c w =
     (case d_GetActiveRelations d w of Inl e \<Rightarrow> (Some e, w)
      | Inr relations \<Rightarrow>
        if relations = [] then
          d_PublishResult d (ResolveEndpointsStream (d_cfg d)) (JobIDFrom c) CycleResolveEndpoints
            (PResolveEndpoints empty_resolve) w
        else
          (case d_LoadAll d w of Inl e \<Rightarrow> (Some e, w)
           | Inr existing \<Rightarrow>
             (case resolve_loop d c now existing (bags_by_pubkey relations) 0
                      (map_range ord (contracts_by_pubkey relations)) empty_resolve of
                Inl e \<Rightarrow> (Some e, w)
              | Inr result \<Rightarrow>
                d_PublishResult d (ResolveEndpointsStream (d_cfg d)) (JobIDFrom c) CycleResolveEndpoints
                  (PResolveEndpoints result) w)))"

section \<open>Facts about scan_master\<close>

lemma known_keys_iff: "map_of (known_keys uni ks) k \<noteq> None \<longleftrightarrow> k \<in> ToLower uni ` set ks"
proof -
  have "set (map fst (known_keys uni ks)) = ToLower uni ` set ks"
    using gm.fold_put_keys [of "ToLower uni" "\<lambda>_. ()" ks "[]"] by (simp add: known_keys_def)
  then show ?thesis by (metis map_of_eq_None_iff list.set_map)
qed

lemma new_loop_filter:
  "new_loop uni (known_keys uni ks) ps = filter (\<lambda>p. ToLower uni (PublicKey p) \<notin> ToLower uni ` set ks) ps"
proof (induction ps)
  case (Cons p ps)
  then show ?case using known_keys_iff [of uni ks "ToLower uni (PublicKey p)"] by simp
qed simp

section \<open>Facts about scan_wallets\<close>

text \<open>The wallets that were scanned, with what the scan returned.\<close>

fun scans :: "'w Discovery \<Rightarrow> nat \<Rightarrow> Provider list \<Rightarrow> (Provider \<times> StorageContract list \<times> u64) list" where
  "scans d k [] = []"
| "scans d k (w # ws) =
     (if IsUserFriendly (Address w) then
        (case walletScanner d k (Address w) (LT w) of
           Inl e \<Rightarrow> scans d (Suc k) ws
         | Inr (cs, l) \<Rightarrow> (w, cs, l) # scans d (Suc k) ws)
      else scans d (Suc k) ws)"

definition advanced :: "(Provider \<times> StorageContract list \<times> u64) list \<Rightarrow> Provider list" where
  "advanced ss = map (\<lambda>(w, cs, l). w\<lparr>LT := l\<rparr>) (filter (\<lambda>(w, cs, l). LT w < l) ss)"

lemma wallets_loop_Inr:
  "wallets_loop d c k ws (m, u) = Inr (m', u') \<Longrightarrow>
     m' = fold merge_contract (concat (map (fst \<circ> snd) (scans d k ws))) m \<and> u' = u @ advanced (scans d k ws)"
proof (induction ws arbitrary: k m u)
  case (Cons w ws)
  from Cons.prems have live: "ctx_Err c k = None" by (simp split: option.splits)
  show ?case
  proof (cases "\<exists>cs l. IsUserFriendly (Address w) \<and> walletScanner d k (Address w) (LT w) = Inr (cs, l)")
    case False
    with Cons.prems live have "wallets_loop d c (Suc k) ws (m, u) = Inr (m', u')" "scans d k (w # ws) = scans d (Suc k) ws"
      by (auto split: if_splits sum.splits)
    with Cons.IH show ?thesis by metis
  next
    case True
    then obtain cs l where sc: "IsUserFriendly (Address w)" "walletScanner d k (Address w) (LT w) = Inr (cs, l)" by blast
    with Cons.prems live have "wallets_loop d c (Suc k) ws
        (fold merge_contract cs m, if LT w < l then u @ [w\<lparr>LT := l\<rparr>] else u) = Inr (m', u')" by simp
    from Cons.IH [OF this] sc show ?thesis by (simp add: advanced_def)
  qed
qed (simp add: advanced_def)

lemma scans_mem: "(w, cs, l) \<in> set (scans d k ws) \<Longrightarrow>
    w \<in> set ws \<and> IsUserFriendly (Address w) \<and> (\<exists>j. walletScanner d j (Address w) (LT w) = Inr (cs, l))"
  by (induction ws arbitrary: k) (auto split: if_splits sum.splits)

definition merge_into :: "StorageContract \<Rightarrow> StorageContract list \<Rightarrow> StorageContract" where
  "merge_into c cs = fold (\<lambda>x e. e\<lparr>Providers := Providers e @ Providers x,
      LastLT := (if LastLT x > LastLT e then LastLT x else LastLT e)\<rparr>) cs c"

lemma merge_into_simps [simp]:
  "SC_Address (merge_into c cs) = SC_Address c" "BagID (merge_into c cs) = BagID c" "Size (merge_into c cs) = Size c"
  "Providers (merge_into c cs) = Providers c @ concat (map Providers cs)"
  "LastLT (merge_into c cs) = fold max (map LastLT cs) (LastLT c)"
  by (induction cs arbitrary: c) (auto simp: merge_into_def max_def not_le)

lemma map_of_merge:
  "map_of (fold merge_contract cs m) a =
     (case map_of m a of
        Some e \<Rightarrow> Some (merge_into e (filter (\<lambda>c. SC_Address c = a) cs))
      | None \<Rightarrow> (case filter (\<lambda>c. SC_Address c = a) cs of [] \<Rightarrow> None | c # cs' \<Rightarrow> Some (merge_into c cs')))"
proof (induction cs arbitrary: m)
  case Nil
  then show ?case by (simp add: merge_into_def split: option.split)
next
  case (Cons c cs)
  then show ?case
    by (auto simp: merge_contract_def update_conv merge_into_def split: option.splits)
qed

lemma distinct_merge: "distinct (map fst m) \<Longrightarrow> distinct (map fst (fold merge_contract cs m))"
proof (induction cs arbitrary: m)
  case (Cons c cs)
  from Cons.prems have "distinct (map fst (merge_contract c m))"
    by (auto simp: merge_contract_def distinct_update split: option.splits)
  from Cons.IH [OF this] show ?case by simp
qed simp

lemma merge_entry:
  assumes "(a, e) \<in> set (fold merge_contract cs [])"
  shows "SC_Address e = a" "Providers e = concat (map Providers (filter (\<lambda>c. SC_Address c = a) cs))"
    "filter (\<lambda>c. SC_Address c = a) cs \<noteq> []"
proof -
  have "map_of (fold merge_contract cs []) a = Some e"
    using assms distinct_merge [of "[]"] by (simp add: map_of_eq_Some_iff)
  then obtain c cs' where f: "filter (\<lambda>c. SC_Address c = a) cs = c # cs'" and e: "e = merge_into c cs'"
    by (auto simp: map_of_merge split: list.splits)
  from f have "SC_Address c = a" by (metis (mono_tags) filter_eq_ConsD)
  with f e show "SC_Address e = a" "Providers e = concat (map Providers (filter (\<lambda>c. SC_Address c = a) cs))"
    "filter (\<lambda>c. SC_Address c = a) cs \<noteq> []" by simp_all
qed

lemma merge_complete: "c \<in> set cs \<Longrightarrow> \<exists>e. (SC_Address c, e) \<in> set (fold merge_contract cs [])"
proof -
  assume "c \<in> set cs"
  then have "filter (\<lambda>x. SC_Address x = SC_Address c) cs \<noteq> []" by (auto simp: filter_empty_conv)
  then obtain e where "map_of (fold merge_contract cs []) (SC_Address c) = Some e"
    by (cases "filter (\<lambda>x. SC_Address x = SC_Address c) cs") (auto simp: map_of_merge)
  then show ?thesis by (blast dest: map_of_SomeD)
qed

lemma addr_pubkeys_distinct:
  "distinct (map Address ws) \<Longrightarrow> w \<in> set ws \<Longrightarrow> map_of (addr_pubkeys ws) (Address w) = Some (PublicKey w)"
proof -
  assume d: "distinct (map Address ws)" and w: "w \<in> set ws"
  have "map_of (rev (map (\<lambda>x. (Address x, PublicKey x)) ws)) (Address w) = Some (PublicKey w)"
    using d w by (intro map_of_is_SomeI) (auto simp: rev_map comp_def simp flip: rev_map)
  then show ?thesis
    using gm.fold_put_get [of Address PublicKey ws "[]" "Address w"] by (simp add: addr_pubkeys_def)
qed

definition triple :: "ContractProviderRelation \<Rightarrow> string \<times> string \<times> string" where
  "triple r = (ContractAddr r, ProviderPubkey r, ProviderAddress r)"

lemma triples_of_contract:
  "triple ` set (contract_relations m c) =
     {(SC_Address c, pk, a) | pk a. a \<in> set (Providers c) \<and> map_of m a = Some pk}"
  by (force simp: contract_relations_def triple_def map_filter_def image_iff split: option.splits)

lemma contracts_of_merge:
  "set (map snd (map_range ord (fold merge_contract cs []))) = {e. \<exists>a. (a, e) \<in> set (fold merge_contract cs [])}"
  by (force simp: set_map_range distinct_merge)

lemma merged_providers:
  "(\<exists>e. (a, e) \<in> set (fold merge_contract cs []) \<and> addr \<in> set (Providers e)) \<longleftrightarrow>
     (\<exists>c \<in> set cs. SC_Address c = a \<and> addr \<in> set (Providers c))"
proof
  assume "\<exists>e. (a, e) \<in> set (fold merge_contract cs []) \<and> addr \<in> set (Providers e)"
  then show "\<exists>c \<in> set cs. SC_Address c = a \<and> addr \<in> set (Providers c)"
    by (auto simp: merge_entry(2))
next
  assume "\<exists>c \<in> set cs. SC_Address c = a \<and> addr \<in> set (Providers c)"
  then obtain c e where c: "c \<in> set cs" "SC_Address c = a" "addr \<in> set (Providers c)"
    and e: "(a, e) \<in> set (fold merge_contract cs [])"
    using merge_complete by blast
  from merge_entry(2) [OF e] c have "addr \<in> set (Providers e)" by auto
  with e show "\<exists>e. (a, e) \<in> set (fold merge_contract cs []) \<and> addr \<in> set (Providers e)" by blast
qed

lemma relations_exact:
  fixes ord d k wallets
  assumes dist: "distinct (map Address wallets)"
    and law: "\<And>w cs l c. (w, cs, l) \<in> set (scans d k wallets) \<Longrightarrow> c \<in> set cs \<Longrightarrow> Providers c = [Address w]"
  defines "contracts \<equiv> map snd (map_range ord (fold merge_contract (concat (map (fst \<circ> snd) (scans d k wallets))) []))"
  shows "triple ` set (concat (map (contract_relations (addr_pubkeys wallets)) contracts)) =
     {(SC_Address c, PublicKey w, Address w) | w cs l c. (w, cs, l) \<in> set (scans d k wallets) \<and> c \<in> set cs}"
    (is "?L = ?R")
proof -
  let ?all = "concat (map (fst \<circ> snd) (scans d k wallets))"
  have all: "c \<in> set ?all \<longleftrightarrow> (\<exists>w cs l. (w, cs, l) \<in> set (scans d k wallets) \<and> c \<in> set cs)" for c
    by force
  have pk: "map_of (addr_pubkeys wallets) (Address w) = Some (PublicKey w)" if "(w, cs, l) \<in> set (scans d k wallets)" for w cs l
    using that scans_mem addr_pubkeys_distinct [OF dist] by blast
  have L: "(a, pk, addr) \<in> ?L \<longleftrightarrow> (\<exists>e. (a, e) \<in> set (fold merge_contract ?all []) \<and> addr \<in> set (Providers e)) \<and>
      map_of (addr_pubkeys wallets) addr = Some pk" for a pk addr
  proof -
    have "(a, pk, addr) \<in> ?L \<longleftrightarrow>
        (\<exists>e \<in> set contracts. (a, pk, addr) \<in> triple ` set (contract_relations (addr_pubkeys wallets) e))"
      by auto
    also have "\<dots> \<longleftrightarrow> (\<exists>e a'. (a', e) \<in> set (fold merge_contract ?all []) \<and> SC_Address e = a \<and>
        addr \<in> set (Providers e) \<and> map_of (addr_pubkeys wallets) addr = Some pk)"
      unfolding contracts_def contracts_of_merge triples_of_contract by blast
    also have "\<dots> \<longleftrightarrow> (\<exists>e. (a, e) \<in> set (fold merge_contract ?all []) \<and> addr \<in> set (Providers e)) \<and>
        map_of (addr_pubkeys wallets) addr = Some pk"
      using merge_entry(1) by blast
    finally show ?thesis .
  qed
  have M: "(a, pk, addr) \<in> ?L \<longleftrightarrow>
      (\<exists>c w cs l. (w, cs, l) \<in> set (scans d k wallets) \<and> c \<in> set cs \<and> SC_Address c = a \<and> addr \<in> set (Providers c)) \<and>
      map_of (addr_pubkeys wallets) addr = Some pk" for a pk addr
    unfolding L merged_providers Bex_def all by blast
  have N: "(a, pk, addr) \<in> ?R \<longleftrightarrow>
      (\<exists>c w cs l. (w, cs, l) \<in> set (scans d k wallets) \<and> c \<in> set cs \<and> SC_Address c = a \<and>
         pk = PublicKey w \<and> addr = Address w)" for a pk addr
    by blast
  have "(a, pk, addr) \<in> ?L \<longleftrightarrow> (a, pk, addr) \<in> ?R" for a pk addr
    unfolding M N using law pk by (metis empty_iff list.set(1) list.set_intros(1) option.inject set_ConsD)
  then show ?thesis by (simp add: set_eq_iff del: set_concat)
qed

section \<open>Facts about resolve_endpoints\<close>

lemma contracts_by_pubkey_distinct: "distinct (map fst (contracts_by_pubkey rels))"
proof -
  have "contracts_by_pubkey rels = fold put_new (map (\<lambda>r. (ProviderPubkey r, ContractAddr r)) rels) []"
    by (simp add: contracts_by_pubkey_def fold_map comp_def)
  then show ?thesis by (simp add: distinct_fold_put_new)
qed

lemma contracts_by_pubkey_keys: "set (map fst (contracts_by_pubkey rels)) = ProviderPubkey ` set rels"
proof -
  have eq: "contracts_by_pubkey rels = fold put_new (map (\<lambda>r. (ProviderPubkey r, ContractAddr r)) rels) []"
    by (simp add: contracts_by_pubkey_def fold_map comp_def)
  have "k \<in> set (map fst (contracts_by_pubkey rels)) \<longleftrightarrow> k \<in> ProviderPubkey ` set rels" for k
  proof -
    have "k \<in> set (map fst (contracts_by_pubkey rels)) \<longleftrightarrow> map_of (contracts_by_pubkey rels) k \<noteq> None"
      by (simp add: map_of_eq_None_iff)
    also have "\<dots> \<longleftrightarrow> k \<in> ProviderPubkey ` set rels"
      by (simp add: eq map_of_fold_put_new map_of_eq_None_iff image_image)
    finally show ?thesis .
  qed
  then show ?thesis by blast
qed

definition handled :: "ResolveEndpointsResult \<Rightarrow> nat" where
  "handled r = length (Endpoints r) + RE_Skipped r + Failed r"

lemma resolve_loop_counts:
  "resolve_loop d c now ex bags k pcs r = Inr r' \<Longrightarrow> handled r' = handled r + length pcs"
  by (induction pcs arbitrary: k r)
    (auto simp: handled_def split: option.splits sum.splits resolve_outcome.splits)

lemma resolve_one_endpoint:
  "resolve_one d now ex bags k (pk, a) = Inr (Resolved ep) \<Longrightarrow>
     PE_PublicKey ep = pk \<and> UpdatedAt ep = now \<and> IP (PE_Provider ep) \<noteq> '''' \<and>
     (\<exists>raw. hex_DecodeString pk = Inr raw \<and> length raw = 32)"
  by (auto simp: resolve_one_def Let_def split: if_splits sum.splits option.splits)

lemma resolve_loop_endpoints:
  "resolve_loop d c now ex bags k pcs r = Inr r' \<Longrightarrow> ep \<in> set (Endpoints r') \<Longrightarrow> ep \<notin> set (Endpoints r) \<Longrightarrow>
     \<exists>pk a. (pk, a) \<in> set pcs \<and> PE_PublicKey ep = pk \<and> UpdatedAt ep = now \<and> IP (PE_Provider ep) \<noteq> '''' \<and>
       (\<exists>raw. hex_DecodeString pk = Inr raw \<and> length raw = 32)"
proof (induction pcs arbitrary: k r)
  case (Cons pc pcs)
  obtain pk a where pc: "pc = (pk, a)" by (cases pc)
  from Cons.prems(1) obtain oc where oc: "resolve_one d now ex bags k pc = Inr oc"
    by (auto split: option.splits sum.splits)
  show ?case
  proof (cases "oc = Resolved ep")
    case True
    with oc pc resolve_one_endpoint show ?thesis by fastforce
  next
    case False
    then obtain k' r1 where "resolve_loop d c now ex bags k' pcs r1 = Inr r'" "ep \<notin> set (Endpoints r1)"
      using Cons.prems oc by (cases oc) (auto split: option.splits)
    from Cons.IH [OF this(1) Cons.prems(2) this(2)] show ?thesis by auto
  qed
qed simp

lemma resolve_loop_from:
  "resolve_loop d c now ex bags k pcs r = Inr r' \<Longrightarrow> ep \<in> set (Endpoints r') \<Longrightarrow> ep \<notin> set (Endpoints r) \<Longrightarrow>
     \<exists>j pc. pc \<in> set pcs \<and> resolve_one d now ex bags j pc = Inr (Resolved ep)"
proof (induction pcs arbitrary: k r)
  case (Cons pc pcs)
  from Cons.prems(1) obtain oc where oc: "resolve_one d now ex bags k pc = Inr oc"
    by (auto split: option.splits sum.splits)
  show ?case
  proof (cases "oc = Resolved ep")
    case True
    with oc show ?thesis by (intro exI [of _ k] exI [of _ pc]) simp
  next
    case False
    then obtain k' r1 where "resolve_loop d c now ex bags k' pcs r1 = Inr r'" "ep \<notin> set (Endpoints r1)"
      using Cons.prems oc by (cases oc) (auto split: option.splits)
    from Cons.IH [OF this(1) Cons.prems(2) this(2)] show ?thesis by auto
  qed
qed simp

lemma subseq_distinctI: "subseq xs ys \<Longrightarrow> distinct ys \<Longrightarrow> distinct xs"
  by (metis subseq_conv_nths distinct_nthsI)

lemma subseq_set_le: "subseq xs ys \<Longrightarrow> set xs \<subseteq> set ys"
  by (metis subseq_conv_nths set_nths_subset)

lemma resolve_loop_keys:
  "resolve_loop d c now ex bags k pcs r = Inr r' \<Longrightarrow>
     \<exists>zs. map PE_PublicKey (Endpoints r') = map PE_PublicKey (Endpoints r) @ zs \<and> subseq zs (map fst pcs)"
proof (induction pcs arbitrary: k r)
  case (Cons pc pcs)
  obtain pk a where pc: "pc = (pk, a)" by (cases pc)
  from Cons.prems obtain oc where oc: "resolve_one d now ex bags k pc = Inr oc"
    by (auto split: option.splits sum.splits)
  show ?case
  proof (cases oc)
    case (Resolved ep)
    then have "PE_PublicKey ep = pk" using oc pc resolve_one_endpoint by blast
    moreover from Cons.prems oc Resolved obtain k' where
      "resolve_loop d c now ex bags k' pcs (r\<lparr>Endpoints := Endpoints r @ [ep]\<rparr>) = Inr r'" by (auto split: option.splits)
    ultimately obtain zs where "map PE_PublicKey (Endpoints r') = map PE_PublicKey (Endpoints r) @ pk # zs" "subseq zs (map fst pcs)"
      using Cons.IH by fastforce
    then show ?thesis using pc by (intro exI [of _ "pk # zs"]) simp
  next
    case Skipped
    with Cons.prems oc have "resolve_loop d c now ex bags (Suc k) pcs (r\<lparr>RE_Skipped := RE_Skipped r + 1\<rparr>) = Inr r'"
      by (auto split: option.splits)
    from Cons.IH [OF this] show ?thesis by (auto intro: list_emb_Cons)
  next
    case FailedOne
    with Cons.prems oc have "resolve_loop d c now ex bags (Suc k) pcs (r\<lparr>Failed := Failed r + 1\<rparr>) = Inr r'"
      by (auto split: option.splits)
    from Cons.IH [OF this] show ?thesis by (auto intro: list_emb_Cons)
  qed
qed simp

section \<open>The contract of the resolver\<close>

text \<open>What \<open>resolve_endpoints\<close> relies on: the search through the overlays returns a node at the
  provider's own address, and a direct resolution leaves the fields the cycle fills in.\<close>

locale endpoint_resolver =
  fixes resolve :: "byte list \<Rightarrow> string \<Rightarrow> ProviderEndpoint res"
    and overlay :: "string \<Rightarrow> string list \<Rightarrow> Endpoint res"
  assumes overlay_same_ip: "overlay ip bags = Inr ep \<Longrightarrow> IP ep = ip"
    and resolve_bare: "resolve pk a = Inr pep \<Longrightarrow> PE_PublicKey pep = '''' \<and> UpdatedAt pep = zero_time"
begin

lemma resolved_storage:
  assumes "d_Resolve d k = resolve" "d_ResolveStorageWithOverlay d k = overlay"
    and "resolve_one d now ex bags k (pk, a) = Inr (Resolved ep)"
  shows "\<exists>raw ep0. hex_DecodeString pk = Inr raw \<and> resolve raw a = Inr ep0 \<and> PE_Provider ep = PE_Provider ep0 \<and>
     (Storage ep = Storage ep0 \<or> (IP (Storage ep0) = '''' \<and> IP (Storage ep) = IP (PE_Provider ep)))"
  using assms(3) unfolding resolve_one_def assms(1,2)
  by (auto simp: Let_def split: if_splits sum.splits dest: overlay_same_ip)

end

end
