(* ===== verification/Dht_Resolver.thy ===== *)
theory Dht_Resolver
  imports Agent_Domain Go_Std Discovery_Cycle
begin

text \<open>
  The resolver \<open>internal/adapters/outbound/dht\<close>: \<open>Resolve\<close> with
  \<open>findProviderEndpoint\<close> and \<open>findStorageEndpoint\<close>, and the search of a storage node through
  the overlays of the provider's bags.  The DHT client, the storage-provider transport, the TL
  hash and parser and the address parser are third-party packages: fields of \<open>DhtClient\<close>,
  indexed by the call where a loop calls them again.
\<close>

record NodeAddr =
  A_IP :: string
  A_Port :: i32

text \<open>An address list may be the nil pointer; \<open>A_IP\<close> is the text of \<open>IP.String()\<close>.  A node of
  an overlay has a key when its id is a \<open>keys.PublicKeyED25519\<close>.\<close>

record 'a DhtClient =
  HashKey :: "byte list \<Rightarrow> byte list res"
  FindValue :: "byte list \<Rightarrow> string \<Rightarrow> byte list res"
  ParseRecord :: "byte list \<Rightarrow> byte list res"
  FindAddresses :: "nat \<times> nat \<Rightarrow> byte list \<Rightarrow> (NodeAddr list option \<times> byte list) res"
  FindOverlayNodes :: "nat \<Rightarrow> byte list \<Rightarrow> byte list option list option res"
  DHT_ParseAddr :: "string \<Rightarrow> 'a res"
  VerifyStorageADNLProof :: "nat \<Rightarrow> byte list \<Rightarrow> 'a \<Rightarrow> byte list res"

definition verifyStorageRetries :: nat where "verifyStorageRetries = 3"

definition nil_deref :: error where
  "nil_deref = RuntimePanic ''invalid memory address or nil pointer dereference''"

section \<open>Resolve\<close>

definition findProviderEndpoint :: "'a DhtClient \<Rightarrow> byte list \<Rightarrow> Endpoint res" where
  "findProviderEndpoint d pubkey =
     (case HashKey d pubkey of Inl e \<Rightarrow> Inl (Wrapped ''hash provider key'' e)
      | Inr channelKeyId \<Rightarrow>
        (case FindValue d channelKeyId ''storage-provider'' of Inl e \<Rightarrow> Inl (Wrapped ''find value in dht'' e)
         | Inr data \<Rightarrow>
           (case ParseRecord d data of Inl e \<Rightarrow> Inl (Wrapped ''parse dht record'' e)
            | Inr adnlAddr \<Rightarrow>
              (case FindAddresses d (0, 0) adnlAddr of
                 Inl e \<Rightarrow> Inl (Wrapped ''find addresses'' e)
               | Inr (None, pub) \<Rightarrow> Inl nil_deref
               | Inr (Some [], pub) \<Rightarrow> Inl (Err ''find addresses: %!w(<nil>)'')
               | Inr (Some (a # as), pub) \<Rightarrow> Inr \<lparr>EP_PublicKey = pub, IP = A_IP a, Port = A_Port a\<rparr>))))"

text \<open>The closure that \<open>TryNTimes\<close> retries assigns the captured \<open>proof\<close>; its state is the
  number of calls made and that variable.\<close>

definition proof_attempt :: "'a DhtClient \<Rightarrow> byte list \<Rightarrow> 'a \<Rightarrow> nat \<times> byte list \<Rightarrow> error option \<times> nat \<times> byte list" where
  "proof_attempt d pubkey addr = (\<lambda>(n, pf).
     (case VerifyStorageADNLProof d n pubkey addr of
        Inl e \<Rightarrow> (Some e, Suc n, [])
      | Inr pf' \<Rightarrow> (None, Suc n, pf')))"

definition findStorageEndpoint :: "'a DhtClient \<Rightarrow> byte list \<Rightarrow> string \<Rightarrow> Endpoint res" where
  "findStorageEndpoint d pubkey contractAddr =
     (case DHT_ParseAddr d contractAddr of Inl e \<Rightarrow> Inl (Wrapped ''parse contract address'' e)
      | Inr addr \<Rightarrow>
        (case TryNTimes (proof_attempt d pubkey addr) verifyStorageRetries (0, []) of
           (Some e, _) \<Rightarrow> Inl (Wrapped ''verify storage adnl proof'' e)
         | (None, (_, pf)) \<Rightarrow>
           (case FindAddresses d (0, 1) pf of
              Inl e \<Rightarrow> Inl (Wrapped ''find storage addresses'' e)
            | Inr (None, pub) \<Rightarrow> Inl (Err ''no storage addresses found'')
            | Inr (Some [], pub) \<Rightarrow> Inl (Err ''no storage addresses found'')
            | Inr (Some (a # as), pub) \<Rightarrow> Inr \<lparr>EP_PublicKey = pub, IP = A_IP a, Port = A_Port a\<rparr>)))"

definition Resolve :: "'a DhtClient \<Rightarrow> byte list \<Rightarrow> string \<Rightarrow> ProviderEndpoint res" where
  "Resolve d pubkey contractAddr =
     (case findProviderEndpoint d pubkey of
        Inl e \<Rightarrow> Inl (wrap_err ''adapters.dht.Resolve'' e)
      | Inr providerEP \<Rightarrow>
        (let result = zero_ProviderEndpoint\<lparr>PE_Provider := providerEP\<rparr> in
         case findStorageEndpoint d pubkey contractAddr of
           Inl e \<Rightarrow> Inr result
         | Inr storageEP \<Rightarrow> Inr (result\<lparr>Storage := storageEP\<rparr>)))"

section \<open>ResolveStorageWithOverlay\<close>

definition bagsToCheck :: "nat \<Rightarrow> nat" where
  "bagsToCheck n =
     (if n > 100 then max 1 (n * 10 div 100) else if n > 5 then max 1 (n * 20 div 100) else n)"

fun node_loop :: "'a DhtClient \<Rightarrow> string \<Rightarrow> nat \<Rightarrow> nat \<Rightarrow> byte list option list \<Rightarrow> Endpoint option" where
  "node_loop d ip i j [] = None"
| "node_loop d ip i j (node # nodes) =
     (case node of None \<Rightarrow> node_loop d ip i (Suc j) nodes
      | Some key \<Rightarrow>
        (case HashKey d key of Inl e \<Rightarrow> node_loop d ip i (Suc j) nodes
         | Inr adnlID \<Rightarrow>
           (case FindAddresses d (i, j) adnlID of
              Inl e \<Rightarrow> node_loop d ip i (Suc j) nodes
            | Inr (None, pub) \<Rightarrow> node_loop d ip i (Suc j) nodes
            | Inr (Some as, pub) \<Rightarrow>
                (case List.find (\<lambda>a. A_IP a = ip) as of
                   Some a \<Rightarrow> Some \<lparr>EP_PublicKey = pub, IP = A_IP a, Port = A_Port a\<rparr>
                 | None \<Rightarrow> node_loop d ip i (Suc j) nodes))))"

fun overlay_loop :: "'a DhtClient \<Rightarrow> string \<Rightarrow> nat \<Rightarrow> string list \<Rightarrow> Endpoint option" where
  "overlay_loop d ip i [] = None"
| "overlay_loop d ip i (b # bs) =
     (case hex_DecodeString b of Inl e \<Rightarrow> overlay_loop d ip (Suc i) bs
      | Inr bag \<Rightarrow>
        (case FindOverlayNodes d i bag of
           Inl e \<Rightarrow> overlay_loop d ip (Suc i) bs
         | Inr None \<Rightarrow> overlay_loop d ip (Suc i) bs
         | Inr (Some nodes) \<Rightarrow>
             (case node_loop d ip i 0 nodes of Some ep \<Rightarrow> Some ep | None \<Rightarrow> overlay_loop d ip (Suc i) bs)))"

definition ResolveStorageWithOverlay :: "(nat \<Rightarrow> nat) \<Rightarrow> 'a DhtClient \<Rightarrow> string \<Rightarrow> string list \<Rightarrow> Endpoint res" where
  "ResolveStorageWithOverlay rnd d providerIP bags =
     (if length bags = 0 then Inl (Err ''no bags provided'')
      else (case overlay_loop d providerIP 0 (take (bagsToCheck (length bags)) (rand_Shuffle rnd bags)) of
              Some ep \<Rightarrow> Inr ep
            | None \<Rightarrow> Inl (Err (''storage not found via overlay after checking '' @
                format_nat (bagsToCheck (length bags)) @ '' bags''))))"

section \<open>Facts\<close>

lemma bagsToCheck_bounds:
  "0 < n \<Longrightarrow> 1 \<le> bagsToCheck n \<and> bagsToCheck n \<le> n"
  "5 < n \<Longrightarrow> 5 * bagsToCheck n \<le> n" "100 < n \<Longrightarrow> 10 * bagsToCheck n \<le> n"
  by (auto simp: bagsToCheck_def max_def)

lemma node_loop_sound:
  "node_loop d ip i j nodes = Some ep \<Longrightarrow>
     \<exists>j' key adnlID as a. Some key \<in> set nodes \<and> HashKey d key = Inr adnlID \<and>
       FindAddresses d (i, j') adnlID = Inr (Some as, EP_PublicKey ep) \<and> a \<in> set as \<and>
       A_IP a = ip \<and> IP ep = ip \<and> Port ep = A_Port a"
proof (induction nodes arbitrary: j)
  case (Cons node nodes)
  show ?case
  proof (cases "node_loop d ip i (Suc j) nodes = Some ep")
    case True
    from Cons.IH [OF this] show ?thesis using list.set_intros(2) by fast
  next
    case False
    with Cons.prems obtain key adnlID as a pub where *: "node = Some key" "HashKey d key = Inr adnlID"
      "FindAddresses d (i, j) adnlID = Inr (Some as, pub)" "List.find (\<lambda>a. A_IP a = ip) as = Some a"
      "ep = \<lparr>EP_PublicKey = pub, IP = A_IP a, Port = A_Port a\<rparr>"
      by (auto split: option.splits sum.splits prod.splits)
    from *(4) have "a \<in> set as" "A_IP a = ip" by (auto simp: find_Some_iff)
    with * show ?thesis
      by (intro exI [of _ j] exI [of _ key] exI [of _ adnlID] exI [of _ as] exI [of _ a]) simp
  qed
qed simp

lemma overlay_loop_sound:
  "overlay_loop d ip i bs = Some ep \<Longrightarrow>
     \<exists>i' b bag nodes. b \<in> set bs \<and> hex_DecodeString b = Inr bag \<and>
       FindOverlayNodes d i' bag = Inr (Some nodes) \<and> node_loop d ip i' 0 nodes = Some ep"
proof (induction bs arbitrary: i)
  case (Cons b bs)
  show ?case
  proof (cases "overlay_loop d ip (Suc i) bs = Some ep")
    case True
    from Cons.IH [OF this] show ?thesis by (meson list.set_intros(2))
  next
    case False
    with Cons.prems show ?thesis by (auto split: option.splits sum.splits)
  qed
qed simp

interpretation dht: endpoint_resolver "Resolve d" "ResolveStorageWithOverlay rnd d" for d rnd
proof unfold_locales
  fix ip bags ep
  assume "ResolveStorageWithOverlay rnd d ip bags = Inr ep"
  then have "overlay_loop d ip 0 (take (bagsToCheck (length bags)) (rand_Shuffle rnd bags)) = Some ep"
    by (auto simp: ResolveStorageWithOverlay_def split: if_splits option.splits)
  then show "IP ep = ip" using overlay_loop_sound node_loop_sound by metis
qed (auto simp: Resolve_def Let_def zero_ProviderEndpoint_def split: sum.splits)


lemma proof_attempt_count: "fst (before_attempt (proof_attempt d pk addr) i (n, b)) = n + i"
  by (induction i arbitrary: n b) (auto simp: proof_attempt_def split: sum.split)

lemma proof_attempt_result:
  "fst (proof_attempt d pk addr s) = None \<longleftrightarrow> (\<exists>pf. VerifyStorageADNLProof d (fst s) pk addr = Inr pf)"
  by (cases s) (auto simp: proof_attempt_def split: sum.split)

lemma proof_attempt_last:
  "fst (proof_attempt d pk addr s) = None \<Longrightarrow> VerifyStorageADNLProof d (fst s) pk addr = Inr (snd (snd (proof_attempt d pk addr s)))"
  by (cases s) (auto simp: proof_attempt_def split: sum.splits)

lemma before_attempt_Suc: "before_attempt f (Suc k) s = snd (f (before_attempt f k s))"
  by (induction k arbitrary: s) simp_all

lemma retry_proof:
  assumes "TryNTimes (proof_attempt d pk addr) n (0, []) = (None, s)" "0 < n"
  shows "\<exists>k < n. (\<forall>i < k. \<exists>e. VerifyStorageADNLProof d i pk addr = Inl e) \<and> VerifyStorageADNLProof d k pk addr = Inr (snd s)"
proof -
  let ?f = "proof_attempt d pk addr"
  from assms try_loop_succeeds [of ?f n None "(0, [])" s] obtain k where k: "k < n"
    "\<forall>i < k. fst (?f (before_attempt ?f i (0, []))) \<noteq> None" "fst (?f (before_attempt ?f k (0, []))) = None"
    "s = before_attempt ?f (Suc k) (0, [])"
    unfolding TryNTimes_def by blast
  have "\<exists>e. VerifyStorageADNLProof d i pk addr = Inl e" if "i < k" for i
    using k(2) that unfolding proof_attempt_result proof_attempt_count by (metis add_0 sum.exhaust)
  moreover have "VerifyStorageADNLProof d k pk addr = Inr (snd s)"
    using proof_attempt_last [OF k(3)] unfolding k(4) before_attempt_Suc proof_attempt_count by simp
  ultimately show ?thesis using k(1) by blast
qed

section \<open>Properties\<close>

text \<open>
  A storage endpoint that the resolver returns comes from the first of at most three
  proof requests that succeeded, and is the first address the DHT knows for that proof.
\<close>

lemma findStorageEndpoint_retries:
  assumes "findStorageEndpoint d pubkey contractAddr = Inr ep"
  shows "\<exists>addr k pf a as. DHT_ParseAddr d contractAddr = Inr addr \<and> k < 3 \<and>
     (\<forall>i < k. \<exists>e. VerifyStorageADNLProof d i pubkey addr = Inl e) \<and> VerifyStorageADNLProof d k pubkey addr = Inr pf \<and>
     FindAddresses d (0, 1) pf = Inr (Some (a # as), EP_PublicKey ep) \<and> IP ep = A_IP a \<and> Port ep = A_Port a"
proof -
  from assms obtain addr n pf a as pub where *: "DHT_ParseAddr d contractAddr = Inr addr"
    "TryNTimes (proof_attempt d pubkey addr) 3 (0, []) = (None, (n, pf))"
    "FindAddresses d (0, 1) pf = Inr (Some (a # as), pub)" "ep = \<lparr>EP_PublicKey = pub, IP = A_IP a, Port = A_Port a\<rparr>"
    by (auto simp: findStorageEndpoint_def verifyStorageRetries_def split: sum.splits prod.splits option.splits list.splits)
  from retry_proof [OF *(2)] obtain k where "k < 3" "\<forall>i < k. \<exists>e. VerifyStorageADNLProof d i pubkey addr = Inl e"
    "VerifyStorageADNLProof d k pubkey addr = Inr pf" by auto
  with * show ?thesis by (intro exI [of _ addr] exI [of _ k] exI [of _ pf] exI [of _ a] exI [of _ as]) simp
qed

definition sample_dht :: "unit DhtClient" where
  "sample_dht = \<lparr>HashKey = (\<lambda>k. Inr k), FindValue = (\<lambda>k n. Inr []), ParseRecord = (\<lambda>b. Inr b),
     FindAddresses = (\<lambda>ij k. Inr (Some [\<lparr>A_IP = ''9.9.9.9'', A_Port = 1\<rparr>, \<lparr>A_IP = ''10.0.0.1'', A_Port = 2\<rparr>], [5])),
     FindOverlayNodes = (\<lambda>i b. Inr (Some [None, Some [3]])), DHT_ParseAddr = (\<lambda>a. Inr ()),
     VerifyStorageADNLProof = (\<lambda>n k a. if n = 0 then Inl (Err ''timeout'') else Inr [8])\<rparr>"

text \<open>
  A node found through the overlays is at the provider's own address, announced in the overlay of
  one of the provider's bags with a key whose addresses hold it; at most a fifth of the bags are
  searched when there are more than five, at most a tenth when there are more than a hundred.
\<close>

lemma ResolveStorageWithOverlay_sound:
  assumes "ResolveStorageWithOverlay rnd d providerIP bags = Inr ep"
  shows "IP ep = providerIP \<and>
     (\<exists>i j b bag nodes key adnlID as a. b \<in> set (take (bagsToCheck (length bags)) (rand_Shuffle rnd bags)) \<and> b \<in> set bags \<and>
        hex_DecodeString b = Inr bag \<and> FindOverlayNodes d i bag = Inr (Some nodes) \<and> Some key \<in> set nodes \<and> HashKey d key = Inr adnlID \<and>
        FindAddresses d (i, j) adnlID = Inr (Some as, EP_PublicKey ep) \<and> a \<in> set as \<and> A_IP a = providerIP \<and> Port ep = A_Port a) \<and>
     1 \<le> bagsToCheck (length bags) \<and> bagsToCheck (length bags) \<le> length bags \<and>
     (5 < length bags \<longrightarrow> 5 * bagsToCheck (length bags) \<le> length bags) \<and>
     (100 < length bags \<longrightarrow> 10 * bagsToCheck (length bags) \<le> length bags)"
proof -
  from assms have ne: "0 < length bags"
    and "overlay_loop d providerIP 0 (take (bagsToCheck (length bags)) (rand_Shuffle rnd bags)) = Some ep"
    by (auto simp: ResolveStorageWithOverlay_def split: if_splits option.splits)
  from overlay_loop_sound [OF this(2)] obtain i b bag nodes
    where b: "b \<in> set (take (bagsToCheck (length bags)) (rand_Shuffle rnd bags))" "hex_DecodeString b = Inr bag"
      "FindOverlayNodes d i bag = Inr (Some nodes)" "node_loop d providerIP i 0 nodes = Some ep" by blast
  have "b \<in> set bags" using in_set_takeD [OF b(1)] by simp
  from node_loop_sound [OF b(4)] b(1-3) this bagsToCheck_bounds [of "length bags"] ne show ?thesis by blast
qed

end
