(* ===== verification/Poll_Cycle.thy ===== *)
theory Poll_Cycle
  imports Agent_Domain Go_Std Worker_Pool Ton_Scanners Redis_Publisher
begin

text \<open>
  The use case \<open>internal/usecase/poll\<close>: the cycles \<open>probe_rates\<close>
  (\<open>UpdateProviderRates\<close>) and \<open>inspect_contracts\<close> (\<open>UpdateRejectedContracts\<close>)
  with the rule \<open>isRemovedByLowBalance\<close>.  The clock is a parameter that is read anew at every
  \<open>time.Now()\<close>; the goroutines of the first cycle are a pool of \<open>Worker_Pool\<close>, and the
  order in which they finish is a parameter.
\<close>

record PollConfig =
  ProbeTimeout :: duration
  MaxConcurrentProbe :: int
  ProbeRatesStream :: string
  InspectContractsStream :: string

type_synonym RatesProbe = "byte list \<Rightarrow> Rates \<times> bool \<times> error option"
type_synonym ContractInspector = "string list \<Rightarrow> ContractOnChainState list res"

record 'w Poll =
  p_cfg :: PollConfig
  p_Probe :: "duration \<Rightarrow> nat \<Rightarrow> RatesProbe"
  p_InspectProviders :: ContractInspector
  p_GetAllPubkeys :: "'w \<Rightarrow> string list res"
  p_GetActiveRelations :: "'w \<Rightarrow> ContractProviderRelation list res"
  p_PublishResult :: "'w PublisherPort"

text \<open>The constructor \<open>poll.New\<close> replaces what is not positive by its default.\<close>

definition poll_defaults :: "PollConfig \<Rightarrow> PollConfig" where
  "poll_defaults cfg =
     (let cfg = (if ProbeTimeout cfg \<le> 0 then cfg\<lparr>ProbeTimeout := 14 * second\<rparr> else cfg) in
      if MaxConcurrentProbe cfg \<le> 0 then cfg\<lparr>MaxConcurrentProbe := 30\<rparr> else cfg)"

definition NewPoll :: "'w Poll \<Rightarrow> 'w Poll" where
  "NewPoll p = p\<lparr>p_cfg := poll_defaults (p_cfg p)\<rparr>"

section \<open>probe_rates\<close>

text \<open>The loop that starts the goroutines: it stops when the context is done and passes over a key
  that is not the hex of 32 bytes.  A task is the iteration, the key and the decoded key.\<close>

type_synonym probe_task = "nat \<times> string \<times> byte list"

fun launch_loop :: "ctx \<Rightarrow> nat \<Rightarrow> string list \<Rightarrow> probe_task list" where
  "launch_loop c k [] = []"
| "launch_loop c k (pubkey # pks) =
     (if ctx_Err c k \<noteq> None then []
      else (case hex_DecodeString pubkey of
              Inl e \<Rightarrow> launch_loop c (Suc k) pks
            | Inr raw \<Rightarrow>
                if length raw \<noteq> 32 then launch_loop c (Suc k) pks
                else (k, pubkey, raw) # launch_loop c (Suc k) pks))"

text \<open>What a goroutine appends to \<open>statuses\<close> and \<open>rateUpdates\<close> in one critical section.\<close>

definition probe_one ::
  "'w Poll \<Rightarrow> (nat \<Rightarrow> time) \<Rightarrow> probe_task \<Rightarrow> (ProviderStatus \<times> ProviderRateUpdate option) list" where
  "probe_one p clk = (\<lambda>(k, pubkey, raw).
     (case p_Probe p (ProbeTimeout (p_cfg p)) k raw of (rates, online, pErr) \<Rightarrow>
        (let isOnline = (online \<and> pErr = None) in
         [(\<lparr>PS_PublicKey = pubkey, IsOnline = isOnline, PS_CheckedAt = clk k\<rparr>,
           if isOnline then Some \<lparr>RU_PublicKey = pubkey, RU_Rates = rates\<rparr> else None)])))"

definition UpdateProviderRates ::
  "probe_task iter_order \<Rightarrow> (nat \<Rightarrow> time) \<Rightarrow> 'w Poll \<Rightarrow> ctx \<Rightarrow> 'w \<Rightarrow> error option \<times> 'w" where
  "UpdateProviderRates ord clk p c w =
     (case p_GetAllPubkeys p w of Inl e \<Rightarrow> (Some e, w)
      | Inr pubkeys \<Rightarrow>
        if length pubkeys = 0 then
          p_PublishResult p (ProbeRatesStream (p_cfg p)) (JobIDFrom c) CycleProbeRates
            (PProbeRates \<lparr>Statuses = [], PRR_Rates = []\<rparr>) w
        else
          (let acc = pool_results ord (probe_one p clk) (launch_loop c 0 pubkeys) in
           case ctx_Err c (length pubkeys) of Some e \<Rightarrow> (Some e, w)
           | None \<Rightarrow>
             (let result = \<lparr>Statuses = map fst acc, PRR_Rates = List.map_filter snd acc\<rparr> in
              case p_PublishResult p (ProbeRatesStream (p_cfg p)) (JobIDFrom c) CycleProbeRates (PProbeRates result) w of
                (Some e, w') \<Rightarrow> (Some (wrap_err ''usecase.poll.UpdateProviderRates'' e), w')
              | (None, w') \<Rightarrow> (None, w'))))"

section \<open>inspect_contracts\<close>

text \<open>\<open>int64\<close> arithmetic on integers, and \<open>tlb.MustFromTON("0.05").Nano()\<close>.\<close>

definition int64 :: "int \<Rightarrow> int" where
  "int64 x = sint (word_of_int x :: i64)"

definition storageFee :: int where "storageFee = 50000000"

definition bounty_of :: "u64 \<Rightarrow> OnChainProvider \<Rightarrow> int" where
  "bounty_of bagSize prov =
     (uint (OC_RatePerMBDay prov) * uint bagSize * uint (OC_MaxSpan prov)) div (24 * 60 * 60 * 1024 * 1024) + storageFee"

definition isRemovedByLowBalance :: "time \<Rightarrow> u64 \<Rightarrow> OnChainProvider \<Rightarrow> ContractOnChainState \<Rightarrow> bool" where
  "isRemovedByLowBalance now bagSize prov contract =
     (if uint (Balance contract) \<ge> bounty_of bagSize prov then False
      else if time_Unix (LastProofTime prov) \<le> 0 then False
      else (let deadline = int64 (int64 (time_Unix (LastProofTime prov) + uint (OC_MaxSpan prov)) + 3600) in
            time_Unix now > deadline))"

record contractInfo =
  ci_providers :: "(string, unit) gomap"
  skip :: bool

text \<open>\<open>set\<close> of one state; \<open>clk i j\<close> is the clock at provider \<open>j\<close> of state \<open>i\<close>.\<close>

definition provider_set ::
  "(nat \<Rightarrow> time) \<Rightarrow> (string, u64) gomap \<Rightarrow> ContractOnChainState \<Rightarrow> (string, unit) gomap" where
  "provider_set clk sizes s =
     fold (\<lambda>(j, prov) m.
        if isRemovedByLowBalance (clk j) (case map_of sizes (OC_Address s) of Some z \<Rightarrow> z | None \<Rightarrow> 0) prov s
        then m else AList.update (hex_EncodeToString (Key prov)) () m)
       (List.enumerate 0 (OC_Providers s)) []"

definition states_map ::
  "(nat \<Rightarrow> nat \<Rightarrow> time) \<Rightarrow> (string, u64) gomap \<Rightarrow> ContractOnChainState list \<Rightarrow> (string, contractInfo) gomap" where
  "states_map clk sizes states =
     fold (\<lambda>(i, s). AList.update (OC_Address s)
        \<lparr>ci_providers = provider_set (clk i) sizes s, skip = LiteServerError s\<rparr>)
       (List.enumerate 0 states) []"

definition skipped_addrs :: "ContractOnChainState list \<Rightarrow> string list" where
  "skipped_addrs states = map OC_Address (filter LiteServerError states)"

fun reject_loop ::
  "(string, contractInfo) gomap \<Rightarrow> ContractProviderRelation list \<Rightarrow> ContractProviderRelation list \<times> nat \<Rightarrow>
     ContractProviderRelation list \<times> nat" where
  "reject_loop m [] st = st"
| "reject_loop m (rel # rels) (rejected, active) =
     (case map_of m (ContractAddr rel) of
        None \<Rightarrow> reject_loop m rels (rejected @ [rel], active)
      | Some info \<Rightarrow>
        if skip info then reject_loop m rels (rejected, active)
        else (case map_of (ci_providers info) (ProviderPubkey rel) of
                Some _ \<Rightarrow> reject_loop m rels (rejected, active + 1)
              | None \<Rightarrow> reject_loop m rels (rejected @ [rel], active)))"

definition bag_sizes :: "ContractProviderRelation list \<Rightarrow> (string, u64) gomap" where
  "bag_sizes rels = fold (\<lambda>r. AList.update (ContractAddr r) (R_Size r)) rels []"

definition unique_addrs :: "ContractProviderRelation list \<Rightarrow> (string, unit) gomap" where
  "unique_addrs rels = fold (\<lambda>r. AList.update (ContractAddr r) ()) rels []"

definition UpdateRejectedContracts ::
  "string iter_order \<Rightarrow> (nat \<Rightarrow> nat \<Rightarrow> time) \<Rightarrow> 'w Poll \<Rightarrow> ctx \<Rightarrow> 'w \<Rightarrow> error option \<times> 'w" where
  "UpdateRejectedContracts ord clk p c w =
     (case p_GetActiveRelations p w of Inl e \<Rightarrow> (Some e, w)
      | Inr relations \<Rightarrow>
        if length relations = 0 then
          p_PublishResult p (InspectContractsStream (p_cfg p)) (JobIDFrom c) CycleInspectContracts
            (PInspectContracts \<lparr>Rejected = [], IC_Skipped = []\<rparr>) w
        else
          (let addrs = map fst (map_range ord (unique_addrs relations)) in
           case p_InspectProviders p addrs of Inl e \<Rightarrow> (Some e, w)
           | Inr states \<Rightarrow>
             (let stateByAddr = states_map clk (bag_sizes relations) states;
                  result = \<lparr>Rejected = fst (reject_loop stateByAddr relations ([], 0)),
                            IC_Skipped = skipped_addrs states\<rparr> in
              case p_PublishResult p (InspectContractsStream (p_cfg p)) (JobIDFrom c) CycleInspectContracts
                     (PInspectContracts result) w of
                (Some e, w') \<Rightarrow> (Some (wrap_err ''usecase.poll.UpdateRejectedContracts'' e), w')
              | (None, w') \<Rightarrow> (None, w'))))"


section \<open>Facts about probe_rates\<close>

definition valid_key :: "string \<Rightarrow> bool" where
  "valid_key s = (case hex_DecodeString s of Inl e \<Rightarrow> False | Inr raw \<Rightarrow> length raw = 32)"

lemma launch_loop_keys:
  "ctx_Err c (k + length pks) = None \<Longrightarrow> map (\<lambda>t. fst (snd t)) (launch_loop c k pks) = filter valid_key pks"
proof (induction pks arbitrary: k)
  case (Cons pk pks)
  have "ctx_Err c k = None" using ctx_Err_before [OF Cons.prems, of k] by simp
  moreover have "map (\<lambda>t. fst (snd t)) (launch_loop c (Suc k) pks) = filter valid_key pks"
    using Cons.IH [of "Suc k"] Cons.prems by simp
  moreover have "valid_key pk = (case hex_DecodeString pk of Inl e \<Rightarrow> False | Inr raw \<Rightarrow> length raw = 32)"
    by (simp add: valid_key_def)
  ultimately show ?case by (cases "hex_DecodeString pk") simp_all
qed simp

lemma launch_loop_mem:
  "(k', pk, raw) \<in> set (launch_loop c k pks) \<Longrightarrow> pk \<in> set pks \<and> hex_DecodeString pk = Inr raw \<and> length raw = 32"
  by (induction pks arbitrary: k) (auto split: if_splits sum.splits)

lemma launch_loop_le: "length (launch_loop c k pks) \<le> length pks"
  by (induction pks arbitrary: k) (auto split: sum.splits intro: le_SucI)

definition probe_status :: "'w Poll \<Rightarrow> (nat \<Rightarrow> time) \<Rightarrow> probe_task \<Rightarrow> ProviderStatus" where
  "probe_status p clk t = fst (hd (probe_one p clk t))"

lemma probe_one_single: "probe_one p clk t = [(probe_status p clk t, snd (hd (probe_one p clk t)))]"
  by (auto simp: probe_one_def probe_status_def Let_def split: prod.splits)

lemma probe_status_key [simp]: "PS_PublicKey (probe_status p clk t) = fst (snd t)"
  by (auto simp: probe_one_def probe_status_def Let_def split: prod.splits)

lemma probe_one_rate:
  "(s, r) \<in> set (probe_one p clk t) \<Longrightarrow>
     map_option RU_PublicKey r = (if IsOnline s then Some (PS_PublicKey s) else None)"
  by (auto simp: probe_one_def Let_def split: prod.splits)

lemma probe_results_statuses:
  "mset (map fst (pool_results ord (probe_one p clk) ts)) = mset (map (probe_status p clk) ts)"
proof -
  have "map fst (concat (map (probe_one p clk) ts)) = map (probe_status p clk) ts" for ts
  proof (induction ts)
    case (Cons t ts)
    then show ?case by (subst list.map, subst probe_one_single) simp
  qed simp
  moreover have "mset (map fst (pool_results ord (probe_one p clk) ts)) = mset (map fst (concat (map (probe_one p clk) ts)))"
    unfolding mset_map mset_pool_results ..
  ultimately show ?thesis by simp
qed

lemma probe_results_rates:
  "map RU_PublicKey (List.map_filter snd (pool_results ord (probe_one p clk) ts)) =
     map PS_PublicKey (filter IsOnline (map fst (pool_results ord (probe_one p clk) ts)))"
proof -
  have "map RU_PublicKey (List.map_filter snd acc) = map PS_PublicKey (filter IsOnline (map fst acc))"
    if "\<And>s r. (s, r) \<in> set acc \<Longrightarrow> map_option RU_PublicKey r = (if IsOnline s then Some (PS_PublicKey s) else None)"
    for acc :: "(ProviderStatus \<times> ProviderRateUpdate option) list"
    using that
  proof (induction acc)
    case (Cons x acc)
    obtain s r where x: "x = (s, r)" by (cases x)
    with Cons.prems [of s r] Cons show ?case
      by (cases r) (auto simp: map_filter_simps split: if_splits)
  qed (simp add: map_filter_simps)
  moreover have "map_option RU_PublicKey r = (if IsOnline s then Some (PS_PublicKey s) else None)"
    if "(s, r) \<in> set (pool_results ord (probe_one p clk) ts)" for s r
    using that unfolding set_pool_results by (blast intro: probe_one_rate)
  ultimately show ?thesis by blast
qed

text \<open>The pool of the cycle is the bounded pool with the capacity the constructor leaves.\<close>

lemma poll_capacity: "0 < nat (MaxConcurrentProbe (p_cfg (NewPoll p)))"
  by (simp add: NewPoll_def poll_defaults_def Let_def)

interpretation probe_pool: worker_pool True "nat (MaxConcurrentProbe (p_cfg (NewPoll p)))" for p
  by unfold_locales (rule poll_capacity)

section \<open>Facts about inspect_contracts\<close>

lemma int64_id: "- (2 ^ 63) \<le> x \<Longrightarrow> x < 2 ^ 63 \<Longrightarrow> int64 x = x"
  by (simp add: int64_def sint_sbintrunc' signed_take_bit_int_eq_self)

definition rejected_by :: "(string, contractInfo) gomap \<Rightarrow> ContractProviderRelation \<Rightarrow> bool" where
  "rejected_by m rel =
     (case map_of m (ContractAddr rel) of None \<Rightarrow> True
      | Some info \<Rightarrow> \<not> skip info \<and> map_of (ci_providers info) (ProviderPubkey rel) = None)"

lemma reject_loop_filter: "fst (reject_loop m rels (rej, act)) = rej @ filter (rejected_by m) rels"
  by (induction rels arbitrary: rej act) (auto simp: rejected_by_def split: option.splits)

lemma provider_set_iff:
  "map_of (provider_set clk sizes s) k \<noteq> None \<longleftrightarrow>
     (\<exists>j < length (OC_Providers s). hex_EncodeToString (Key (OC_Providers s ! j)) = k \<and>
        \<not> isRemovedByLowBalance (clk j) (case map_of sizes (OC_Address s) of Some z \<Rightarrow> z | None \<Rightarrow> 0) (OC_Providers s ! j) s)"
proof -
  let ?z = "case map_of sizes (OC_Address s) of Some z \<Rightarrow> z | None \<Rightarrow> 0"
  let ?step = "\<lambda>(j, prov) m. if isRemovedByLowBalance (clk j) ?z prov s then m
      else AList.update (hex_EncodeToString (Key prov)) () m"
  have "map_of (fold ?step (List.enumerate i ps) m) k \<noteq> None \<longleftrightarrow>
      map_of m k \<noteq> None \<or> (\<exists>j < length ps. hex_EncodeToString (Key (ps ! j)) = k \<and>
        \<not> isRemovedByLowBalance (clk (i + j)) ?z (ps ! j) s)" for i ps m
  proof (induction ps arbitrary: i m)
    case (Cons q ps)
    have "(\<exists>j < length (q # ps). hex_EncodeToString (Key ((q # ps) ! j)) = k \<and>
        \<not> isRemovedByLowBalance (clk (i + j)) ?z ((q # ps) ! j) s) \<longleftrightarrow>
        (hex_EncodeToString (Key q) = k \<and> \<not> isRemovedByLowBalance (clk i) ?z q s) \<or>
        (\<exists>j < length ps. hex_EncodeToString (Key (ps ! j)) = k \<and>
          \<not> isRemovedByLowBalance (clk (Suc i + j)) ?z (ps ! j) s)"
      by (simp add: Ex_less_Suc2)
    then show ?case by (simp only: enumerate_simps fold_Cons comp_def Cons.IH) (auto simp: update_conv)
  qed simp
  from this [of 0 "OC_Providers s" "[]"] show ?thesis by (simp add: provider_set_def)
qed

lemma states_map_lookup:
  assumes "distinct (map OC_Address states)" "i < length states"
  shows "map_of (states_map clk sizes states) (OC_Address (states ! i)) =
     Some \<lparr>ci_providers = provider_set (clk i) sizes (states ! i), skip = LiteServerError (states ! i)\<rparr>"
proof -
  let ?e = "List.enumerate 0 states"
  let ?kv = "map (\<lambda>x. (OC_Address (snd x), \<lparr>ci_providers = provider_set (clk (fst x)) sizes (snd x),
      skip = LiteServerError (snd x)\<rparr>)) ?e"
  have "map fst ?kv = map OC_Address states"
  proof -
    have "map fst ?kv = map OC_Address (map snd ?e)" by (simp add: comp_def del: map_snd_enumerate)
    then show ?thesis by (simp only: map_snd_enumerate)
  qed
  then have "distinct (map fst (rev ?kv))" using assms(1) by (simp flip: rev_map)
  moreover have "(i, states ! i) \<in> set ?e" using assms(2) by (simp add: in_set_enumerate_eq)
  then have "(OC_Address (states ! i), \<lparr>ci_providers = provider_set (clk i) sizes (states ! i),
      skip = LiteServerError (states ! i)\<rparr>) \<in> set (rev ?kv)" by force
  ultimately have "map_of (rev ?kv) (OC_Address (states ! i)) =
      Some \<lparr>ci_providers = provider_set (clk i) sizes (states ! i), skip = LiteServerError (states ! i)\<rparr>"
    by (rule map_of_is_SomeI)
  moreover have "states_map clk sizes states = fold (\<lambda>x. AList.update (OC_Address (snd x))
      \<lparr>ci_providers = provider_set (clk (fst x)) sizes (snd x), skip = LiteServerError (snd x)\<rparr>) ?e []"
    by (simp add: states_map_def case_prod_beta')
  ultimately show ?thesis 
    using gm.fold_put_get [of "\<lambda>x. OC_Address (snd x)"
        "\<lambda>x. \<lparr>ci_providers = provider_set (clk (fst x)) sizes (snd x), skip = LiteServerError (snd x)\<rparr>" ?e "[]"]
    by simp
qed

lemma states_map_keys: "map_of (states_map clk sizes states) a = None \<longleftrightarrow> a \<notin> OC_Address ` set states"
proof -
  have "set (map fst (states_map clk sizes states)) = (\<lambda>x. OC_Address (snd x)) ` set (List.enumerate 0 states)"
    using gm.fold_put_keys [of "\<lambda>x. OC_Address (snd x)"
        "\<lambda>x. \<lparr>ci_providers = provider_set (clk (fst x)) sizes (snd x), skip = LiteServerError (snd x)\<rparr>"
        "List.enumerate 0 states" "[]"]
    by (simp add: states_map_def case_prod_beta')
  also have "\<dots> = OC_Address ` set states"
    by (metis image_image list.set_map map_snd_enumerate)
  finally show ?thesis by (simp add: map_of_eq_None_iff)
qed


text \<open>What the states say of a relation: it is kept while some provider of the contract's state
  carries its key and is not removed for low balance.\<close>

definition still_provides ::
  "(nat \<Rightarrow> nat \<Rightarrow> time) \<Rightarrow> (string, u64) gomap \<Rightarrow> ContractOnChainState list \<Rightarrow> nat \<Rightarrow> string \<Rightarrow> bool" where
  "still_provides clk sizes states i pubkey =
     list_ex (\<lambda>j. hex_EncodeToString (Key (OC_Providers (states ! i) ! j)) = pubkey \<and>
        \<not> isRemovedByLowBalance (clk i j) (case map_of sizes (OC_Address (states ! i)) of Some z \<Rightarrow> z | None \<Rightarrow> 0)
            (OC_Providers (states ! i) ! j) (states ! i))
       [0..<length (OC_Providers (states ! i))]"

lemma rejected_by_state:
  assumes "distinct (map OC_Address states)" "i < length states" "OC_Address (states ! i) = ContractAddr rel"
  shows "rejected_by (states_map clk sizes states) rel \<longleftrightarrow>
     \<not> LiteServerError (states ! i) \<and> \<not> still_provides clk sizes states i (ProviderPubkey rel)"
proof -
  have "still_provides clk sizes states i (ProviderPubkey rel) \<longleftrightarrow>
      map_of (provider_set (clk i) sizes (states ! i)) (ProviderPubkey rel) \<noteq> None"
    unfolding provider_set_iff by (auto simp: still_provides_def list_ex_iff)
  then show ?thesis
    using states_map_lookup [OF assms(1,2), of clk sizes] assms(3) by (simp add: rejected_by_def del: not_None_eq)
qed

lemma rejected_by_no_state:
  "ContractAddr rel \<notin> OC_Address ` set states \<Longrightarrow> rejected_by (states_map clk sizes states) rel"
  by (simp add: rejected_by_def flip: states_map_keys [of clk sizes])

lemma unique_addrs_keys:
  "distinct (map fst (unique_addrs rels))" "set (map fst (unique_addrs rels)) = ContractAddr ` set rels"
  using gm.fold_put_wf [of "[]" ContractAddr "\<lambda>_. ()" rels] gm.fold_put_keys [of ContractAddr "\<lambda>_. ()" rels "[]"]
  by (simp_all add: unique_addrs_def)

context contract_inspector
begin

text \<open>The list that a cycle publishes, given what the inspector answers to the cycle's addresses.\<close>

lemma inspected_states:
  assumes "inspect (map fst (map_range ord (unique_addrs rels))) = Inr states"
  shows "distinct (map OC_Address states)" "OC_Address ` set states \<subseteq> ContractAddr ` set rels"
proof -
  have "distinct (map fst (map_range ord (unique_addrs rels)))"
    by (rule distinct_map_range) (rule unique_addrs_keys)
  with assms show "distinct (map OC_Address states)" by (rule states_distinct)
  have "set (map fst (map_range ord (unique_addrs rels))) = ContractAddr ` set rels"
    using unique_addrs_keys by (simp add: set_map_range)
  with states_asked [OF assms] show "OC_Address ` set states \<subseteq> ContractAddr ` set rels" by blast
qed

lemma rejected_iff:
  assumes "inspect (map fst (map_range ord (unique_addrs rels))) = Inr states"
  shows "rel \<in> set (fst (reject_loop (states_map clk sizes states) rels ([], 0))) \<longleftrightarrow>
     rel \<in> set rels \<and>
     (\<forall>i < length states. OC_Address (states ! i) = ContractAddr rel \<longrightarrow>
        \<not> LiteServerError (states ! i) \<and> \<not> still_provides clk sizes states i (ProviderPubkey rel))"
proof (cases "\<exists>i < length states. OC_Address (states ! i) = ContractAddr rel")
  case True
  then obtain i where i: "i < length states" "OC_Address (states ! i) = ContractAddr rel" by blast
  note d = inspected_states(1) [OF assms]
  have "j = i" if "j < length states" "OC_Address (states ! j) = ContractAddr rel" for j
    using that i nth_eq_iff_index_eq [OF d, of i j] by simp
  then have "(\<forall>j < length states. OC_Address (states ! j) = ContractAddr rel \<longrightarrow>
        \<not> LiteServerError (states ! j) \<and> \<not> still_provides clk sizes states j (ProviderPubkey rel)) \<longleftrightarrow>
      \<not> LiteServerError (states ! i) \<and> \<not> still_provides clk sizes states i (ProviderPubkey rel)"
    using i by blast
  then show ?thesis
    by (simp only: reject_loop_filter append_Nil set_filter mem_Collect_eq rejected_by_state [OF d i])
next
  case False
  then have "ContractAddr rel \<notin> OC_Address ` set states" by (auto simp: in_set_conv_nth)
  with False show ?thesis by (auto simp: reject_loop_filter rejected_by_no_state)
qed

end


section \<open>Properties\<close>

text \<open>
  C32.  The goroutines of \<open>probe_rates\<close>, in every interleaving: no more of them hold a
  slot of the semaphore than the capacity that the constructor leaves, the cycle can always go on
  until \<open>wg.Wait()\<close> returns, and with the slices of any state in which it has returned, what the
  cycle publishes is what the executable handler publishes for some finishing order.
\<close>

theorem probe_pool_refines:
  assumes "p_GetAllPubkeys p w = Inr pubkeys" "pubkeys \<noteq> []" "ctx_Err c (length pubkeys) = None"
    and "pool_reach True (nat (MaxConcurrentProbe (p_cfg (NewPoll p)))) (probe_one (NewPoll p) clk) (launch_loop c 0 pubkeys) s"
  shows "length (running s) \<le> nat (MaxConcurrentProbe (p_cfg (NewPoll p))) \<and>
     (\<exists>t. (pool_step True (nat (MaxConcurrentProbe (p_cfg (NewPoll p)))) (probe_one (NewPoll p) clk))\<^sup>*\<^sup>* s t \<and> pool_done t) \<and>
     (pool_done s \<longrightarrow> (\<exists>ord. UpdateProviderRates ord clk (NewPoll p) c w =
        map_prod (map_option (wrap_err ''usecase.poll.UpdateProviderRates'')) id
          (p_PublishResult p (ProbeRatesStream (p_cfg (NewPoll p))) (JobIDFrom c) CycleProbeRates
            (PProbeRates \<lparr>Statuses = map fst (acc s), PRR_Rates = List.map_filter snd (acc s)\<rparr>) w)))"
proof (rule probe_pool.refines [OF assms(4)])
  have "p_GetAllPubkeys (NewPoll p) w = Inr pubkeys" "p_PublishResult (NewPoll p) = p_PublishResult p"
    using assms(1) by (simp_all add: NewPoll_def)
  with assms(2,3) show "UpdateProviderRates ord clk (NewPoll p) c w =
        map_prod (map_option (wrap_err ''usecase.poll.UpdateProviderRates'')) id
          (p_PublishResult p (ProbeRatesStream (p_cfg (NewPoll p))) (JobIDFrom c) CycleProbeRates
            (PProbeRates \<lparr>Statuses = map fst (pool_results ord (probe_one (NewPoll p) clk) (launch_loop c 0 pubkeys)),
               PRR_Rates = List.map_filter snd (pool_results ord (probe_one (NewPoll p) clk) (launch_loop c 0 pubkeys))\<rparr>) w)" for ord
    by (simp add: UpdateProviderRates_def Let_def split: prod.split option.split)
qed

definition sample_key :: string where
  "sample_key = concat (replicate 32 ''a1'')"

definition sample_poll :: "unit Poll" where
  "sample_poll = NewPoll \<lparr>p_cfg = \<lparr>ProbeTimeout = 0, MaxConcurrentProbe = 0, ProbeRatesStream = ''mtpa:result:probe_rates'',
       InspectContractsStream = ''mtpa:result:inspect_contracts''\<rparr>,
     p_Probe = (\<lambda>t k raw. (\<lparr>RatePerMBDay = 5, MinBounty = 0, MinSpan = 1, MaxSpan = 2\<rparr>, True, None)),
     p_InspectProviders = (\<lambda>as. Inr []),
     p_GetAllPubkeys = (\<lambda>w. Inr [sample_key, ''xyz'']),
     p_GetActiveRelations = (\<lambda>w. Inr []),
     p_PublishResult = (\<lambda>s j c pl w. (None, w))\<rparr>"

definition sample_poll_ctx :: ctx where
  "sample_poll_ctx = \<lparr>ctx_jobID = None, done_from = None, done_err = Canceled\<rparr>"

theorem probe_pool_refines_witness:
  "\<exists>t ord. (pool_step True 30 (probe_one sample_poll (\<lambda>_. 0)))\<^sup>*\<^sup>* (pool_init (launch_loop sample_poll_ctx 0 [sample_key, ''xyz''])) t \<and>
     pool_done t \<and> UpdateProviderRates ord (\<lambda>_. 0) sample_poll sample_poll_ctx () = (None, ())"
proof -
  have cap: "nat (MaxConcurrentProbe (p_cfg sample_poll)) = 30" "NewPoll sample_poll = sample_poll"
    by (simp_all add: sample_poll_def NewPoll_def poll_defaults_def Let_def second_def)
  have p: "p_GetAllPubkeys sample_poll () = Inr [sample_key, ''xyz'']" "\<And>s j cy pl. p_PublishResult sample_poll s j cy pl () = (None, ())"
    by (simp_all add: sample_poll_def NewPoll_def)
  have live: "ctx_Err sample_poll_ctx (length [sample_key, ''xyz'']) = None" by (simp add: sample_poll_ctx_def ctx_Err_def)
  note refines = probe_pool_refines [of sample_poll, unfolded cap, OF p(1) _ live]
  let ?ts = "launch_loop sample_poll_ctx 0 [sample_key, ''xyz'']"
  obtain t where t: "(pool_step True 30 (probe_one sample_poll (\<lambda>_. 0)))\<^sup>*\<^sup>* (pool_init ?ts) t" "pool_done t"
    using refines [OF _ pool_reach.start] by blast
  from refines [OF _ pool_reach_steps [OF t(1) pool_reach.start]] t(2)
  obtain ord where "UpdateProviderRates ord (\<lambda>_. 0) sample_poll sample_poll_ctx () = (None, ())" by (auto simp: p(2))
  with t show ?thesis by blast
qed

text \<open>
  C22.  \<open>probe_rates\<close> on a list of keys with a context that is not done: the cycle makes
  one publication, whose statuses are for exactly the keys that are the hex of 32 bytes, each as
  often as the list has it, and whose rates are for exactly the keys with an online status.
\<close>

theorem UpdateProviderRates_publishes:
  assumes "p_GetAllPubkeys p w = Inr pubkeys" "pubkeys \<noteq> []" "ctx_Err c (length pubkeys) = None"
  shows "\<exists>r. UpdateProviderRates ord clk p c w =
       map_prod (map_option (wrap_err ''usecase.poll.UpdateProviderRates'')) id
         (p_PublishResult p (ProbeRatesStream (p_cfg p)) (JobIDFrom c) CycleProbeRates (PProbeRates r) w) \<and>
     mset (map PS_PublicKey (Statuses r)) = mset (filter valid_key pubkeys) \<and>
     map RU_PublicKey (PRR_Rates r) = map PS_PublicKey (filter IsOnline (Statuses r))"
proof -
  let ?ts = "launch_loop c 0 pubkeys"
  let ?acc = "pool_results ord (probe_one p clk) ?ts"
  have "mset (map PS_PublicKey (map fst ?acc)) = image_mset PS_PublicKey (mset (map (probe_status p clk) ?ts))"
    unfolding mset_map [of PS_PublicKey] probe_results_statuses ..
  also have "\<dots> = mset (map (\<lambda>t. fst (snd t)) ?ts)" by (simp add: comp_def multiset.map_comp)
  also have "\<dots> = mset (filter valid_key pubkeys)" using assms(3) by (simp only: launch_loop_keys add_0)
  finally have s: "mset (map PS_PublicKey (map fst ?acc)) = mset (filter valid_key pubkeys)" .
  show ?thesis
    by (rule exI [of _ "\<lparr>Statuses = map fst ?acc, PRR_Rates = List.map_filter snd ?acc\<rparr>"])
      (use assms s in \<open>simp add: UpdateProviderRates_def probe_results_rates Let_def split: prod.split option.split\<close>)
qed

theorem UpdateProviderRates_publishes_witness:
  "\<exists>r :: ProbeRatesResult. UpdateProviderRates reverse_order (\<lambda>_. 7) sample_poll \<lparr>ctx_jobID = None, done_from = None, done_err = Canceled\<rparr> () = (None, ()) \<and>
     mset (map PS_PublicKey (Statuses r)) = {#sample_key#}"
proof -
  let ?c = "\<lparr>ctx_jobID = None, done_from = None, done_err = Canceled\<rparr>"
  have "valid_key sample_key" "\<not> valid_key ''xyz''" by (code_simp, code_simp)
  moreover have "p_GetAllPubkeys sample_poll () = Inr [sample_key, ''xyz'']" "p_PublishResult sample_poll s j cy pl () = (None, ())"
    for s j cy pl by (simp_all add: sample_poll_def NewPoll_def)
  ultimately show ?thesis
    using UpdateProviderRates_publishes [of sample_poll "()" "[sample_key, ''xyz'']" ?c reverse_order "\<lambda>_. 7"]
    by (auto simp: ctx_Err_def)
qed

lemma le_div_iff: "0 < c \<Longrightarrow> a \<le> x div c \<longleftrightarrow> c * a \<le> x" for a c x :: int
  by (metis mult.commute zdiv_mono1 nonzero_mult_div_cancel_left less_irrefl mult_le_cancel_left_pos order_trans
      mult_div_mod_eq pos_mod_sign le_add_same_cancel1)

lemma deadline_id: "\<bar>t\<bar> < 2 ^ 62 \<Longrightarrow> 0 \<le> s \<Longrightarrow> s < 2 ^ 32 \<Longrightarrow> int64 (int64 (t + s) + 3600) = t + s + 3600"
  by (simp add: int64_id abs_less_iff)

text \<open>
  C31.  The rule for a contract without money, on times far from the ends of \<open>int64\<close>: a
  provider is removed exactly when the balance is below its bounty, it has proved something once,
  and the proof is overdue by more than an hour.  The bounty grows with the rate, the size and the
  span, and the fee is always required.
\<close>

theorem isRemovedByLowBalance_iff:
  assumes "\<bar>time_Unix (LastProofTime prov)\<bar> < 2 ^ 62"
  shows "isRemovedByLowBalance now sz prov s \<longleftrightarrow>
     86400 * 1048576 * (uint (Balance s) - 50000000 + 1) \<le> uint (OC_RatePerMBDay prov) * uint sz * uint (OC_MaxSpan prov) \<and>
     0 < time_Unix (LastProofTime prov) \<and>
     time_Unix (LastProofTime prov) + uint (OC_MaxSpan prov) + 3600 < time_Unix now"
proof -
  let ?t = "time_Unix (LastProofTime prov)" and ?s = "uint (OC_MaxSpan prov)"
  let ?x = "uint (OC_RatePerMBDay prov) * uint sz * uint (OC_MaxSpan prov)"
  have span: "0 \<le> ?s" "?s < 2 ^ 32" using uint_bounded [of "OC_MaxSpan prov"] by simp_all
  have d: "int64 (int64 (?t + ?s) + 3600) = ?t + ?s + 3600" by (rule deadline_id [OF assms span])
  have "bounty_of sz prov = ?x div 90596966400 + 50000000"
    by (simp add: bounty_of_def storageFee_def)
  then have "uint (Balance s) < bounty_of sz prov \<longleftrightarrow> uint (Balance s) - 50000000 + 1 \<le> ?x div 90596966400"
    by linarith
  also have "\<dots> \<longleftrightarrow> 90596966400 * (uint (Balance s) - 50000000 + 1) \<le> ?x"
    by (rule le_div_iff) simp
  finally show ?thesis using d by (auto simp: isRemovedByLowBalance_def Let_def)
qed

theorem isRemovedByLowBalance_iff_witness:
  "isRemovedByLowBalance (1700100000 * second) (2 ^ 30)
     \<lparr>Key = [], LastProofTime = 1700000000 * second, OC_RatePerMBDay = 1000, OC_MaxSpan = 86400\<rparr>
     \<lparr>OC_Address = ''a'', Balance = 1000, OC_Providers = [], LiteServerError = False\<rparr>"
  using isRemovedByLowBalance_iff [of "\<lparr>Key = [], LastProofTime = 1700000000 * second, OC_RatePerMBDay = 1000, OC_MaxSpan = 86400\<rparr>"]
  by (simp add: time_Unix_def second_def)

end
