(* ===== verification/Proof_Cycle.thy ===== *)
theory Proof_Cycle
  imports Agent_Domain Go_Std Worker_Pool Redis_Publisher
begin

text \<open>
  The use case \<open>internal/usecase/proof\<close>: the cycle \<open>check_proofs\<close>.  Relations are grouped
  by provider, each provider is checked by its own goroutine of a bounded pool, and a provider
  that fails too often in a row is not asked any more.  The fields \<open>inspector\<close> and
  \<open>resolver\<close> of the struct, which no method reads, have no counterpart.
\<close>

record ProofConfig =
  EndpointMaxAge :: duration
  MaxConcurrentBags :: int
  MaxBagsPerProvider :: int
  BagsSamplePercent :: int
  BetweenBagsCooldown :: duration
  CheckProofsStream :: string

type_synonym BagProver = "ProviderEndpoint \<Rightarrow> string \<Rightarrow> ReasonCode \<times> error option"
type_synonym 'w EndpointRepo_LoadFresh = "string \<Rightarrow> duration \<Rightarrow> 'w \<Rightarrow> (ProviderEndpoint \<times> bool) res"

record 'w Proof =
  pr_cfg :: ProofConfig
  pr_Verify :: "string \<Rightarrow> nat \<Rightarrow> BagProver"
  pr_GetActiveRelations :: "'w \<Rightarrow> ContractProviderRelation list res"
  pr_LoadFresh :: "'w EndpointRepo_LoadFresh"
  pr_PublishResult :: "'w PublisherPort"

definition proof_defaults :: "ProofConfig \<Rightarrow> ProofConfig" where
  "proof_defaults cfg =
     (let cfg = (if EndpointMaxAge cfg \<le> 0 then cfg\<lparr>EndpointMaxAge := 1 * hour\<rparr> else cfg);
          cfg = (if MaxConcurrentBags cfg \<le> 0 then cfg\<lparr>MaxConcurrentBags := 30\<rparr> else cfg) in
      if BetweenBagsCooldown cfg \<le> 0 then cfg\<lparr>BetweenBagsCooldown := 500 * millisecond\<rparr> else cfg)"

definition NewProof :: "'w Proof \<Rightarrow> 'w Proof" where
  "NewProof p = p\<lparr>pr_cfg := proof_defaults (pr_cfg p)\<rparr>"

section \<open>The failure threshold in single precision\<close>

text \<open>
  \<open>uint32(float32(len(sample)) * 0.20)\<close>: a \<open>float32\<close> has 24 significant bits, a result is
  rounded to the nearest such number, ties to the even one, and the constant is
  \<open>13421773 * 2^-26\<close>.  A value is kept as its numerator over \<open>2^26\<close>.
\<close>

fun bitlen :: "nat \<Rightarrow> nat" where
  "bitlen n = (if n = 0 then 0 else Suc (bitlen (n div 2)))"

declare bitlen.simps [simp del]

definition round_float32 :: "nat \<Rightarrow> nat" where
  "round_float32 m =
     (let s = bitlen m - 24 in
      if s = 0 then m
      else (let q = m div 2 ^ s; r = m mod 2 ^ s; half = 2 ^ (s - 1) in
            (if r > half \<or> (r = half \<and> odd q) then q + 1 else q) * 2 ^ s))"

definition maxFailureThreshold :: "nat \<Rightarrow> u32" where
  "maxFailureThreshold n = word_of_nat (round_float32 (round_float32 n * 13421773) div 2 ^ 26)"

section \<open>check_proofs\<close>

definition proof_result :: "ReasonCode \<Rightarrow> time \<Rightarrow> ContractProviderRelation \<Rightarrow> ProofResult" where
  "proof_result reason now sc =
     \<lparr>PR_ContractAddr = ContractAddr sc, PR_ProviderAddr = ProviderAddress sc, Reason = reason, PR_CheckedAt = now\<rparr>"

definition fillReason :: "time \<Rightarrow> ContractProviderRelation list \<Rightarrow> ReasonCode \<Rightarrow> ProofResult list" where
  "fillReason now contracts reason = map (proof_result reason now) contracts"

definition sampleContracts ::
  "(nat \<Rightarrow> nat) \<Rightarrow> ProofConfig \<Rightarrow> ContractProviderRelation list \<Rightarrow> ContractProviderRelation list" where
  "sampleContracts rnd cfg contracts =
     (if MaxBagsPerProvider cfg \<le> 0 \<or> int (length contracts) \<le> MaxBagsPerProvider cfg then contracts
      else (let limit = MaxBagsPerProvider cfg;
                limit = (if BagsSamplePercent cfg > 0 \<and> BagsSamplePercent cfg < 100
                         then (let calc = int (length contracts) * BagsSamplePercent cfg div 100 in
                               if calc > 0 \<and> calc < limit then calc else limit)
                         else limit) in
            take (nat limit) (rand_Shuffle rnd contracts)))"

text \<open>
  The loop over the sample.  \<open>k\<close> counts the observations of the context, \<open>i\<close> the calls of
  \<open>Verify\<close>; \<open>clk 0\<close> is \<open>now\<close>, \<open>clk (i + 1)\<close> the clock after call \<open>i\<close>.
\<close>

fun check_loop ::
  "'w Proof \<Rightarrow> string \<Rightarrow> ProviderEndpoint \<Rightarrow> (nat \<Rightarrow> time) \<Rightarrow> u32 \<Rightarrow> ctx \<Rightarrow> nat \<Rightarrow> nat \<Rightarrow> u32 \<Rightarrow>
     ContractProviderRelation list \<Rightarrow> ProofResult list" where
  "check_loop p pubkey ep clk thr c k i fails [] = []"
| "check_loop p pubkey ep clk thr c k i fails (sc # scs) =
     (if ctx_Err c k \<noteq> None then []
      else if thr > 0 \<and> fails > thr then
        proof_result UnavailableProvider (clk 0) sc # check_loop p pubkey ep clk thr c (Suc k) i fails scs
      else (case pr_Verify p pubkey i ep (R_BagID sc) of (reason, vErr) \<Rightarrow>
        proof_result reason (clk (Suc i)) sc #
          (let fails = (if reason = ValidStorageProof then 0 else fails + 1) in
           if BetweenBagsCooldown (pr_cfg p) > 0 then
             (if ctx_Err c (Suc k) \<noteq> None then []
              else check_loop p pubkey ep clk thr c (k + 2) (Suc i) fails scs)
           else check_loop p pubkey ep clk thr c (Suc k) (Suc i) fails scs)))"

definition checkProvider ::
  "(nat \<Rightarrow> nat) \<Rightarrow> (nat \<Rightarrow> time) \<Rightarrow> 'w Proof \<Rightarrow> ctx \<Rightarrow> 'w \<Rightarrow> string \<Rightarrow> ContractProviderRelation list \<Rightarrow> ProofResult list" where
  "checkProvider rnd clk p c w pubkey contracts =
     (case pr_LoadFresh p pubkey (EndpointMaxAge (pr_cfg p)) w of
        Inl e \<Rightarrow> fillReason (clk 0) contracts IPNotFound
      | Inr (ep, ok) \<Rightarrow>
        if \<not> ok \<or> IP (Storage ep) = '''' then fillReason (clk 0) contracts IPNotFound
        else (let sample = sampleContracts rnd (pr_cfg p) contracts in
              check_loop p pubkey ep clk (maxFailureThreshold (length sample)) c 0 0 0 sample))"

definition by_provider :: "ContractProviderRelation list \<Rightarrow> (string, ContractProviderRelation list) gomap" where
  "by_provider rels =
     fold (\<lambda>r m. AList.update (ProviderPubkey r)
        ((case map_of m (ProviderPubkey r) of Some rs \<Rightarrow> rs | None \<Rightarrow> []) @ [r]) m) rels []"

type_synonym proof_task = "string \<times> ContractProviderRelation list"

fun proof_tasks :: "ctx \<Rightarrow> nat \<Rightarrow> proof_task list \<Rightarrow> proof_task list" where
  "proof_tasks c k [] = []"
| "proof_tasks c k (t # ts) = (if ctx_Err c k \<noteq> None then [] else t # proof_tasks c (Suc k) ts)"

text \<open>
  The same context as a goroutine observes it.  A context that is not done after
  \<open>wg.Wait()\<close> was not done before; otherwise each goroutine may notice it at any point, which
  \<open>notice\<close> leaves open.
\<close>

definition goroutine_ctx :: "ctx \<Rightarrow> nat \<Rightarrow> (string \<Rightarrow> nat option) \<Rightarrow> string \<Rightarrow> ctx" where
  "goroutine_ctx c n notice pubkey =
     c\<lparr>done_from := (if ctx_Err c n = None then None else notice pubkey)\<rparr>"

definition CheckStorageProofs ::
  "string iter_order \<Rightarrow> proof_task iter_order \<Rightarrow> (string \<Rightarrow> nat option) \<Rightarrow> (string \<Rightarrow> nat \<Rightarrow> nat) \<Rightarrow>
     (string \<Rightarrow> nat \<Rightarrow> time) \<Rightarrow> 'w Proof \<Rightarrow> ctx \<Rightarrow> 'w \<Rightarrow> error option \<times> 'w" where
  "CheckStorageProofs ord fin notice rnd clk p c w =
     (case pr_GetActiveRelations p w of Inl e \<Rightarrow> (Some e, w)
      | Inr relations \<Rightarrow>
        if length relations = 0 then
          pr_PublishResult p (CheckProofsStream (pr_cfg p)) (JobIDFrom c) CycleCheckProofs (PCheckProofs \<lparr>Results = []\<rparr>) w
        else
          (let byProvider = map_range ord (by_provider relations);
               n = length byProvider;
               results = pool_results fin
                 (\<lambda>(pubkey, contracts). checkProvider (rnd pubkey) (clk pubkey) p (goroutine_ctx c n notice pubkey) w pubkey contracts)
                 (proof_tasks c 0 byProvider) in
           case ctx_Err c n of Some e \<Rightarrow> (Some e, w)
           | None \<Rightarrow>
             (case pr_PublishResult p (CheckProofsStream (pr_cfg p)) (JobIDFrom c) CycleCheckProofs
                     (PCheckProofs \<lparr>Results = results\<rparr>) w of
                (Some e, w') \<Rightarrow> (Some (wrap_err ''usecase.proof.CheckStorageProofs'' e), w')
              | (None, w') \<Rightarrow> (None, w'))))"


section \<open>The threshold is a fifth of the sample\<close>

lemma bitlen_le: "m < 2 ^ k \<Longrightarrow> bitlen m \<le> k"
proof (induction m arbitrary: k rule: bitlen.induct)
  case (1 m)
  show ?case
  proof (cases "m = 0")
    case True
    then show ?thesis by (simp add: bitlen.simps)
  next
    case False
    with "1.prems" obtain k' where k: "k = Suc k'" by (cases k) auto
    with "1.prems" have "m div 2 < 2 ^ k'" by (simp add: less_mult_imp_div_less mult.commute)
    with "1.IH" [OF False] have "bitlen (m div 2) \<le> k'" by blast
    with False k show ?thesis by (simp add: bitlen.simps [of m])
  qed
qed

lemma round_float32_exact: "m < 2 ^ 24 \<Longrightarrow> round_float32 m = m"
  using bitlen_le [of m 24] by (simp add: round_float32_def)

lemma round_float32_bounds:
  assumes "bitlen m \<le> 24 + s" "2 ^ s dvd x" "x \<le> m" "0 < s"
  shows "x \<le> round_float32 m" "round_float32 m \<le> m + 2 ^ (s - 1)"
proof -
  let ?t = "bitlen m - 24"
  have t: "?t \<le> s" using assms(1) by simp
  consider "?t = 0" | "0 < ?t" by blast
  then have "x \<le> round_float32 m \<and> round_float32 m \<le> m + 2 ^ (s - 1)"
  proof cases
    case 1
    then show ?thesis using assms(3) by (simp add: round_float32_def)
  next
    case 2
    let ?q = "m div 2 ^ ?t" and ?r = "m mod 2 ^ ?t"
    let ?up = "?r > 2 ^ (?t - 1) \<or> (?r = 2 ^ (?t - 1) \<and> odd ?q)"
    have round: "round_float32 m = (if ?up then ?q + 1 else ?q) * 2 ^ ?t"
      using 2 by (simp add: round_float32_def Let_def)
    have "2 ^ ?t dvd x" using t assms(2) by (meson le_imp_power_dvd dvd_trans)
    then obtain y where y: "x = y * 2 ^ ?t" by (metis dvdE mult.commute)
    with assms(3) have "y \<le> ?q" by (simp add: less_eq_div_iff_mult_less_eq)
    with y have "x \<le> ?q * 2 ^ ?t" by simp
    then have low: "x \<le> round_float32 m" unfolding round by (auto intro: le_trans)
    have dbl: "2 ^ ?t = 2 * (2::nat) ^ (?t - 1)" using 2 by (simp flip: power_Suc)
    have m: "?q * 2 ^ ?t + ?r = m" by (rule div_mult_mod_eq)
    have "(?q + 1) * 2 ^ ?t \<le> m + 2 ^ (?t - 1)" if "?r \<ge> 2 ^ (?t - 1)"
      using that m dbl by (simp add: algebra_simps)
    moreover have "?q * 2 ^ ?t \<le> m + 2 ^ (?t - 1)" using m by linarith
    ultimately have "round_float32 m \<le> m + 2 ^ (?t - 1)" unfolding round by (cases ?up) auto
    also have "(2::nat) ^ (?t - 1) \<le> 2 ^ (s - 1)" using t by (intro power_increasing) simp_all
    finally show ?thesis using low by simp
  qed
  then show "x \<le> round_float32 m" "round_float32 m \<le> m + 2 ^ (s - 1)" by simp_all
qed

lemma threshold_fifth_nat:
  assumes "n < 2 ^ 24"
  shows "round_float32 (n * 13421773) div 2 ^ 26 = n div 5"
proof -
  let ?m = "n * 13421773" and ?q = "n div 5"
  have m: "?m = ?q * 2 ^ 26 + ?q + (n mod 5) * 13421773"
    using div_mult_mod_eq [of n 5] by (simp; linarith)
  have "?m < 2 ^ 48" using assms by simp
  then have "bitlen ?m \<le> 24 + 24" using bitlen_le [of ?m 48] by simp
  moreover have "(2::nat) ^ 24 dvd ?q * 2 ^ 26" by simp
  moreover have "?q * 2 ^ 26 \<le> ?m" using m by linarith
  ultimately have b: "?q * 2 ^ 26 \<le> round_float32 ?m" "round_float32 ?m \<le> ?m + 2 ^ 23"
    using round_float32_bounds [of ?m 24 "?q * 2 ^ 26"] by simp_all
  have "(n mod 5) * 13421773 \<le> 4 * 13421773" by (intro mult_le_mono1) linarith
  moreover have "?q < 2 ^ 22" using assms by simp
  ultimately have "round_float32 ?m < (?q + 1) * 2 ^ 26" using b(2) m by simp
  with b(1) show ?thesis by (intro div_nat_eqI) (simp_all add: mult.commute)
qed

lemma threshold_fifth: "n < 2 ^ 24 \<Longrightarrow> unat (maxFailureThreshold n) = n div 5"
  using threshold_fifth_nat [of n] by (simp add: maxFailureThreshold_def round_float32_exact unat_of_nat)


section \<open>The loop over the sample\<close>

definition subject :: "ProofResult \<Rightarrow> string \<times> string" where
  "subject r = (PR_ContractAddr r, PR_ProviderAddr r)"

definition rel_subject :: "ContractProviderRelation \<Rightarrow> string \<times> string" where
  "rel_subject r = (ContractAddr r, ProviderAddress r)"

lemma subject_proof_result [simp]: "subject (proof_result reason t sc) = rel_subject sc"
  "Reason (proof_result reason t sc) = reason"
  by (simp_all add: subject_def rel_subject_def proof_result_def)

lemma check_loop_subjects:
  "live c \<Longrightarrow> map subject (check_loop p pk ep clk thr c k i fails scs) = map rel_subject scs"
  by (induction p pk ep clk thr c k i fails scs rule: check_loop.induct)
    (auto simp: ctx_Err_live Let_def split: prod.splits)

lemma check_loop_prefix:
  "\<exists>n. map subject (check_loop p pk ep clk thr c k i fails scs) = take n (map rel_subject scs)"
proof (induction scs arbitrary: k i fails)
  case (Cons sc scs)
  have "\<exists>n. rel_subject sc # map subject (check_loop p pk ep clk thr c k' i' f' scs) = take n (map rel_subject (sc # scs))"
    for k' i' f'
  proof -
    from Cons.IH obtain n where "map subject (check_loop p pk ep clk thr c k' i' f' scs) = take n (map rel_subject scs)"
      by blast
    then show ?thesis by (intro exI [of _ "Suc n"]) simp
  qed
  moreover have "\<exists>n. [rel_subject sc] = take n (map rel_subject (sc # scs))" by (intro exI [of _ 1]) simp
  moreover have "\<exists>n. [] = take n (map rel_subject (sc # scs))" by (intro exI [of _ 0]) simp
  ultimately show ?case
    by (cases "pr_Verify p pk i ep (R_BagID sc)") (simp add: Let_def)
qed simp

lemma check_loop_given_up:
  "live c \<Longrightarrow> thr > 0 \<Longrightarrow> fails > thr \<Longrightarrow>
     check_loop p pk ep clk thr c k i fails scs = map (proof_result UnavailableProvider (clk 0)) scs"
  by (induction scs arbitrary: k) (simp_all add: ctx_Err_live)

text \<open>A provider that never proves anything: the first \<open>thr + 1\<close> bags are asked for, the rest are
  reported unavailable without a request.\<close>

lemma check_loop_all_fail:
  assumes "live c" "thr > 0" "unat thr + 1 < 2 ^ 32"
    and fail: "\<And>j bag. fst (pr_Verify p pk j ep bag) \<noteq> ValidStorageProof"
  shows "fails \<le> thr + 1 \<Longrightarrow> map Reason (check_loop p pk ep clk thr c k i fails scs) =
     map (\<lambda>(j, sc). fst (pr_Verify p pk j ep (R_BagID sc)))
       (List.enumerate i (take (unat thr + 1 - unat fails) scs)) @
     replicate (length scs - (unat thr + 1 - unat fails)) UnavailableProvider"
proof (induction scs arbitrary: k i fails)
  case (Cons sc scs)
  have thr1: "unat (thr + 1) = unat thr + 1"
    using assms(3) by (simp add: unat_word_ariths)
  show ?case
  proof (cases "fails > thr")
    case True
    then have "unat thr + 1 - unat fails = 0" by (simp add: word_less_nat_alt)
    moreover have "check_loop p pk ep clk thr c k i fails (sc # scs) =
        map (proof_result UnavailableProvider (clk 0)) (sc # scs)"
      using assms(1,2) True by (rule check_loop_given_up)
    ultimately show ?thesis by (simp add: comp_def map_replicate_const del: check_loop.simps)
  next
    case False
    then have le: "unat fails \<le> unat thr" by (simp add: word_less_nat_alt)
    then have f1: "unat (fails + 1) = unat fails + 1"
      using assms(3) by (simp add: unat_word_ariths)
    have "fails + 1 \<le> thr + 1" using le f1 thr1 by (simp add: word_le_nat_alt)
    note IH = Cons.IH [OF this]
    obtain reason e where v: "pr_Verify p pk i ep (R_BagID sc) = (reason, e)" by (cases "pr_Verify p pk i ep (R_BagID sc)")
    with fail [of i "R_BagID sc"] have r: "reason \<noteq> ValidStorageProof" by simp
    have n: "unat thr + 1 - unat fails = Suc (unat thr + 1 - unat (fails + 1))" using le f1 by simp
    show ?thesis
      using False v r IH ctx_Err_live [OF assms(1)] unfolding n by (simp add: Let_def)
  qed
qed simp

section \<open>Sampling\<close>

lemma mset_take_le: "mset (take n xs) \<subseteq># mset xs"
  by (metis append_take_drop_id mset_append mset_subset_eq_add_left)

lemma sampleContracts_subset: "mset (sampleContracts rnd cfg cs) \<subseteq># mset cs"
proof -
  have "mset (take n (rand_Shuffle rnd cs)) \<subseteq># mset cs" for n
    using mset_take_le [of n "rand_Shuffle rnd cs"] by simp
  then show ?thesis by (simp add: sampleContracts_def Let_def)
qed

lemma sampleContracts_length:
  "0 < MaxBagsPerProvider cfg \<Longrightarrow> int (length (sampleContracts rnd cfg cs)) \<le> MaxBagsPerProvider cfg"
  "cs \<noteq> [] \<Longrightarrow> sampleContracts rnd cfg cs \<noteq> []"
  by (auto simp: sampleContracts_def Let_def min_def simp flip: length_greater_0_conv)

lemma sampleContracts_all: "MaxBagsPerProvider cfg \<le> 0 \<Longrightarrow> sampleContracts rnd cfg cs = cs"
  by (simp add: sampleContracts_def)

section \<open>Grouping by provider\<close>

lemma by_provider_snoc:
  "by_provider (rels @ [r]) = AList.update (ProviderPubkey r)
     ((case map_of (by_provider rels) (ProviderPubkey r) of Some rs \<Rightarrow> rs | None \<Rightarrow> []) @ [r]) (by_provider rels)"
  by (simp add: by_provider_def)

lemma by_provider_distinct: "distinct (map fst (by_provider rels))"
  by (induction rels rule: rev_induct) (simp_all add: by_provider_snoc distinct_update, simp add: by_provider_def)

lemma by_provider_lookup:
  "map_of (by_provider rels) pk =
     (case filter (\<lambda>r. ProviderPubkey r = pk) rels of [] \<Rightarrow> None | rs \<Rightarrow> Some rs)"
proof (induction rels rule: rev_induct)
  case Nil
  then show ?case by (simp add: by_provider_def)
next
  case (snoc r rels)
  then show ?case
    by (cases "filter (\<lambda>x. ProviderPubkey x = pk) rels") (auto simp: by_provider_snoc update_conv)
qed

lemma mset_update_groups:
  "distinct (map fst m) \<Longrightarrow>
     mset (concat (map snd (AList.update k ((case map_of m k of Some rs \<Rightarrow> rs | None \<Rightarrow> []) @ [r]) m))) =
     add_mset r (mset (concat (map snd m)))"
  by (induction m) (auto simp: map_of_eq_None_iff split: option.splits)

lemma by_provider_mset: "mset (concat (map snd (by_provider rels))) = mset rels"
proof (induction rels rule: rev_induct)
  case Nil
  then show ?case by (simp add: by_provider_def)
next
  case (snoc r rels)
  then show ?case
    using mset_update_groups [OF by_provider_distinct] by (simp add: by_provider_snoc del: mset_concat)
qed

lemma proof_tasks_all: "ctx_Err c (k + length ts) = None \<Longrightarrow> proof_tasks c k ts = ts"
proof (induction ts arbitrary: k)
  case (Cons t ts)
  have "ctx_Err c k = None" using ctx_Err_before [OF Cons.prems, of k] by simp
  with Cons.IH [of "Suc k"] Cons.prems show ?case by simp
qed simp

lemma goroutine_ctx_live: "ctx_Err c n = None \<Longrightarrow> live (goroutine_ctx c n notice pk)"
  by (simp add: goroutine_ctx_def live_def)

lemma checkProvider_subjects:
  assumes "live c" "MaxBagsPerProvider (pr_cfg p) \<le> 0"
  shows "map subject (checkProvider rnd clk p c w pk cs) = map rel_subject cs"
  using assms by (auto simp: checkProvider_def fillReason_def sampleContracts_all check_loop_subjects Let_def
      split: sum.splits)

text \<open>The pool of the cycle.\<close>

interpretation proof_pool: worker_pool True "nat (MaxConcurrentBags (pr_cfg (NewProof p)))" for p
  by unfold_locales (simp add: NewProof_def proof_defaults_def Let_def)

text \<open>The goroutines of the cycle in every interleaving: no more than \<open>MaxConcurrentBags\<close> providers are
  checked at a time, the cycle can always go on until \<open>wg.Wait()\<close> returns, and then it publishes what
  the goroutines appended, as the executable handler does for some finishing order.\<close>

lemma proof_pool_refines:
  assumes "pr_GetActiveRelations p w = Inr rels" "rels \<noteq> []" "n = length (map_range ord (by_provider rels))" "ctx_Err c n = None"
    and "f = (\<lambda>(pk, cs). checkProvider (rnd pk) (clk pk) (NewProof p) (goroutine_ctx c n notice pk) w pk cs)"
    and "pool_reach True (nat (MaxConcurrentBags (pr_cfg (NewProof p)))) f (proof_tasks c 0 (map_range ord (by_provider rels))) s"
  shows "length (running s) \<le> nat (MaxConcurrentBags (pr_cfg (NewProof p))) \<and>
     (\<exists>t. (pool_step True (nat (MaxConcurrentBags (pr_cfg (NewProof p)))) f)\<^sup>*\<^sup>* s t \<and> pool_done t) \<and>
     (pool_done s \<longrightarrow> (\<exists>fin. CheckStorageProofs ord fin notice rnd clk (NewProof p) c w =
        map_prod (map_option (wrap_err ''usecase.proof.CheckStorageProofs'')) id
          (pr_PublishResult p (CheckProofsStream (pr_cfg (NewProof p))) (JobIDFrom c) CycleCheckProofs (PCheckProofs \<lparr>Results = acc s\<rparr>) w)))"
proof (rule proof_pool.refines [OF assms(6)])
  have "pr_GetActiveRelations (NewProof p) w = Inr rels" "pr_PublishResult (NewProof p) = pr_PublishResult p"
    using assms(1) by (simp_all add: NewProof_def)
  with assms(2-4) show "CheckStorageProofs ord fin notice rnd clk (NewProof p) c w =
        map_prod (map_option (wrap_err ''usecase.proof.CheckStorageProofs'')) id
          (pr_PublishResult p (CheckProofsStream (pr_cfg (NewProof p))) (JobIDFrom c) CycleCheckProofs
            (PCheckProofs \<lparr>Results = pool_results fin f (proof_tasks c 0 (map_range ord (by_provider rels)))\<rparr>) w)" for fin
    by (simp add: CheckStorageProofs_def Let_def assms(5) split: prod.split option.split)
qed


lemma proof_results_subjects:
  assumes "ctx_Err c (length (by_provider rels)) = None" "MaxBagsPerProvider (pr_cfg p) \<le> 0"
    and n: "n = length (by_provider rels)"
  shows "mset (map subject (pool_results fin
      (\<lambda>(pk, cs). checkProvider (rnd pk) (clk pk) p (goroutine_ctx c n notice pk) w pk cs)
      (proof_tasks c 0 (map_range ord (by_provider rels))))) = mset (map rel_subject rels)"
proof -
  let ?f = "\<lambda>(pk, cs). checkProvider (rnd pk) (clk pk) p (goroutine_ctx c n notice pk) w pk cs"
  let ?ts = "map_range ord (by_provider rels)"
  have ts: "proof_tasks c 0 ?ts = ?ts"
    using assms(1) by (intro proof_tasks_all) (simp add: length_map_range by_provider_distinct)
  have one: "map subject (?f t) = map rel_subject (snd t)" for t
    using checkProvider_subjects [OF goroutine_ctx_live assms(2)] assms(1) n by (cases t) simp
  have "mset (map subject (pool_results fin ?f ?ts)) = image_mset subject (mset (concat (map ?f ?ts)))"
    by (simp only: mset_map mset_pool_results)
  also have "\<dots> = mset (map rel_subject (concat (map snd ?ts)))"
    unfolding mset_map [symmetric] map_concat map_map using one by (simp only: comp_def)
  also have "\<dots> = image_mset rel_subject (mset (concat (map snd (by_provider rels))))"
  proof -
    have "mset (map snd ?ts) = mset (map snd (by_provider rels))"
      by (simp add: mset_map_range by_provider_distinct)
    then have "mset (concat (map snd ?ts)) = mset (concat (map snd (by_provider rels)))"
      by (metis list.map_id mset_concat_cong)
    then show ?thesis by (simp only: mset_map)
  qed
  finally show ?thesis by (simp only: by_provider_mset mset_map ts)
qed

section \<open>The contracts of the ports\<close>

text \<open>
  The prover needs the public key of the storage node; the cache of endpoints answers from a
  table.  With a cache that holds no such key, no bag can be proved.
\<close>

locale bag_prover =
  fixes verify :: "string \<Rightarrow> nat \<Rightarrow> ProviderEndpoint \<Rightarrow> string \<Rightarrow> ReasonCode \<times> error option"
  assumes needs_endpoint:
    "IP (Storage ep) = '''' \<or> Port (Storage ep) = 0 \<or> EP_PublicKey (Storage ep) = [] \<Longrightarrow>
       verify pk i ep bag = (IPNotFound, None)"

locale keyless_cache =
  fixes load :: "string \<Rightarrow> duration \<Rightarrow> 'w \<Rightarrow> (ProviderEndpoint \<times> bool) res"
  assumes no_key: "load pk age w = Inr (ep, ok) \<Longrightarrow> EP_PublicKey (Storage ep) = []"

locale proof_ports = bag_prover verify + keyless_cache load
  for verify :: "string \<Rightarrow> nat \<Rightarrow> ProviderEndpoint \<Rightarrow> string \<Rightarrow> ReasonCode \<times> error option"
    and load :: "string \<Rightarrow> duration \<Rightarrow> 'w \<Rightarrow> (ProviderEndpoint \<times> bool) res"
begin

lemma check_loop_reasons:
  assumes "pr_Verify p = verify" "EP_PublicKey (Storage ep) = []"
  shows "r \<in> set (check_loop p pk ep clk thr c k i fails scs) \<Longrightarrow> Reason r \<in> {IPNotFound, UnavailableProvider}"
  by (induction scs arbitrary: k i fails)
    (auto simp: assms needs_endpoint Let_def split: if_splits)

lemma checkProvider_reasons:
  assumes "pr_Verify p = verify" "pr_LoadFresh p = load" "r \<in> set (checkProvider rnd clk p c w pk cs)"
  shows "Reason r \<in> {IPNotFound, UnavailableProvider}"
proof (cases "load pk (EndpointMaxAge (pr_cfg p)) w")
  case (Inl e)
  with assms show ?thesis by (auto simp: checkProvider_def fillReason_def)
next
  case (Inr x)
  obtain ep ok where x: "x = (ep, ok)" by (cases x)
  with Inr have "EP_PublicKey (Storage ep) = []" by (simp add: no_key)
  with assms Inr x check_loop_reasons [OF assms(1)] show ?thesis
    by (auto simp: checkProvider_def fillReason_def Let_def split: if_splits)
qed

end


section \<open>Properties\<close>


definition sample_relation :: "nat \<Rightarrow> ContractProviderRelation" where
  "sample_relation i = \<lparr>ContractAddr = format_nat i, ProviderPubkey = ''p'', ProviderAddress = ''addr'', R_BagID = ''bag'', R_Size = 1\<rparr>"

definition sample_endpoint :: ProviderEndpoint where
  "sample_endpoint = zero_ProviderEndpoint\<lparr>Storage := \<lparr>EP_PublicKey = [], IP = ''1.2.3.4'', Port = 3333\<rparr>\<rparr>"

definition sample_proof :: "unit Proof" where
  "sample_proof = NewProof \<lparr>pr_cfg = \<lparr>EndpointMaxAge = 0, MaxConcurrentBags = 0, MaxBagsPerProvider = 0, BagsSamplePercent = 0,
       BetweenBagsCooldown = 0, CheckProofsStream = ''mtpa:result:check_proofs''\<rparr>,
     pr_Verify = (\<lambda>pk i ep bag. (PingFailed, None)),
     pr_GetActiveRelations = (\<lambda>w. Inr (map sample_relation [0..<11])),
     pr_LoadFresh = (\<lambda>pk age w. Inr (sample_endpoint, True)),
     pr_PublishResult = (\<lambda>s j c pl w. (None, w))\<rparr>"

lemma sample_proof_fields:
  "pr_Verify sample_proof pk i ep bag = (PingFailed, None)"
  "pr_GetActiveRelations sample_proof w = Inr (map sample_relation [0..<11])"
  "pr_LoadFresh sample_proof pk age w = Inr (sample_endpoint, True)"
  "pr_PublishResult sample_proof s j cy pl w = (None, w)" "MaxBagsPerProvider (pr_cfg sample_proof) = 0"
  by (simp_all add: sample_proof_def NewProof_def proof_defaults_def)

lemma map_enumerate_const: "map (\<lambda>(j, sc). x) (List.enumerate n xs) = replicate (length xs) x"
  by (induction xs arbitrary: n) simp_all


text \<open>
  Sampling takes contracts of the provider and none twice, no more of them than
  \<open>MaxBagsPerProvider\<close> when that is set, all of them when it is not, and at least one.
\<close>

lemma sampleContracts_sound:
  "mset (sampleContracts rnd cfg cs) \<subseteq># mset cs \<and>
   (if 0 < MaxBagsPerProvider cfg then int (length (sampleContracts rnd cfg cs)) \<le> MaxBagsPerProvider cfg
    else sampleContracts rnd cfg cs = cs) \<and>
   (sampleContracts rnd cfg cs = []) = (cs = [])"
proof -
  have "sampleContracts rnd cfg [] = []" by (simp add: sampleContracts_def rand_Shuffle_def)
  then show ?thesis
    using sampleContracts_subset [of rnd cfg cs] sampleContracts_length(1) [of cfg rnd cs]
      sampleContracts_length(2) [of cs rnd cfg] sampleContracts_all [of cfg rnd cs]
    by auto
qed

text \<open>
  C23.  \<open>check_proofs\<close> without sampling and with a context that is not done: one publication,
  with exactly one verdict for every active relation, whatever the order of the map, of the
  goroutines, and whatever the provers answer.
\<close>

theorem CheckStorageProofs_covers:
  assumes "pr_GetActiveRelations p w = Inr rels" "rels \<noteq> []" "ctx_Err c (length (by_provider rels)) = None"
    and "MaxBagsPerProvider (pr_cfg p) \<le> 0"
  shows "\<exists>r. CheckStorageProofs ord fin notice rnd clk p c w =
       map_prod (map_option (wrap_err ''usecase.proof.CheckStorageProofs'')) id
         (pr_PublishResult p (CheckProofsStream (pr_cfg p)) (JobIDFrom c) CycleCheckProofs (PCheckProofs \<lparr>Results = r\<rparr>) w) \<and>
     mset (map subject r) = mset (map rel_subject rels)"
proof -
  let ?n = "length (by_provider rels)"
  let ?r = "pool_results fin
      (\<lambda>(pk, cs). checkProvider (rnd pk) (clk pk) p (goroutine_ctx c ?n notice pk) w pk cs)
      (proof_tasks c 0 (map_range ord (by_provider rels)))"
  have "CheckStorageProofs ord fin notice rnd clk p c w =
       map_prod (map_option (wrap_err ''usecase.proof.CheckStorageProofs'')) id
         (pr_PublishResult p (CheckProofsStream (pr_cfg p)) (JobIDFrom c) CycleCheckProofs (PCheckProofs \<lparr>Results = ?r\<rparr>) w)"
    using assms
    by (simp add: CheckStorageProofs_def Let_def length_map_range by_provider_distinct split: prod.split option.split)
  with proof_results_subjects [OF assms(3,4) refl] show ?thesis by blast
qed

theorem CheckStorageProofs_covers_witness:
  "\<exists>r :: ProofResult list. CheckStorageProofs reverse_order source_order (\<lambda>_. None) (\<lambda>_ _. 0) (\<lambda>_ _. 0) sample_proof
       \<lparr>ctx_jobID = Some ''j'', done_from = None, done_err = Canceled\<rparr> () = (None, ()) \<and>
     mset (map subject r) = mset (map rel_subject (map sample_relation [0..<11]))"
proof -
  let ?c = "\<lparr>ctx_jobID = Some ''j'', done_from = None, done_err = Canceled\<rparr>"
  have "ctx_Err ?c n = None" for n by (simp add: ctx_Err_def)
  then show ?thesis
    using CheckStorageProofs_covers [of sample_proof "()" "map sample_relation [0..<11]" ?c reverse_order source_order "\<lambda>_. None"
        "\<lambda>_ _. 0" "\<lambda>_ _. 0"]
    by (auto simp: sample_proof_fields)
qed

end
