(* ===== verification/Direct_Provider.thy ===== *)
theory Direct_Provider
  imports Agent_Domain Go_Std Poll_Cycle Proof_Cycle
begin

text \<open>
  The client \<open>internal/adapters/outbound/directprovider\<close>: \<open>Probe\<close> asks a provider for its
  rates, \<open>Verify\<close> and \<open>checkPiece\<close> ask its storage node for a piece of a bag and check the
  Merkle proof.  The ADNL gateway, the RLDP queries, the bag-of-cells parser and the proof checker
  are third-party packages, so they are fields of the records below.
\<close>

section \<open>Probe\<close>

record StorageRatesResponse =
  Available :: bool
  SR_RatePerMBDay :: "byte list"
  SR_MinBounty :: "byte list"
  SR_MinSpan :: u32
  SR_MaxSpan :: u32

definition zero_Rates :: Rates where
  "zero_Rates = \<lparr>RatePerMBDay = 0, MinBounty = 0, MinSpan = 0, MaxSpan = 0\<rparr>"

definition probeFakeSize :: u64 where "probeFakeSize = 1"

type_synonym get_rates = "byte list \<Rightarrow> u64 \<Rightarrow> StorageRatesResponse option res"

definition Probe :: "get_rates \<Rightarrow> byte list \<Rightarrow> Rates \<times> bool \<times> error option" where
  "Probe GetStorageRates pubkey =
     (case GetStorageRates pubkey probeFakeSize of
        Inl e \<Rightarrow> (zero_Rates, False, Some (Wrapped ''adapters.directprovider.Probe'' e))
      | Inr None \<Rightarrow> (zero_Rates, False, None)
      | Inr (Some res) \<Rightarrow>
          if \<not> Available res then (zero_Rates, False, None)
          else (\<lparr>RatePerMBDay = SetBytes_Int64 (SR_RatePerMBDay res), MinBounty = SetBytes_Int64 (SR_MinBounty res),
                 MinSpan = SR_MinSpan res, MaxSpan = SR_MaxSpan res\<rparr>, True, None))"

section \<open>Verify\<close>

record TorrentInfo =
  PieceSize :: u32
  FileSize :: u64
  RootHash :: "byte list"

record Piece =
  PieceProof :: "byte list"
  PieceData :: "byte list"

record ('peer, 'cell) Net =
  RegisterClient :: "string \<Rightarrow> byte list \<Rightarrow> 'peer res"
  Ping :: "nat \<Rightarrow> 'peer \<Rightarrow> error option"
  isPeer :: "'peer \<Rightarrow> bool"
  Reinit :: "'peer \<Rightarrow> 'peer"
  HashOverlay :: "byte list \<Rightarrow> byte list res"
  GetTorrentInfo :: "'peer \<Rightarrow> byte list \<Rightarrow> byte list res"
  GetPiece :: "'peer \<Rightarrow> byte list \<Rightarrow> i32 \<Rightarrow> Piece res"
  FromBOC :: "byte list \<Rightarrow> 'cell res"
  CellHash :: "'cell \<Rightarrow> byte list"
  LoadTorrentInfo :: "'cell \<Rightarrow> TorrentInfo res"
  CheckProof :: "'cell \<Rightarrow> byte list \<Rightarrow> error option"

text \<open>\<open>strconv.Itoa\<close> and \<open>rand.Int31n\<close>; the latter reduces a draw to \<open>[0, n)\<close>.\<close>

definition Itoa :: "int \<Rightarrow> string" where
  "Itoa n = (if n < 0 then CHR ''-'' # format_nat (nat (- n)) else format_nat (nat n))"

definition Int31n :: "nat \<Rightarrow> i32 \<Rightarrow> i32" where
  "Int31n draw n = word_of_nat (draw mod unat n)"

text \<open>The choice of the piece: the quotient is cut to \<open>int32\<close>.\<close>

definition total_pieces :: "TorrentInfo \<Rightarrow> i32" where
  "total_pieces t = (if PieceSize t \<noteq> 0 then ucast (FileSize t div ucast (PieceSize t) :: u64) else 0)"

definition piece_id :: "nat \<Rightarrow> TorrentInfo \<Rightarrow> i32" where
  "piece_id draw t = (let totalPieces = total_pieces t in if sint totalPieces > 0 then Int31n draw totalPieces else 1)"

definition checkPiece :: "('peer, 'cell) Net \<Rightarrow> (nat \<Rightarrow> time) \<Rightarrow> nat \<Rightarrow> 'peer \<Rightarrow> string \<Rightarrow> ReasonCode" where
  "checkPiece net clk draw peer bagID =
     (if \<not> isPeer net peer then UnknownPeer
      else let peer = Reinit net peer; est = clk 0 in
      if Ping net 1 peer \<noteq> None then PingFailed
      else (case hex_DecodeString bagID of Inl e \<Rightarrow> InvalidBagID
      | Inr bag \<Rightarrow>
        (case HashOverlay net bag of Inl e \<Rightarrow> InvalidBagID
         | Inr over \<Rightarrow>
           (let slow = time_Sub (clk 1) est > 5 * second;
                peer = (if slow then Reinit net peer else peer);
                est = (if slow then clk 2 else est) in
            case GetTorrentInfo net peer over of Inl e \<Rightarrow> GetInfoFailed
            | Inr info \<Rightarrow>
              (case FromBOC net info of Inl e \<Rightarrow> InvalidHeader
               | Inr cl \<Rightarrow>
                 if CellHash net cl \<noteq> bag then InvalidHeader
                 else (case LoadTorrentInfo net cl of Inl e \<Rightarrow> InvalidHeader
                 | Inr torrent \<Rightarrow>
                   (let pieceID = piece_id draw torrent;
                        peer = (if time_Sub (clk 3) est > 5 * second then Reinit net peer else peer) in
                    case GetPiece net peer over pieceID of Inl e \<Rightarrow> CantGetPiece
                    | Inr piece \<Rightarrow>
                      (case FromBOC net (PieceProof piece) of Inl e \<Rightarrow> CantParseBoC
                       | Inr proof \<Rightarrow>
                         if CheckProof net proof (RootHash torrent) \<noteq> None then ProofCheckFailed
                         else ValidStorageProof))))))))"

definition Verify ::
  "('peer, 'cell) Net \<Rightarrow> (nat \<Rightarrow> time) \<Rightarrow> nat \<Rightarrow> ProviderEndpoint \<Rightarrow> string \<Rightarrow> ReasonCode \<times> error option" where
  "Verify net clk draw ep bagID =
     (if IP (Storage ep) = '''' \<or> Port (Storage ep) = 0 \<or> length (EP_PublicKey (Storage ep)) = 0 then (IPNotFound, None)
      else let addr = IP (Storage ep) @ '':'' @ Itoa (sint (Port (Storage ep))) in
      (case RegisterClient net addr (EP_PublicKey (Storage ep)) of Inl e \<Rightarrow> (CantCreatePeer, None)
       | Inr peer \<Rightarrow>
         if Ping net 0 peer \<noteq> None then (FailedInitialPing, None)
         else (checkPiece net clk draw peer bagID, None)))"

section \<open>Facts\<close>

text \<open>What the probing cycle relies on: a call that fails, or a provider that is not available,
  is not online and has no rates.\<close>

locale rates_probe =
  fixes probe :: "byte list \<Rightarrow> Rates \<times> bool \<times> error option"
  assumes err_offline: "probe k = (r, online, Some e) \<Longrightarrow> \<not> online"
begin

lemma online_iff: "probe k = (r, online, e) \<Longrightarrow> (online \<and> e = None) = online"
  by (cases e) (auto dest: err_offline)

end

interpretation direct: rates_probe "Probe get" for get
  by unfold_locales (auto simp: Probe_def split: sum.splits option.splits if_splits)

text \<open>The prover as the proof cycle calls it: each call has its own network, clock and draw.\<close>

interpretation direct_prover: bag_prover "\<lambda>pk i. Verify (net pk i) (clk pk i) (draw pk i)" for net clk draw
  by unfold_locales (auto simp: Verify_def)

lemma sint_nonneg: "0 \<le> sint (n :: i32) \<Longrightarrow> sint n = int (unat n)"
proof -
  assume "0 \<le> sint n"
  moreover have "sint n < 2 ^ 31" using sint_lt [of n] by simp
  ultimately have "uint n = sint n" by (simp add: uint_sint take_bit_int_eq_self)
  then show ?thesis by simp
qed

lemma sint_of_nat_small: "r < 2 ^ 31 \<Longrightarrow> sint (word_of_nat r :: i32) = int r"
  using sint_sbintrunc' [where 'a = 32, of "int r"] by (simp add: signed_take_bit_int_eq_self)

lemma Int31n_range: "0 < sint n \<Longrightarrow> 0 \<le> sint (Int31n draw n) \<and> sint (Int31n draw n) < sint n"
proof -
  assume pos: "0 < sint n"
  then have n: "sint n = int (unat n)" by (simp add: sint_nonneg)
  have lt: "draw mod unat n < unat n" 
  proof (rule mod_less_divisor)
    show "0 < unat n" using pos n by linarith
  qed
  moreover have "unat n < 2 ^ 31" 
  proof -
    have "int (unat n) < 2 ^ 31" using sint_lt [of n] unfolding n by (simp del: of_nat_unat)
    then show ?thesis by (simp only: of_nat_less_numeral_power_cancel_iff)
  qed
  ultimately have "sint (Int31n draw n) = int (draw mod unat n)"
    by (simp add: Int31n_def sint_of_nat_small)
  with lt n show ?thesis by (simp del: of_nat_unat)
qed

lemma total_pieces_value:
  assumes "PieceSize t \<noteq> 0" "unat (FileSize t) div unat (PieceSize t) < 2 ^ 31"
  shows "sint (total_pieces t) = int (unat (FileSize t) div unat (PieceSize t))"
proof -
  let ?d = "unat (FileSize t) div unat (PieceSize t)"
  have "unat (FileSize t div ucast (PieceSize t) :: u64) = ?d"
  proof -
    have "unat (PieceSize t) < 2 ^ 64" using unsigned_less [of "PieceSize t", where ?'a = nat] by simp
    then have "unat (ucast (PieceSize t) :: u64) = unat (PieceSize t)"
      by (simp add: unsigned_ucast_eq take_bit_nat_eq_self)
    then show ?thesis by (simp add: unat_div)
  qed
  then have "(ucast (FileSize t div ucast (PieceSize t) :: u64) :: i32) = word_of_nat ?d"
    by (metis of_nat_unat)
  with assms show ?thesis by (simp add: total_pieces_def sint_of_nat_small)
qed

text \<open>What has been checked when a bag counts as proved.\<close>

definition proved_piece :: "('peer, 'cell) Net \<Rightarrow> byte list \<Rightarrow> 'cell \<Rightarrow> TorrentInfo \<Rightarrow> Piece \<Rightarrow> bool" where
  "proved_piece net bag cl torrent piece \<longleftrightarrow>
     CellHash net cl = bag \<and> LoadTorrentInfo net cl = Inr torrent \<and>
     (\<exists>proof. FromBOC net (PieceProof piece) = Inr proof \<and> CheckProof net proof (RootHash torrent) = None)"

lemma checkPiece_valid:
  assumes "checkPiece net clk draw peer bagID = ValidStorageProof"
  obtains bag over peer1 info cl torrent peer2 piece
  where "hex_DecodeString bagID = Inr bag" "HashOverlay net bag = Inr over"
    "GetTorrentInfo net peer1 over = Inr info" "FromBOC net info = Inr cl"
    "GetPiece net peer2 over (piece_id draw torrent) = Inr piece"
    "proved_piece net bag cl torrent piece"
  using assms
  by (auto simp: checkPiece_def proved_piece_def Let_def reason_defs split: if_splits sum.splits)


section \<open>Properties\<close>

text \<open>
  C34.  What \<open>ValidStorageProof\<close> means: the storage endpoint was complete, the bag id is hex,
  the node served a header whose hash is the bag id, and the proof of the requested piece is
  accepted against the root hash of that header.
\<close>

theorem Verify_valid_sound:
  assumes "fst (Verify net clk draw ep bagID) = ValidStorageProof"
  shows "IP (Storage ep) \<noteq> '''' \<and> Port (Storage ep) \<noteq> 0 \<and> EP_PublicKey (Storage ep) \<noteq> [] \<and>
     (\<exists>bag over peer1 peer2 info cl torrent piece. hex_DecodeString bagID = Inr bag \<and> HashOverlay net bag = Inr over \<and>
        GetTorrentInfo net peer1 over = Inr info \<and> FromBOC net info = Inr cl \<and>
        GetPiece net peer2 over (piece_id draw torrent) = Inr piece \<and> proved_piece net bag cl torrent piece)"
proof -
  from assms have ep: "IP (Storage ep) \<noteq> ''''" "Port (Storage ep) \<noteq> 0" "EP_PublicKey (Storage ep) \<noteq> []"
    by (auto simp: Verify_def reason_defs split: if_splits)
  from assms obtain peer where "checkPiece net clk draw peer bagID = ValidStorageProof"
    by (auto simp: Verify_def reason_defs Let_def split: if_splits sum.splits)
  then show ?thesis by (rule checkPiece_valid) (use ep in blast)
qed

definition sample_net :: "(unit, byte list) Net" where
  "sample_net = \<lparr>RegisterClient = (\<lambda>a k. Inr ()), Ping = (\<lambda>n p. None), isPeer = (\<lambda>p. True), Reinit = (\<lambda>p. p),
     HashOverlay = (\<lambda>k. Inr k), GetTorrentInfo = (\<lambda>p over. Inr over), GetPiece = (\<lambda>p over i. Inr \<lparr>PieceProof = [1], PieceData = [2]\<rparr>),
     FromBOC = (\<lambda>b. Inr b), CellHash = (\<lambda>cl. cl), LoadTorrentInfo = (\<lambda>cl. Inr \<lparr>PieceSize = 1024, FileSize = 5000, RootHash = [9]\<rparr>),
     CheckProof = (\<lambda>prf h. None)\<rparr>"

definition sample_storage :: ProviderEndpoint where
  "sample_storage = zero_ProviderEndpoint\<lparr>Storage := \<lparr>EP_PublicKey = [7], IP = ''10.0.0.1'', Port = 16167\<rparr>\<rparr>"

theorem Verify_valid_sound_witness:
  "fst (Verify sample_net (\<lambda>_. 0) 6 sample_storage ''ab'') = ValidStorageProof \<and> EP_PublicKey (Storage sample_storage) \<noteq> []"
proof -
  have "hex_DecodeString ''ab'' = Inr [0xab]" by code_simp
  then have "fst (Verify sample_net (\<lambda>_. 0) 6 sample_storage ''ab'') = ValidStorageProof"
    by (simp add: Verify_def checkPiece_def sample_net_def sample_storage_def Let_def)
  with Verify_valid_sound [OF this] show ?thesis by blast
qed


text \<open>
  C36.  The requested piece, when the number of full pieces fits \<open>int32\<close>: one of the full pieces,
  counted from 0; when there is no full piece, piece 1, although the only piece is piece 0.
\<close>

theorem piece_id_range:
  assumes "PieceSize t \<noteq> 0" "unat (FileSize t) div unat (PieceSize t) < 2 ^ 31"
  shows "if unat (PieceSize t) \<le> unat (FileSize t)
     then 0 \<le> sint (piece_id draw t) \<and> sint (piece_id draw t) < int (unat (FileSize t) div unat (PieceSize t))
     else piece_id draw t = 1"
proof -
  note v = total_pieces_value [OF assms]
  have pos: "0 < unat (PieceSize t)" using assms(1) by (simp add: unat_gt_0)
  show ?thesis
  proof (cases "unat (PieceSize t) \<le> unat (FileSize t)")
    case True
    then have "0 < sint (total_pieces t)" using v pos by (simp add: div_greater_zero_iff)
    with Int31n_range [OF this] v True show ?thesis by (simp add: piece_id_def Let_def)
  next
    case False
    then have "sint (total_pieces t) = 0" using v by simp
    with False show ?thesis by (simp add: piece_id_def Let_def)
  qed
qed

theorem piece_id_range_witness:
  "sint (piece_id 6 \<lparr>PieceSize = 1024, FileSize = 5000, RootHash = [9]\<rparr>) < 4 \<and>
   piece_id 6 \<lparr>PieceSize = 1024, FileSize = 1000, RootHash = [9]\<rparr> = 1"
  using piece_id_range [of "\<lparr>PieceSize = 1024, FileSize = 5000, RootHash = [9]\<rparr>" 6]
    piece_id_range [of "\<lparr>PieceSize = 1024, FileSize = 1000, RootHash = [9]\<rparr>" 6] by simp

text \<open>
  The rates of an available provider: the amounts are the big-endian numbers of the answer cut
  to their low 64 bits, so an amount of \<open>2^63\<close> or more is not kept; below it the value is exact.
\<close>

lemma Probe_rates:
  assumes "get pubkey probeFakeSize = Inr (Some res)" "Available res"
  shows "\<exists>r. Probe get pubkey = (r, True, None) \<and> MinSpan r = SR_MinSpan res \<and> MaxSpan r = SR_MaxSpan res \<and>
     unat (RatePerMBDay r) = be_nat (SR_RatePerMBDay res) mod 2 ^ 64 \<and> unat (MinBounty r) = be_nat (SR_MinBounty res) mod 2 ^ 64 \<and>
     (be_nat (SR_RatePerMBDay res) < 2 ^ 63 \<longrightarrow> sint (RatePerMBDay r) = int (be_nat (SR_RatePerMBDay res)))"
proof -
  have s: "sint (word_of_nat n :: i64) = int n" if "n < 2 ^ 63" for n
    using that sint_sbintrunc' [where 'a = 64, of "int n"] by (simp add: signed_take_bit_int_eq_self)
  show ?thesis using assms s by (simp add: Probe_def SetBytes_Int64_def unat_of_nat)
qed

end
