(* ===== verification/Update_Cycle.thy ===== *)
theory Update_Cycle
  imports Agent_Domain Redis_Publisher
begin

text \<open>
  The use case \<open>internal/usecase/update\<close>, the cycle \<open>lookup_ipinfo\<close>, and the client
  \<open>internal/adapters/outbound/ipconfig\<close> it asks.  \<open>net/http\<close> and the JSON decoder are
  parameters of the client.
\<close>

section \<open>The ipconfig client\<close>

record Info =
  inf_IP :: string
  inf_Country :: string
  inf_CountryISO :: string
  inf_City :: string
  inf_TimeZone :: string

record Response =
  StatusCode :: int
  Status_text :: string
  Body :: string

record Http =
  NewRequest :: "string \<Rightarrow> error option"
  Do :: "string \<Rightarrow> Response res"
  DecodeInfo :: "string \<Rightarrow> Info res"

definition GetIPInfo :: "Http \<Rightarrow> string \<Rightarrow> IpInfo res" where
  "GetIPInfo h ip =
     (let op = ''adapters.ipconfig.GetIPInfo''; url = ''https://ifconfig.co/json?ip='' @ ip in
      case NewRequest h url of Some e \<Rightarrow> Inl (Wrapped op e)
      | None \<Rightarrow>
        (case Do h url of Inl e \<Rightarrow> Inl (Wrapped op e)
         | Inr resp \<Rightarrow>
           if StatusCode resp \<noteq> 200 then Inl (Err (op @ '':failed to get IP config: '' @ Status_text resp))
           else (case DecodeInfo h (Body resp) of Inl e \<Rightarrow> Inl (Wrapped op e)
                 | Inr config \<Rightarrow> Inr \<lparr>Country = inf_Country config, CountryISO = inf_CountryISO config,
                     City = inf_City config, TimeZone = inf_TimeZone config, II_IP = inf_IP config\<rparr>)))"

section \<open>lookup_ipinfo\<close>

record UpdateConfig =
  IPInfoTimeout :: duration
  BetweenIPsCooldown :: duration
  LookupIPInfoStream :: string

type_synonym IPInfoClient = "string \<Rightarrow> IpInfo res"
type_synonym 'w IPInfoRepo = "'w \<Rightarrow> ProviderEndpoint list res"

record 'w Update =
  u_cfg :: UpdateConfig
  u_GetIPInfo :: "duration \<Rightarrow> nat \<Rightarrow> IPInfoClient"
  u_GetProvidersIPs :: "'w IPInfoRepo"
  u_PublishResult :: "'w PublisherPort"

definition update_defaults :: "UpdateConfig \<Rightarrow> UpdateConfig" where
  "update_defaults cfg =
     (let cfg = (if IPInfoTimeout cfg \<le> 0 then cfg\<lparr>IPInfoTimeout := 10 * second\<rparr> else cfg) in
      if BetweenIPsCooldown cfg \<le> 0 then cfg\<lparr>BetweenIPsCooldown := 1 * second\<rparr> else cfg)"

definition NewUpdate :: "'w Update \<Rightarrow> 'w Update" where
  "NewUpdate u = u\<lparr>u_cfg := update_defaults (u_cfg u)\<rparr>"

text \<open>\<open>i\<close> is the index of the endpoint, \<open>k\<close> counts the observations of the context.\<close>

fun ip_loop :: "'w Update \<Rightarrow> ctx \<Rightarrow> nat \<Rightarrow> nat \<Rightarrow> ProviderEndpoint list \<Rightarrow> IPInfoUpdate list \<Rightarrow> IPInfoUpdate list res" where
  "ip_loop u c k i [] items = Inr items"
| "ip_loop u c k i (ep # eps) items =
     (case ctx_Err c k of Some e \<Rightarrow> Inl e
      | None \<Rightarrow>
        if IP (PE_Provider ep) = '''' then ip_loop u c (Suc k) (Suc i) eps items
        else
          (let wait = (i > 0 \<and> BetweenIPsCooldown (u_cfg u) > 0);
               k' = (if wait then Suc (Suc k) else Suc k) in
           case (if wait then ctx_Err c (Suc k) else None) of Some e \<Rightarrow> Inl e
           | None \<Rightarrow>
             (case u_GetIPInfo u (IPInfoTimeout (u_cfg u)) i (IP (PE_Provider ep)) of
                Inl e \<Rightarrow> ip_loop u c k' (Suc i) eps items
              | Inr info \<Rightarrow>
                  ip_loop u c k' (Suc i) eps
                    (items @ [\<lparr>IU_PublicKey = PE_PublicKey ep, IU_IP = IP (PE_Provider ep), Info = info\<rparr>]))))"

definition UpdateIPInfo :: "'w Update \<Rightarrow> ctx \<Rightarrow> 'w \<Rightarrow> error option \<times> 'w" where
  "UpdateIPInfo u c w =
     (case u_GetProvidersIPs u w of Inl e \<Rightarrow> (Some e, w)
      | Inr endpoints \<Rightarrow>
        if length endpoints = 0 then
          u_PublishResult u (LookupIPInfoStream (u_cfg u)) (JobIDFrom c) CycleLookupIPInfo (PLookupIPInfo \<lparr>Items = []\<rparr>) w
        else
          (case ip_loop u c 0 0 endpoints [] of Inl e \<Rightarrow> (Some e, w)
           | Inr items \<Rightarrow>
             (case u_PublishResult u (LookupIPInfoStream (u_cfg u)) (JobIDFrom c) CycleLookupIPInfo
                     (PLookupIPInfo \<lparr>Items = items\<rparr>) w of
                (Some e, w') \<Rightarrow> (Some (wrap_err ''usecase.update.UpdateIPInfo'' e), w')
              | (None, w') \<Rightarrow> (None, w'))))"

section \<open>Facts\<close>

text \<open>What the loop collects: the endpoints with an address whose lookup succeeded, in order.\<close>

definition looked_up :: "'w Update \<Rightarrow> nat \<Rightarrow> ProviderEndpoint list \<Rightarrow> IPInfoUpdate list" where
  "looked_up u i eps =
     List.map_filter (\<lambda>(j, ep). if IP (PE_Provider ep) = '''' then None
       else (case u_GetIPInfo u (IPInfoTimeout (u_cfg u)) j (IP (PE_Provider ep)) of Inl e \<Rightarrow> None
             | Inr info \<Rightarrow> Some \<lparr>IU_PublicKey = PE_PublicKey ep, IU_IP = IP (PE_Provider ep), Info = info\<rparr>))
       (List.enumerate i eps)"

lemma looked_up_simps [simp]:
  "looked_up u i [] = []"
  "looked_up u i (ep # eps) =
     (if IP (PE_Provider ep) = '''' then looked_up u (Suc i) eps
      else case u_GetIPInfo u (IPInfoTimeout (u_cfg u)) i (IP (PE_Provider ep)) of
             Inl e \<Rightarrow> looked_up u (Suc i) eps
           | Inr info \<Rightarrow> \<lparr>IU_PublicKey = PE_PublicKey ep, IU_IP = IP (PE_Provider ep), Info = info\<rparr> # looked_up u (Suc i) eps)"
  by (simp_all add: looked_up_def map_filter_simps split: sum.split)

lemma ip_loop_items: "ip_loop u c k i eps items = Inr items' \<Longrightarrow> items' = items @ looked_up u i eps"
  by (induction u c k i eps items rule: ip_loop.induct)
    (auto simp: Let_def split: option.splits if_splits sum.splits)

lemma ip_loop_live: "live c \<Longrightarrow> ip_loop u c k i eps items = Inr (items @ looked_up u i eps)"
  by (induction u c k i eps items rule: ip_loop.induct)
    (auto simp: Let_def ctx_Err_live split: sum.splits)

lemma looked_up_mem:
  "x \<in> set (looked_up u i eps) \<Longrightarrow>
     \<exists>ep \<in> set eps. IU_PublicKey x = PE_PublicKey ep \<and> IU_IP x = IP (PE_Provider ep) \<and> IU_IP x \<noteq> '''' \<and>
       (\<exists>j. u_GetIPInfo u (IPInfoTimeout (u_cfg u)) j (IU_IP x) = Inr (Info x))"
  by (induction eps arbitrary: i) (auto split: if_splits sum.splits)

text \<open>The contract of the geo client: what it returns is the server's answer for the address.\<close>

locale ipinfo_client =
  fixes get :: "string \<Rightarrow> IpInfo res"
    and answer :: "string \<Rightarrow> Info option"
  assumes answered: "get ip = Inr info \<Longrightarrow> \<exists>a. answer ip = Some a \<and> II_IP info = inf_IP a \<and> Country info = inf_Country a \<and>
      CountryISO info = inf_CountryISO a \<and> City info = inf_City a \<and> TimeZone info = inf_TimeZone a"

definition http_answer :: "Http \<Rightarrow> string \<Rightarrow> Info option" where
  "http_answer h ip =
     (case Do h (''https://ifconfig.co/json?ip='' @ ip) of Inl e \<Rightarrow> None
      | Inr resp \<Rightarrow> if StatusCode resp = 200 then (case DecodeInfo h (Body resp) of Inl e \<Rightarrow> None | Inr a \<Rightarrow> Some a) else None)"

interpretation ifconfig: ipinfo_client "GetIPInfo h" "http_answer h" for h
  by unfold_locales (auto simp: GetIPInfo_def http_answer_def Let_def split: option.splits sum.splits if_splits)

end
