(* ===== verification/Consumer.thy ===== *)
theory Consumer
  imports Agent_Domain Go_Std
begin

text \<open>
  The trigger consumer \<open>internal/adapters/inbound/redisstream\<close>: \<open>NewConsumer\<close>, one worker's
  loop, \<open>process\<close> with \<open>runHandler\<close> and \<open>decodeJobID\<close>, the reaper with
  \<open>claimPending\<close>, and \<open>EnsureGroup\<close>.  The redis client is a record of functions over the
  state \<open>'w\<close> that the handlers act on too; \<open>json.Unmarshal\<close> is a parameter.  The loops
  \<open>for \{ ... \}\<close> are \<open>partial_function (option)\<close>: not returning is \<open>None\<close>.
\<close>

section \<open>State\<close>

record Metrics =
  CyclesTotal :: "string \<times> string \<Rightarrow> nat"
  CycleDuration :: "string \<Rightarrow> nat"
  CyclesInflight :: "string \<Rightarrow> int"
  RedisErrors :: nat
  PublishErrors :: nat

text \<open>The counters, the number of observations of the histogram, and the gauge.\<close>

definition NewMetrics :: Metrics where
  "NewMetrics = \<lparr>CyclesTotal = (\<lambda>_. 0), CycleDuration = (\<lambda>_. 0), CyclesInflight = (\<lambda>_. 0), RedisErrors = 0, PublishErrors = 0\<rparr>"

definition inc_redis :: "Metrics \<Rightarrow> Metrics" where
  "inc_redis m = m\<lparr>RedisErrors := Suc (RedisErrors m)\<rparr>"

definition add_inflight :: "string \<Rightarrow> int \<Rightarrow> Metrics \<Rightarrow> Metrics" where
  "add_inflight cy n m = m\<lparr>CyclesInflight := (CyclesInflight m)(cy := CyclesInflight m cy + n)\<rparr>"

definition observe_cycle :: "string \<Rightarrow> string \<Rightarrow> Metrics \<Rightarrow> Metrics" where
  "observe_cycle cy st m = m\<lparr>CycleDuration := (CycleDuration m)(cy := Suc (CycleDuration m cy)),
     CyclesTotal := (CyclesTotal m)((cy, st) := Suc (CyclesTotal m (cy, st)))\<rparr>"

datatype Value = VString string | VOther

record XMessage =
  X_ID :: string
  X_Values :: "(string, Value) gomap"

record XReadGroupArgs =
  RG_Group :: string
  RG_Consumer :: string
  RG_Streams :: "string list"
  RG_Count :: int
  RG_Block :: duration

record XAutoClaimArgs =
  AC_Stream :: string
  AC_Group :: string
  AC_MinIdle :: duration
  AC_Start :: string
  AC_Count :: int
  AC_Consumer :: string

record 'w Redis =
  XReadGroup :: "XReadGroupArgs \<Rightarrow> 'w \<Rightarrow> XMessage list list res \<times> 'w"
  XAck :: "string \<Rightarrow> string \<Rightarrow> string \<Rightarrow> 'w \<Rightarrow> error option \<times> 'w"
  XAutoClaim :: "XAutoClaimArgs \<Rightarrow> 'w \<Rightarrow> (XMessage list \<times> string \<times> error option) \<times> 'w"

type_synonym 'w CycleHandler = "ctx \<Rightarrow> 'w \<Rightarrow> error option \<times> 'w"

record ConsumerConfig =
  cc_Stream :: string
  cc_Group :: string
  cc_ConsumerID :: string
  cc_CycleType :: string
  cc_Pool :: int
  cc_Timeout :: duration
  cc_BlockMs :: int
  cc_MinIdle :: duration
  cc_ReaperTimeout :: duration

record 'w Consumer =
  rdb :: "'w Redis"
  conf :: ConsumerConfig
  handler :: "'w CycleHandler"
  unmarshal :: "string \<Rightarrow> TriggerEnvelope res"

text \<open>The defaults of \<open>NewConsumer\<close>; \<open>MinIdle\<close> and \<open>ReaperTimeout\<close> have none.\<close>

definition consumer_defaults :: "ConsumerConfig \<Rightarrow> ConsumerConfig" where
  "consumer_defaults cfg =
     (let cfg = (if cc_Pool cfg \<le> 0 then cfg\<lparr>cc_Pool := 1\<rparr> else cfg);
          cfg = (if cc_Timeout cfg \<le> 0 then cfg\<lparr>cc_Timeout := 30 * minute\<rparr> else cfg) in
      if cc_BlockMs cfg \<le> 0 then cfg\<lparr>cc_BlockMs := 5000\<rparr> else cfg)"

definition NewConsumer ::
  "'w Redis \<Rightarrow> (string \<Rightarrow> TriggerEnvelope res) \<Rightarrow> ConsumerConfig \<Rightarrow> 'w CycleHandler \<Rightarrow> 'w Consumer" where
  "NewConsumer r um cfg h = \<lparr>rdb = r, conf = consumer_defaults cfg, handler = h, unmarshal = um\<rparr>"

text \<open>The metrics pointer may be nil.\<close>

record 'w cstate =
  world :: 'w
  metrics :: "Metrics option"

definition with_metrics :: "(Metrics \<Rightarrow> Metrics) \<Rightarrow> 'w cstate \<Rightarrow> 'w cstate" where
  "with_metrics f s = s\<lparr>metrics := map_option f (metrics s)\<rparr>"

section \<open>process\<close>

definition decodeJobID :: "'w Consumer \<Rightarrow> XMessage \<Rightarrow> string" where
  "decodeJobID c msg =
     (case map_of (X_Values msg) ''data'' of
        None \<Rightarrow> ''''
      | Some VOther \<Rightarrow> ''''
      | Some (VString s) \<Rightarrow> (case unmarshal c s of Inl e \<Rightarrow> '''' | Inr env \<Rightarrow> TE_JobID env))"

definition panic_text :: "error \<Rightarrow> string" where
  "panic_text e = (case e of RuntimePanic r \<Rightarrow> r | _ \<Rightarrow> '''')"

definition runHandler :: "'w Consumer \<Rightarrow> ctx \<Rightarrow> 'w \<Rightarrow> error option \<times> 'w" where
  "runHandler c hctx w =
     (case handler c hctx w of
        (Some e, w') \<Rightarrow> if is_panic e then (Some (Err (''error in handler: '' @ panic_text e)), w') else (Some e, w')
      | (None, w') \<Rightarrow> (None, w'))"

text \<open>
  \<open>hdone\<close> says when the context of \<open>context.WithTimeout\<close> is done, in observations of the
  handler, and why.
\<close>

definition handler_ctx :: "nat option \<times> error \<Rightarrow> ctx \<Rightarrow> string \<Rightarrow> ctx" where
  "handler_ctx hdone parent jobID =
     WithJobID (parent\<lparr>done_from := fst hdone, done_err := snd hdone\<rparr>) jobID"

definition process :: "'w Consumer \<Rightarrow> ctx \<Rightarrow> nat option \<times> error \<Rightarrow> XMessage \<Rightarrow> 'w cstate \<Rightarrow> 'w cstate" where
  "process c parent hdone msg s =
     (let cy = cc_CycleType (conf c);
          jobID = decodeJobID c msg;
          s = with_metrics (add_inflight cy 1) s;
          (err, w) = runHandler c (handler_ctx hdone parent jobID) (world s);
          status = (if err \<noteq> None then StatusError else StatusOK);
          s = with_metrics (observe_cycle cy status) (s\<lparr>world := w\<rparr>);
          (ackErr, w) = XAck (rdb c) (cc_Stream (conf c)) (cc_Group (conf c)) (X_ID msg) (world s);
          s = s\<lparr>world := w\<rparr>;
          s = (if ackErr \<noteq> None then with_metrics inc_redis s else s) in
      with_metrics (add_inflight cy (-1)) s)"

section \<open>A worker\<close>

definition read_args :: "'w Consumer \<Rightarrow> XReadGroupArgs" where
  "read_args c = \<lparr>RG_Group = cc_Group (conf c), RG_Consumer = cc_ConsumerID (conf c),
     RG_Streams = [cc_Stream (conf c), ''>''], RG_Count = 1, RG_Block = cc_BlockMs (conf c) * millisecond\<rparr>"

text \<open>The messages of a reply, in order; \<open>hd n\<close> is the timeout of the \<open>n\<close>-th message.\<close>

fun process_all ::
  "'w Consumer \<Rightarrow> ctx \<Rightarrow> (nat \<Rightarrow> nat option \<times> error) \<Rightarrow> nat \<Rightarrow> XMessage list \<Rightarrow> 'w cstate \<Rightarrow> 'w cstate" where
  "process_all c parent hdone n [] s = s"
| "process_all c parent hdone n (m # ms) s = process_all c parent hdone (Suc n) ms (process c parent (hdone n) m s)"

partial_function (option) worker_loop ::
  "'w Consumer \<Rightarrow> ctx \<Rightarrow> (nat \<Rightarrow> nat option \<times> error) \<Rightarrow> nat \<Rightarrow> nat \<Rightarrow> 'w cstate \<Rightarrow> 'w cstate option" where
  "worker_loop c parent hdone k n s =
     (if ctx_Err parent k \<noteq> None then Some s
      else (case XReadGroup (rdb c) (read_args c) (world s) of
        (Inl e, w) \<Rightarrow>
          (let s = s\<lparr>world := w\<rparr> in
           if errors_Is e RedisNil \<or> errors_Is e Canceled then worker_loop c parent hdone (Suc k) n s
           else (let s = with_metrics inc_redis s in
                 if ctx_Err parent (Suc k) \<noteq> None then Some s else worker_loop c parent hdone (k + 2) n s))
      | (Inr streams, w) \<Rightarrow>
          worker_loop c parent hdone (Suc k) (n + length (concat streams))
            (process_all c parent hdone n (concat streams) (s\<lparr>world := w\<rparr>))))"

definition runWorker :: "'w Consumer \<Rightarrow> ctx \<Rightarrow> (nat \<Rightarrow> nat option \<times> error) \<Rightarrow> 'w cstate \<Rightarrow> 'w cstate option" where
  "runWorker c parent hdone s = worker_loop c parent hdone 0 0 s"

section \<open>The reaper\<close>

definition claim_args :: "'w Consumer \<Rightarrow> string \<Rightarrow> XAutoClaimArgs" where
  "claim_args c cursor = \<lparr>AC_Stream = cc_Stream (conf c), AC_Group = cc_Group (conf c), AC_MinIdle = cc_MinIdle (conf c),
     AC_Start = cursor, AC_Count = 10, AC_Consumer = cc_ConsumerID (conf c)\<rparr>"

text \<open>The result is the state, or a panic: the error path uses the metrics without a nil test.\<close>

partial_function (option) claim_loop ::
  "'w Consumer \<Rightarrow> ctx \<Rightarrow> (nat \<Rightarrow> nat option \<times> error) \<Rightarrow> nat \<Rightarrow> string \<Rightarrow> 'w cstate \<Rightarrow> 'w cstate res option" where
  "claim_loop c parent hdone n cursor s =
     (case XAutoClaim (rdb c) (claim_args c cursor) (world s) of ((jobs, start, err), w) \<Rightarrow>
        if err \<noteq> None \<and> metrics s = None then Some (Inl (RuntimePanic ''nil pointer dereference''))
        else
          (let s = s\<lparr>world := w\<rparr>;
               s = (if err \<noteq> None then with_metrics inc_redis s else s);
               s = process_all c parent hdone n jobs s in
           if start = ''0-0'' then Some (Inr s)
           else claim_loop c parent hdone (n + length jobs) start s))"

definition claimPending :: "'w Consumer \<Rightarrow> ctx \<Rightarrow> (nat \<Rightarrow> nat option \<times> error) \<Rightarrow> nat \<Rightarrow> 'w cstate \<Rightarrow> 'w cstate res option" where
  "claimPending c parent hdone n s = claim_loop c parent hdone n ''0-0'' s"

text \<open>\<open>time.NewTicker\<close> panics when its argument is not positive.  Each round of the
  \<open>select\<close> either takes \<open>ctx.Done()\<close>, which is the observation of the context, or a tick;
  \<open>hd k\<close> are the timeouts of round \<open>k\<close>.\<close>

partial_function (option) reaper_loop ::
  "'w Consumer \<Rightarrow> ctx \<Rightarrow> (nat \<Rightarrow> nat \<Rightarrow> nat option \<times> error) \<Rightarrow> nat \<Rightarrow> 'w cstate \<Rightarrow> 'w cstate res option" where
  "reaper_loop c parent hdone k s =
     (if ctx_Err parent k \<noteq> None then Some (Inr s)
      else (case claimPending c parent (hdone k) 0 s of
              None \<Rightarrow> None
            | Some (Inl e) \<Rightarrow> Some (Inl e)
            | Some (Inr s') \<Rightarrow> reaper_loop c parent hdone (Suc k) s'))"

definition runReaper :: "'w Consumer \<Rightarrow> ctx \<Rightarrow> (nat \<Rightarrow> nat \<Rightarrow> nat option \<times> error) \<Rightarrow> 'w cstate \<Rightarrow> 'w cstate res option" where
  "runReaper c parent hdone s =
     (if cc_ReaperTimeout (conf c) \<le> 0 then Some (Inl (RuntimePanic ''non-positive interval for NewTicker''))
      else reaper_loop c parent hdone 0 s)"

section \<open>EnsureGroup\<close>

text \<open>\<open>strings.Contains\<close>, and \<open>Error()\<close> of a server's reply.\<close>

fun contains :: "string \<Rightarrow> string \<Rightarrow> bool" where
  "contains [] t = (t = [])"
| "contains (c # s) t = (take (length t) (c # s) = t \<or> contains s t)"

definition EnsureGroup ::
  "(error \<Rightarrow> string) \<Rightarrow> (string \<Rightarrow> string \<Rightarrow> string \<Rightarrow> 'w \<Rightarrow> error option \<times> 'w) \<Rightarrow> string \<Rightarrow> string \<Rightarrow> 'w \<Rightarrow> error option \<times> 'w" where
  "EnsureGroup text XGroupCreateMkStream stream grp w =
     (case XGroupCreateMkStream stream grp ''$'' w of
        (None, w') \<Rightarrow> (None, w')
      | (Some e, w') \<Rightarrow>
          if contains (text e) ''BUSYGROUP'' then (None, w')
          else (Some (Wrapped (''redisstream.EnsureGroup: stream='' @ stream @ '' group='' @ grp) e), w'))"


section \<open>Facts about process\<close>

lemma with_metrics_world [simp]: "world (with_metrics f s) = world s"
  by (simp add: with_metrics_def)

lemma with_metrics_comp: "metrics (with_metrics f s) = map_option f (metrics s)"
  by (simp add: with_metrics_def)

definition job_ctx :: "'w Consumer \<Rightarrow> ctx \<Rightarrow> nat option \<times> error \<Rightarrow> XMessage \<Rightarrow> ctx" where
  "job_ctx c parent hdone msg = handler_ctx hdone parent (decodeJobID c msg)"

lemma runHandler_world: "snd (runHandler c hctx w) = snd (handler c hctx w)"
  by (simp add: runHandler_def split: prod.splits option.splits)

lemma runHandler_failed: "fst (runHandler c hctx w) = None \<longleftrightarrow> fst (handler c hctx w) = None"
  by (simp add: runHandler_def split: prod.splits option.splits)

lemma runHandler_no_panic: "fst (runHandler c hctx w) = Some e \<Longrightarrow> \<not> is_panic e"
  by (auto simp: runHandler_def split: prod.splits option.splits if_splits)

lemma process_world:
  "world (process c parent hdone msg s) =
     snd (XAck (rdb c) (cc_Stream (conf c)) (cc_Group (conf c)) (X_ID msg)
       (snd (handler c (job_ctx c parent hdone msg) (world s))))"
  by (simp add: process_def job_ctx_def Let_def case_prod_beta runHandler_world)

lemma process_metrics:
  "metrics s = Some m \<Longrightarrow> \<exists>m'. metrics (process c parent hdone msg s) = Some m' \<and>
     CyclesInflight m' = CyclesInflight m \<and>
     CycleDuration m' = (CycleDuration m)(cc_CycleType (conf c) := Suc (CycleDuration m (cc_CycleType (conf c)))) \<and>
     (let key = (cc_CycleType (conf c),
          if fst (handler c (job_ctx c parent hdone msg) (world s)) = None then StatusOK else StatusError) in
      CyclesTotal m' = (CyclesTotal m)(key := Suc (CyclesTotal m key)))"
  by (simp add: process_def job_ctx_def Let_def case_prod_beta runHandler_failed with_metrics_comp
      add_inflight_def observe_cycle_def inc_redis_def with_metrics_def del: not_None_eq)

lemma process_metrics_None: "metrics (process c parent hdone msg s) = None \<longleftrightarrow> metrics s = None"
  by (simp add: process_def Let_def case_prod_beta with_metrics_comp)

lemma process_all_metrics_None: "metrics (process_all c parent hdone n ms s) = None \<longleftrightarrow> metrics s = None"
  by (induction ms arbitrary: n s) (simp_all add: process_metrics_None)

section \<open>Facts about the loops\<close>

text \<open>A worker whose context is cancelled at some point returns.\<close>

lemma worker_loop_returns:
  assumes "done_from parent = Some d"
  shows "\<exists>s'. worker_loop c parent hdone k n s = Some s'"
proof (induction "d - k" arbitrary: k n s rule: less_induct)
  case less
  show ?case
  proof (cases "ctx_Err parent k = None")
    case False
    then show ?thesis by (subst worker_loop.simps) simp
  next
    case True
    then have "k < d" using assms by (simp add: ctx_Err_def split: if_splits)
    then have next1: "\<exists>s'. worker_loop c parent hdone (Suc k) n' t = Some s'"
      and next2: "\<exists>s'. worker_loop c parent hdone (k + 2) n' t = Some s'" for n' t
      by (simp_all add: less)
    obtain r w where r: "XReadGroup (rdb c) (read_args c) (world s) = (r, w)" by fastforce
    show ?thesis
      by (subst worker_loop.simps) (use True r next1 next2 in \<open>auto simp: Let_def split: sum.splits\<close>)
  qed
qed

text \<open>A claim whose calls keep failing does not return.\<close>

lemma claim_loop_diverges:
  assumes "\<And>args w. \<exists>e. fst (XAutoClaim (rdb c) args w) = ([], '''', Some e)"
  shows "metrics s \<noteq> None \<Longrightarrow> claim_loop c parent hdone n cursor s = None"
proof -
  let ?P = "\<lambda>c' parent hdone n cursor s y. c' = c \<longrightarrow> metrics s = None"
  have step: "?P c' parent hdone n cursor s y"
    if IH: "\<And>c' parent hdone n cursor s y. loop c' parent hdone n cursor s = Some y \<Longrightarrow> ?P c' parent hdone n cursor s y"
      and body: "(case XAutoClaim (rdb c') (claim_args c' cursor) (world s) of ((jobs, start, err), w) \<Rightarrow>
        if err \<noteq> None \<and> metrics s = None then Some (Inl (RuntimePanic ''nil pointer dereference''))
        else (let s = s\<lparr>world := w\<rparr>; s = (if err \<noteq> None then with_metrics inc_redis s else s);
               s = process_all c' parent hdone n jobs s in
           if start = ''0-0'' then Some (Inr s) else loop c' parent hdone (n + length jobs) start s)) = Some y"
    for loop c' parent hdone n cursor s y
  proof (intro impI, rule ccontr)
    assume c: "c' = c" and m: "metrics s \<noteq> None"
    obtain e w where x: "XAutoClaim (rdb c) (claim_args c cursor) (world s) = (([], '''', Some e), w)"
      using assms [of "claim_args c cursor" "world s"] by (cases "XAutoClaim (rdb c) (claim_args c cursor) (world s)") auto
    with body c m have "loop c parent hdone n '''' (with_metrics inc_redis (s\<lparr>world := w\<rparr>)) = Some y"
      by (simp add: Let_def)
    from IH [OF this] m show False by (simp add: with_metrics_def)
  qed
  have "claim_loop c parent hdone n cursor s = Some y \<Longrightarrow> ?P c parent hdone n cursor s y" for y
    by (rule claim_loop.raw_induct [where P = ?P, rotated]) (assumption, rule step)
  then show "metrics s \<noteq> None \<Longrightarrow> claim_loop c parent hdone n cursor s = None"
    by (cases "claim_loop c parent hdone n cursor s") auto
qed

text \<open>A claim that meets no error and whose cursor advances towards the end returns.\<close>

lemma claim_loop_returns:
  fixes rest :: "string \<Rightarrow> nat"
  assumes "\<And>args w jobs start err w'. XAutoClaim (rdb c) args w = ((jobs, start, err), w') \<Longrightarrow>
      err = None \<and> (start = ''0-0'' \<or> rest start < rest (AC_Start args))"
  shows "\<exists>s'. claim_loop c parent hdone n cursor s = Some (Inr s')"
proof (induction "rest cursor" arbitrary: n cursor s rule: less_induct)
  case less
  obtain jobs start err w where x: "XAutoClaim (rdb c) (claim_args c cursor) (world s) = ((jobs, start, err), w)"
    by (cases "XAutoClaim (rdb c) (claim_args c cursor) (world s)") auto
  from assms [OF x] have *: "err = None" "start = ''0-0'' \<or> rest start < rest cursor" by (simp_all add: claim_args_def)
  show ?case
  proof (cases "start = ''0-0''")
    case True
    with x * show ?thesis by (subst claim_loop.simps) (simp add: Let_def)
  next
    case False
    with *(2) less have "\<exists>s'. claim_loop c parent hdone n' start t = Some (Inr s')" for n' t by blast
    with x *(1) False show ?thesis by (subst claim_loop.simps) (simp add: Let_def)
  qed
qed

section \<open>The contract of a cycle handler\<close>

text \<open>
  What the consumer and the back end rely on: a handler that returns no error has put exactly one
  result on the result stream, one that \<open>answers\<close> the context it ran in; one that returns an
  error has put none.  Then a trigger yields at most one result, and the status in the metrics
  tells which.
\<close>

locale cycle_handler =
  fixes h :: "ctx \<Rightarrow> 'w \<Rightarrow> error option \<times> 'w"
    and entries :: "'w \<Rightarrow> 'e list"
    and answers :: "ctx \<Rightarrow> 'e \<Rightarrow> bool"
  assumes one_result: "h c w = (None, w') \<Longrightarrow> \<exists>x. entries w' = entries w @ [x] \<and> answers c x"
    and no_result: "h c w = (Some e, w') \<Longrightarrow> entries w' = entries w"
begin

lemma process_entries:
  assumes "handler co = h" "\<And>s g i w. entries (snd (XAck (rdb co) s g i w)) = entries w"
  shows "if fst (h (job_ctx co parent hdone msg) (world s)) = None
     then \<exists>x. entries (world (process co parent hdone msg s)) = entries (world s) @ [x] \<and> answers (job_ctx co parent hdone msg) x
     else entries (world (process co parent hdone msg s)) = entries (world s)"
proof -
  obtain r w' where r: "h (job_ctx co parent hdone msg) (world s) = (r, w')" by fastforce
  then show ?thesis using assms one_result [of _ _ w'] no_result [of _ _ _ w']
    by (cases r) (auto simp: process_world)
qed

lemma process_all_entries:
  assumes "handler co = h" "\<And>s g i w. entries (snd (XAck (rdb co) s g i w)) = entries w"
  shows "\<exists>xs. entries (world (process_all co parent hdone n ms s)) = entries (world s) @ xs \<and> length xs \<le> length ms"
proof (induction ms arbitrary: n s)
  case (Cons m ms)
  let ?s = "process co parent (hdone n) m s"
  from Cons.IH obtain xs where xs: "entries (world (process_all co parent hdone (Suc n) ms ?s)) = entries (world ?s) @ xs"
    "length xs \<le> length ms" by blast
  from process_entries [OF assms, of parent "hdone n" m s] obtain ys
    where "entries (world ?s) = entries (world s) @ ys" "length ys \<le> 1"
    by (force split: if_splits)
  with xs show ?case by (intro exI [of _ "ys @ xs"]) simp
qed simp

end

section \<open>Properties\<close>

text \<open>
  Every message is acknowledged exactly once, after the handler and whatever it did: whether the
  handler succeeds, fails or panics, the state after \<open>process\<close> is that of one \<open>XACK\<close> of this
  message, on this stream and group, applied to what the handler left; the panic is turned into an
  error and does not leave \<open>runHandler\<close>.
\<close>

lemma process_acks:
  "world (process c parent hdone msg s) =
     snd (XAck (rdb c) (cc_Stream (conf c)) (cc_Group (conf c)) (X_ID msg)
       (snd (handler c (WithJobID (parent\<lparr>done_from := fst hdone, done_err := snd hdone\<rparr>) (decodeJobID c msg)) (world s)))) \<and>
   (case fst (runHandler c hctx w) of None \<Rightarrow> fst (handler c hctx w) = None
    | Some e \<Rightarrow> fst (handler c hctx w) \<noteq> None \<and> \<not> is_panic e)"
  using runHandler_failed [of c hctx w] runHandler_no_panic [of c hctx w]
  by (auto simp: process_world job_ctx_def handler_ctx_def split: option.split)

text \<open>
  The metrics of a message: the gauge of running cycles is back to its value, the duration is
  observed once, and exactly one of the counters \<open>ok\<close> and \<open>error\<close> of the cycle grows by one,
  the former exactly when the handler returned no error.
\<close>

lemma process_counts:
  assumes "metrics s = Some m"
  shows "\<exists>m'. metrics (process c parent hdone msg s) = Some m' \<and> CyclesInflight m' = CyclesInflight m \<and>
     CycleDuration m' = (CycleDuration m)(cc_CycleType (conf c) := Suc (CycleDuration m (cc_CycleType (conf c)))) \<and>
     (let key = (cc_CycleType (conf c),
          if fst (handler c (job_ctx c parent hdone msg) (world s)) = None then StatusOK else StatusError) in
      CyclesTotal m' = (CyclesTotal m)(key := Suc (CyclesTotal m key)))"
  using assms by (rule process_metrics)

definition sample_redis :: "string list Redis" where
  "sample_redis = \<lparr>XReadGroup = (\<lambda>a w. (Inl RedisNil, w)), XAck = (\<lambda>s g i w. (None, w @ [i])),
     XAutoClaim = (\<lambda>a w. (([], '''', Some (Err ''connection refused'')), w))\<rparr>"

definition sample_consumer :: "string list Consumer" where
  "sample_consumer = NewConsumer sample_redis (\<lambda>s. Inl (Err ''bad json''))
     \<lparr>cc_Stream = ''mtpa:cycle:scan_master'', cc_Group = ''mtpa'', cc_ConsumerID = ''agent-1'', cc_CycleType = CycleScanMaster,
      cc_Pool = 0, cc_Timeout = 0, cc_BlockMs = 0, cc_MinIdle = 15 * minute, cc_ReaperTimeout = 10 * minute\<rparr>
     (\<lambda>c w. (Some (RuntimePanic ''boom''), w))"

text \<open>
  A worker stops: whatever redis answers and whatever the handler does, the loop returns once
  the context is cancelled.
\<close>

lemma runWorker_returns: "done_from parent = Some d \<Longrightarrow> \<exists>s'. runWorker c parent hdone s = Some s'"
  unfolding runWorker_def by (rule worker_loop_returns)

text \<open>
  The reaper does not stop when redis fails: if \<open>XAUTOCLAIM\<close> keeps returning
  an error, which a cancelled context makes it do, \<open>claimPending\<close> never returns, since the error
  path neither leaves the loop nor looks at the context and the empty cursor is not the final one.
\<close>

lemma claimPending_hangs:
  assumes "\<And>args w. \<exists>e. fst (XAutoClaim (rdb c) args w) = ([], '''', Some e)" "metrics s \<noteq> None"
  shows "claimPending c parent hdone n s = None \<and>
     (0 < cc_ReaperTimeout (conf c) \<and> ctx_Err parent 0 = None \<longrightarrow> runReaper c parent (\<lambda>_. hdone) s = None)"
proof -
  have none: "claimPending c parent hdone k s = None" for k
    unfolding claimPending_def using assms by (rule claim_loop_diverges)
  then have "reaper_loop c parent (\<lambda>_. hdone) 0 s = None" if "ctx_Err parent 0 = None"
    using that by (subst reaper_loop.simps) simp
  with none show ?thesis by (simp add: runReaper_def)
qed

text \<open>
  A claim returns when redis answers without error and its cursor advances to the end of the
  pending list.
\<close>

lemma claimPending_returns:
  fixes rest :: "string \<Rightarrow> nat"
  assumes "\<And>args w jobs start err w'. XAutoClaim (rdb c) args w = ((jobs, start, err), w') \<Longrightarrow>
      err = None \<and> (start = ''0-0'' \<or> rest start < rest (AC_Start args))"
  shows "\<exists>s'. claimPending c parent hdone n s = Some (Inr s')"
  unfolding claimPending_def using assms by (rule claim_loop_returns)

end
