(* ===== verification/Consumer_Run.thy ===== *)
theory Consumer_Run
  imports Consumer
begin

text \<open>
  The goroutines of \<open>Consumer.Run\<close>: the reaper and \<open>pool\<close> workers of a consumer share one
  redis client, the metrics and whatever the handlers act on.  Each goroutine is a program counter;
  \<open>go_step\<close> is what it does between two points at which others can interleave (a call of redis,
  a run of the handler, an update of the metrics), following \<open>runWorker\<close>, \<open>process\<close>,
  \<open>runReaper\<close> and \<open>claimPending\<close>.  \<open>run_step\<close> lets any goroutine of a list move, and
  adds the cancellation of the context, steps of the environment (triggers arrive, time passes) and
  the loss of the process followed by a restart.  A list may hold the goroutines of several
  consumers, which is what \<open>MustRun\<close> starts.
\<close>

section \<open>Program counters\<close>

text \<open>What a goroutine does when the messages of a reply are processed: a worker reads again, the
  reaper looks at the cursor of the reply.\<close>

datatype kont = ToWorker | ToReaper string

datatype pc =
    WTop
  | WPause
  | RStart
  | RWait
  | RClaim string
  | Proc kont "XMessage list"
  | Handling kont XMessage "XMessage list"
  | Acking kont XMessage "XMessage list"
  | Returned
  | Panicked

primrec resume :: "kont \<Rightarrow> pc" where
  "resume ToWorker = WTop"
| "resume (ToReaper start) = (if start = ''0-0'' then RWait else RClaim start)"

datatype label = Read | Pause | Start | Tick | Claim | Begin | Handle | Ack | Next | Stop | Panic

type_synonym group_key = "string \<times> string"
type_synonym log = "(group_key \<times> string) list"

definition key_of :: "'w Consumer \<Rightarrow> group_key" where
  "key_of c = (cc_Stream (conf c), cc_Group (conf c))"

section \<open>One goroutine\<close>

text \<open>
  \<open>fin\<close> says that the context is cancelled.  The log is a ghost: the messages on which a handler
  ran, with their stream and group.  In \<open>read\<close> and \<open>stop\<close> the test \<open>ctx.Err()\<close> decides; the
  \<open>select\<close> statements of the pause and of the reaper may take the timer although the context is
  done.
\<close>

inductive go_step ::
  "ctx \<Rightarrow> 'w Consumer \<Rightarrow> bool \<Rightarrow> pc \<times> 'w cstate \<times> log \<Rightarrow> label \<Rightarrow> pc \<times> 'w cstate \<times> log \<Rightarrow> bool"
  for parent :: ctx and c :: "'w Consumer" and fin :: bool where
  read: "\<not> fin \<Longrightarrow> XReadGroup (rdb c) (read_args c) (world s) = (Inr streams, w) \<Longrightarrow>
     go_step parent c fin (WTop, s, h) Read (Proc ToWorker (concat streams), s\<lparr>world := w\<rparr>, h)"
| read_none: "\<not> fin \<Longrightarrow> XReadGroup (rdb c) (read_args c) (world s) = (Inl e, w) \<Longrightarrow>
     errors_Is e RedisNil \<or> errors_Is e Canceled \<Longrightarrow>
     go_step parent c fin (WTop, s, h) Read (WTop, s\<lparr>world := w\<rparr>, h)"
| read_fails: "\<not> fin \<Longrightarrow> XReadGroup (rdb c) (read_args c) (world s) = (Inl e, w) \<Longrightarrow>
     \<not> (errors_Is e RedisNil \<or> errors_Is e Canceled) \<Longrightarrow>
     go_step parent c fin (WTop, s, h) Read (WPause, with_metrics inc_redis (s\<lparr>world := w\<rparr>), h)"
| pause: "go_step parent c fin (WPause, s, h) Pause (WTop, s, h)"
| pause_stop: "fin \<Longrightarrow> go_step parent c fin (WPause, s, h) Stop (Returned, s, h)"
| stop: "fin \<Longrightarrow> go_step parent c fin (WTop, s, h) Stop (Returned, s, h)"
| reaper_start: "0 < cc_ReaperTimeout (conf c) \<Longrightarrow> go_step parent c fin (RStart, s, h) Start (RWait, s, h)"
| ticker_panics: "cc_ReaperTimeout (conf c) \<le> 0 \<Longrightarrow> go_step parent c fin (RStart, s, h) Panic (Panicked, s, h)"
| tick: "go_step parent c fin (RWait, s, h) Tick (RClaim ''0-0'', s, h)"
| reaper_stop: "fin \<Longrightarrow> go_step parent c fin (RWait, s, h) Stop (Returned, s, h)"
| claim: "XAutoClaim (rdb c) (claim_args c cursor) (world s) = ((jobs, start, err), w) \<Longrightarrow>
     err = None \<or> metrics s \<noteq> None \<Longrightarrow>
     s' = (if err \<noteq> None then with_metrics inc_redis (s\<lparr>world := w\<rparr>) else s\<lparr>world := w\<rparr>) \<Longrightarrow>
     go_step parent c fin (RClaim cursor, s, h) Claim (Proc (ToReaper start) jobs, s', h)"
| claim_panics: "XAutoClaim (rdb c) (claim_args c cursor) (world s) = ((jobs, start, Some e), w) \<Longrightarrow>
     metrics s = None \<Longrightarrow> go_step parent c fin (RClaim cursor, s, h) Panic (Panicked, s\<lparr>world := w\<rparr>, h)"
| begin_msg: "go_step parent c fin (Proc k (m # ms), s, h) Begin
     (Handling k m ms, with_metrics (add_inflight (cc_CycleType (conf c)) 1) s, h)"
| handle: "runHandler c (handler_ctx hdone parent (decodeJobID c m)) (world s) = (err, w) \<Longrightarrow>
     go_step parent c fin (Handling k m ms, s, h) Handle
       (Acking k m ms,
        with_metrics (observe_cycle (cc_CycleType (conf c)) (if err \<noteq> None then StatusError else StatusOK)) (s\<lparr>world := w\<rparr>),
        h @ [(key_of c, X_ID m)])"
| ack: "XAck (rdb c) (cc_Stream (conf c)) (cc_Group (conf c)) (X_ID m) (world s) = (ackErr, w) \<Longrightarrow>
     s' = (if ackErr \<noteq> None then with_metrics inc_redis (s\<lparr>world := w\<rparr>) else s\<lparr>world := w\<rparr>) \<Longrightarrow>
     go_step parent c fin (Acking k m ms, s, h) Ack
       (Proc k ms, with_metrics (add_inflight (cc_CycleType (conf c)) (-1)) s', h)"
| continue: "go_step parent c fin (Proc k [], s, h) Next (resume k, s, h)"

inductive_cases go_stepE: "go_step parent c fin (p, s, h) l (p', s', h')"
inductive_cases go_returnedE: "go_step parent c fin (Returned, s, h) l q"

inductive_simps go_step_Begin: "go_step parent c fin (Proc k (m # ms), s, h) l q"

section \<open>The goroutines together\<close>

type_synonym 'w thread = "'w Consumer \<times> pc"

record 'w rstate =
  r_threads :: "'w thread list"
  r_state :: "'w cstate"
  r_log :: log
  r_cancelled :: bool

text \<open>The goroutines that \<open>Consumer.Run\<close> starts.\<close>

definition Run_threads :: "'w Consumer \<Rightarrow> 'w thread list" where
  "Run_threads c = (c, RStart) # replicate (nat (cc_Pool (conf c))) (c, WTop)"

definition run_init :: "'w thread list \<Rightarrow> 'w cstate \<Rightarrow> 'w rstate" where
  "run_init ts s = \<lparr>r_threads = ts, r_state = s, r_log = [], r_cancelled = False\<rparr>"

text \<open>A panic in a goroutine of \<open>Run\<close> ends the process: no goroutine moves any more.\<close>

definition alive :: "'w rstate \<Rightarrow> bool" where
  "alive s \<longleftrightarrow> Panicked \<notin> snd ` set (r_threads s)"

definition all_returned :: "'w rstate \<Rightarrow> bool" where
  "all_returned s \<longleftrightarrow> (\<forall>t \<in> set (r_threads s). snd t = Returned)"

datatype event = Go nat label | Cancel | Restart | Environ

inductive run_step ::
  "ctx \<Rightarrow> ('w \<Rightarrow> 'w \<Rightarrow> bool) \<Rightarrow> 'w thread list \<Rightarrow> 'w rstate \<Rightarrow> event \<Rightarrow> 'w rstate \<Rightarrow> bool"
  for parent :: ctx and env :: "'w \<Rightarrow> 'w \<Rightarrow> bool" and ts :: "'w thread list" where
  go: "alive s \<Longrightarrow> i < length (r_threads s) \<Longrightarrow> r_threads s ! i = (c, p) \<Longrightarrow>
     go_step parent c (r_cancelled s) (p, r_state s, r_log s) l (p', st, h) \<Longrightarrow>
     run_step parent env ts s (Go i l) (s\<lparr>r_threads := (r_threads s)[i := (c, p')], r_state := st, r_log := h\<rparr>)"
| cancel: "run_step parent env ts s Cancel (s\<lparr>r_cancelled := True\<rparr>)"
| restart: "run_step parent env ts s Restart
     (s\<lparr>r_threads := ts, r_state := (r_state s)\<lparr>metrics := map_option (\<lambda>_. NewMetrics) (metrics (r_state s))\<rparr>, r_cancelled := False\<rparr>)"
| environ: "env (world (r_state s)) w \<Longrightarrow>
     run_step parent env ts s Environ (s\<lparr>r_state := (r_state s)\<lparr>world := w\<rparr>\<rparr>)"

inductive_cases run_goE: "run_step parent env ts s (Go i l) t"
inductive_simps run_step_simps: "run_step parent env ts s Cancel t" "run_step parent env ts s Restart t" "run_step parent env ts s Environ t"

inductive run ::
  "ctx \<Rightarrow> ('w \<Rightarrow> 'w \<Rightarrow> bool) \<Rightarrow> 'w thread list \<Rightarrow> 'w rstate \<Rightarrow> event list \<Rightarrow> 'w rstate \<Rightarrow> bool"
  for parent :: ctx and env :: "'w \<Rightarrow> 'w \<Rightarrow> bool" and ts :: "'w thread list" where
  Nil: "run parent env ts s [] s"
| Cons: "run_step parent env ts s e t \<Longrightarrow> run parent env ts t es u \<Longrightarrow> run parent env ts s (e # es) u"

lemma run_append: "run parent env ts s es t \<Longrightarrow> run parent env ts t fs u \<Longrightarrow> run parent env ts s (es @ fs) u"
  by (induction rule: run.induct) (auto intro: run.Cons)

text \<open>A predicate of the world that the redis client and the handler of a consumer keep holds in every
  state that its goroutines reach, a restart included.\<close>

definition consumer_keeps :: "('w \<Rightarrow> bool) \<Rightarrow> 'w Consumer \<Rightarrow> bool" where
  "consumer_keeps P c \<longleftrightarrow> (\<forall>w. P w \<longrightarrow> (\<forall>args. P (snd (XReadGroup (rdb c) args w))) \<and> (\<forall>s g i. P (snd (XAck (rdb c) s g i w))) \<and>
     (\<forall>args. P (snd (XAutoClaim (rdb c) args w))) \<and> (\<forall>hctx. P (snd (handler c hctx w))))"

lemma consumer_keepsD:
  assumes "consumer_keeps P c" "P w"
  shows "XReadGroup (rdb c) args w = (x, w') \<Longrightarrow> P w'" "XAck (rdb c) st g i w = (y, w') \<Longrightarrow> P w'"
    "XAutoClaim (rdb c) cargs w = (z, w') \<Longrightarrow> P w'" "runHandler c hctx w = (err, w') \<Longrightarrow> P w'"
  using assms runHandler_world [of c hctx w] unfolding consumer_keeps_def by (metis snd_conv)+

lemma go_step_keeps:
  assumes "go_step parent c fin (p, s, h) l (p', s', h')" "consumer_keeps P c" "P (world s)"
  shows "P (world s')"
  using assms(1)
  by (cases rule: go_step.cases) (auto simp: with_metrics_def assms(3) dest: consumer_keepsD [OF assms(2,3)])

lemma run_keeps_world:
  assumes "run parent env ts s es t" "\<forall>x \<in> set ts \<union> set (r_threads s). consumer_keeps P (fst x)"
    and "\<And>w w'. env w w' \<Longrightarrow> P w \<Longrightarrow> P w'" "P (world (r_state s))"
  shows "P (world (r_state t))"
  using assms(1,2,4)
proof (induction rule: run.induct)
  case (Cons s e t es u)
  from Cons.hyps(1) have "P (world (r_state t)) \<and> (\<forall>x \<in> set ts \<union> set (r_threads t). consumer_keeps P (fst x))"
  proof (cases rule: run_step.cases)
    case (go i c p l p' st h)
    then have "consumer_keeps P c" using Cons.prems(1) by (metis UnI2 fst_conv nth_mem)
    with go Cons.prems go_step_keeps [OF go(6)] show ?thesis
      using set_update_subset_insert [of "r_threads s" i "(c, p')"] by auto
  qed (use Cons.prems assms(3) in auto)
  with Cons.IH show ?case by blast
qed

lemma run_one: "run_step parent env ts s e t \<Longrightarrow> run parent env ts s [e] t"
  by (rule run.Cons [OF _ run.Nil])

lemma run_snoc: "run parent env ts s es t \<Longrightarrow> run_step parent env ts t e u \<Longrightarrow> run parent env ts s (es @ [e]) u"
  by (rule run_append [OF _ run_one])

lemma run_invariant:
  assumes "run parent env ts s es t" "P s"
    and "\<And>s e t. P s \<Longrightarrow> run_step parent env ts s e t \<Longrightarrow> P t"
  shows "P t"
  using assms(1,2) by (induction rule: run.induct) (auto intro: assms(3))

section \<open>One goroutine moves on its own\<close>

inductive go_run ::
  "ctx \<Rightarrow> 'w Consumer \<Rightarrow> bool \<Rightarrow> pc \<times> 'w cstate \<times> log \<Rightarrow> label list \<Rightarrow> pc \<times> 'w cstate \<times> log \<Rightarrow> bool"
  for parent :: ctx and c :: "'w Consumer" and fin :: bool where
  go_Nil: "go_run parent c fin q [] q"
| go_Cons: "go_step parent c fin q l q' \<Longrightarrow> go_run parent c fin q' ls q'' \<Longrightarrow> go_run parent c fin q (l # ls) q''"

lemma go_run_append: "go_run parent c fin q ls q' \<Longrightarrow> go_run parent c fin q' ms q'' \<Longrightarrow> go_run parent c fin q (ls @ ms) q''"
  by (induction rule: go_run.induct) (auto intro: go_Cons)

lemma go_run_one: "go_step parent c fin q l q' \<Longrightarrow> go_run parent c fin q [l] q'"
  by (rule go_Cons [OF _ go_Nil])

lemma go_run_panicked: "go_run parent c fin q ls q' \<Longrightarrow> fst q = Panicked \<Longrightarrow> q' = q"
  by (induction rule: go_run.induct) (auto elim: go_step.cases)

definition at_thread :: "'w rstate \<Rightarrow> nat \<Rightarrow> pc \<times> 'w cstate \<times> log \<Rightarrow> 'w rstate" where
  "at_thread s i = (\<lambda>(p, st, h). s\<lparr>r_threads := (r_threads s)[i := (fst (r_threads s ! i), p)], r_state := st, r_log := h\<rparr>)"

lemma at_thread_self: "i < length (r_threads s) \<Longrightarrow> at_thread s i (snd (r_threads s ! i), r_state s, r_log s) = s"
  by (simp add: at_thread_def)

lemma at_thread_twice [simp]: "i < length (r_threads s) \<Longrightarrow> at_thread (at_thread s i q) i q' = at_thread s i q'"
  by (simp add: at_thread_def split: prod.split)

lemma at_thread_sel [simp]:
  "r_state (at_thread s i (p, st, h)) = st" "r_log (at_thread s i (p, st, h)) = h"
  "r_cancelled (at_thread s i q) = r_cancelled s"
  "length (r_threads (at_thread s i q)) = length (r_threads s)"
  "i < length (r_threads s) \<Longrightarrow> r_threads (at_thread s i (p, st, h)) ! i = (fst (r_threads s ! i), p)"
  "r_threads (at_thread s i (p, st, h)) = (r_threads s)[i := (fst (r_threads s ! i), p)]"
  by (simp_all add: at_thread_def split: prod.split)

lemma run_step_go:
  assumes "alive s" "i < length (r_threads s)" "r_threads s ! i = (c, p)"
    and "go_step parent c (r_cancelled s) (p, r_state s, r_log s) l q"
  shows "run_step parent env ts s (Go i l) (at_thread s i q)"
proof -
  obtain p' st h where q: "q = (p', st, h)" by (cases q)
  from run_step.go [OF assms [unfolded q]] assms(3) show ?thesis by (simp add: at_thread_def q)
qed

lemma run_step_goD:
  assumes "run_step parent env ts s (Go i l) t"
  obtains c p q where "alive s" "i < length (r_threads s)" "r_threads s ! i = (c, p)"
    "go_step parent c (r_cancelled s) (p, r_state s, r_log s) l q" "t = at_thread s i q"
  using assms
proof (cases rule: run_step.cases)
  case (go c p p' st h)
  then show ?thesis by (intro that [of c p "(p', st, h)"]) (simp_all add: at_thread_def)
qed

lemma alive_at_thread:
  "alive s \<Longrightarrow> i < length (r_threads s) \<Longrightarrow> alive (at_thread s i (p, st, h)) \<longleftrightarrow> p \<noteq> Panicked"
proof -
  assume "alive s" and i: "i < length (r_threads s)"
  moreover have "(fst (r_threads s ! i), p) \<in> set ((r_threads s)[i := (fst (r_threads s ! i), p)])"
    using i by (rule set_update_memI)
  moreover have "set ((r_threads s)[i := (fst (r_threads s ! i), p)]) \<subseteq> insert (fst (r_threads s ! i), p) (set (r_threads s))"
    by (rule set_update_subset_insert)
  ultimately show ?thesis by (force simp: alive_def image_iff)
qed

lemma go_run_lift:
  assumes "go_run parent c fin q ls q'" "q = (snd (r_threads s ! i), r_state s, r_log s)" "fin = r_cancelled s"
    and "alive s" "i < length (r_threads s)" "fst (r_threads s ! i) = c"
  shows "run parent env ts s (map (Go i) ls) (at_thread s i q')"
  using assms
proof (induction arbitrary: s rule: go_run.induct)
  case (go_Nil q)
  then show ?case by (auto simp: at_thread_self intro: run.Nil)
next
  case (go_Cons q l q1 ls q2)
  let ?t = "at_thread s i q1"
  obtain p st h where q1: "q1 = (p, st, h)" by (cases q1)
  have step: "run_step parent env ts s (Go i l) ?t"
    using go_Cons by (intro run_step_go [of _ _ c "snd (r_threads s ! i)"]) (auto simp: prod_eq_iff)
  show ?case
  proof (cases "p = Panicked")
    case True
    then have "q2 = q1" "ls = []" using go_Cons.hyps(2) q1 by (auto elim: go_run.cases go_step.cases)
    with step show ?thesis by (auto intro: run_one)
  next
    case False
    then have "alive ?t" using go_Cons q1 alive_at_thread [of s i p st h] by simp
    then have "run parent env ts ?t (map (Go i) ls) (at_thread ?t i q2)"
      using go_Cons q1 by (intro go_Cons.IH) auto
    with step go_Cons show ?thesis by (auto intro: run.Cons)
  qed
qed

text \<open>The sequential model is what a goroutine does undisturbed: \<open>process\<close> is its three steps.\<close>

lemma process_go:
  "go_run parent c fin (Proc k (m # ms), s, h) [Begin, Handle, Ack] (Proc k ms, process c parent hdone m s, h @ [(key_of c, X_ID m)])"
proof -
  let ?cy = "cc_CycleType (conf c)"
  let ?s1 = "with_metrics (add_inflight ?cy 1) s"
  obtain err w where hd: "runHandler c (handler_ctx hdone parent (decodeJobID c m)) (world ?s1) = (err, w)" by fastforce
  let ?s2 = "with_metrics (observe_cycle ?cy (if err \<noteq> None then StatusError else StatusOK)) (?s1\<lparr>world := w\<rparr>)"
  obtain ae w' where ak: "XAck (rdb c) (cc_Stream (conf c)) (cc_Group (conf c)) (X_ID m) (world ?s2) = (ae, w')" by fastforce
  let ?s3 = "if ae \<noteq> None then with_metrics inc_redis (?s2\<lparr>world := w'\<rparr>) else ?s2\<lparr>world := w'\<rparr>"
  have p: "process c parent hdone m s = with_metrics (add_inflight ?cy (-1)) ?s3"
    using hd ak by (simp only: process_def Let_def split prod.case)
  show ?thesis unfolding p
    by (intro go_Cons [OF begin_msg] go_Cons [OF handle [OF hd]] go_run_one ack [OF ak] refl)
qed

lemma process_all_go:
  "\<exists>ls. go_run parent c fin (Proc k ms, s, h) ls
     (Proc k [], process_all c parent hdone n ms s, h @ map (\<lambda>m. (key_of c, X_ID m)) ms)"
proof (induction ms arbitrary: n s h)
  case (Cons m ms)
  from Cons.IH [of "process c parent (hdone n) m s" "h @ [(key_of c, X_ID m)]" "Suc n"] obtain ls
    where "go_run parent c fin (Proc k ms, process c parent (hdone n) m s, h @ [(key_of c, X_ID m)]) ls
       (Proc k [], process_all c parent hdone (Suc n) ms (process c parent (hdone n) m s),
        (h @ [(key_of c, X_ID m)]) @ map (\<lambda>m. (key_of c, X_ID m)) ms)" by blast
  then show ?case using go_run_append [OF process_go [of parent c fin k m ms s h "hdone n"]] by fastforce
qed (auto intro: go_Nil)

section \<open>The gauge of running cycles\<close>

primrec is_busy :: "pc \<Rightarrow> bool" where
  "is_busy WTop = False"
| "is_busy WPause = False"
| "is_busy RStart = False"
| "is_busy RWait = False"
| "is_busy (RClaim _) = False"
| "is_busy (Proc _ _) = False"
| "is_busy (Handling _ _ _) = True"
| "is_busy (Acking _ _ _) = True"
| "is_busy Returned = False"
| "is_busy Panicked = False"

lemma resume_not_busy [simp]: "\<not> is_busy (resume k)"
  by (cases k) simp_all

definition busy :: "string \<Rightarrow> 'w thread \<Rightarrow> int" where
  "busy cy t = (if cc_CycleType (conf (fst t)) = cy \<and> is_busy (snd t) then 1 else 0)"

definition running_cycles :: "string \<Rightarrow> 'w rstate \<Rightarrow> int" where
  "running_cycles cy s = sum_list (map (busy cy) (r_threads s))"

lemma sum_list_map_update:
  fixes f :: "'a \<Rightarrow> int"
  shows "i < length xs \<Longrightarrow> sum_list (map f (xs[i := y])) = sum_list (map f xs) + f y - f (xs ! i)"
  by (induction xs arbitrary: i) (auto split: nat.split simp: nth_Cons)

lemma running_at_thread:
  "i < length (r_threads s) \<Longrightarrow> r_threads s ! i = (c, p) \<Longrightarrow>
     running_cycles cy (at_thread s i (p', st, h)) = running_cycles cy s + busy cy (c, p') - busy cy (c, p)"
  by (simp add: running_cycles_def sum_list_map_update)

lemma go_step_gauge:
  assumes "go_step parent c fin (p, s, h) l (p', s', h')" "metrics s = Some m"
  shows "\<exists>m'. metrics s' = Some m' \<and> CyclesInflight m' cy = CyclesInflight m cy + busy cy (c, p') - busy cy (c, p)"
  using assms by (cases rule: go_step.cases)
    (auto simp: with_metrics_def busy_def add_inflight_def observe_cycle_def inc_redis_def)

lemma go_step_metrics_None:
  "go_step parent c fin (p, s, h) l (p', s', h') \<Longrightarrow> metrics s = None \<Longrightarrow> metrics s' = None"
  by (auto elim!: go_stepE simp: with_metrics_def)

definition idle_threads :: "'w thread list \<Rightarrow> bool" where
  "idle_threads ts \<longleftrightarrow> (\<forall>t \<in> set ts. \<not> is_busy (snd t))"

lemma idle_running: "idle_threads ts \<Longrightarrow> sum_list (map (busy cy) ts) = 0"
  by (induction ts) (auto simp: idle_threads_def busy_def)

lemma idle_Run_threads [simp]: "idle_threads (concat (map Run_threads cs))"
  by (auto simp: idle_threads_def Run_threads_def)

definition gauge_inv :: "'w thread list \<Rightarrow> 'w rstate \<Rightarrow> bool" where
  "gauge_inv ts s \<longleftrightarrow> map fst (r_threads s) = map fst ts \<and>
     (\<forall>m cy. metrics (r_state s) = Some m \<longrightarrow> CyclesInflight m cy = running_cycles cy s)"

lemma gauge_inv_step:
  assumes "idle_threads ts" "gauge_inv ts s" "run_step parent env ts s e t"
  shows "gauge_inv ts t"
  using assms(3)
proof (cases rule: run_step.cases)
  case (go i c p l p' st h)
  have "map fst ((r_threads s)[i := (c, p')]) = map fst (r_threads s)"
    using go(4,5) by (simp add: map_update list_update_same_conv)
  moreover have "CyclesInflight m cy = running_cycles cy t" if "metrics st = Some m" for m cy
  proof -
    from that go(6) obtain m0 where m0: "metrics (r_state s) = Some m0"
      using go_step_metrics_None by (cases "metrics (r_state s)") fastforce+
    with go_step_gauge [OF go(6) m0, of cy] that
    have "CyclesInflight m cy = CyclesInflight m0 cy + busy cy (c, p') - busy cy (c, p)" by simp
    moreover have "running_cycles cy t = running_cycles cy s + busy cy (c, p') - busy cy (c, p)"
      using go by (simp add: running_cycles_def sum_list_map_update)
    ultimately show ?thesis using assms(2) m0 by (simp add: gauge_inv_def)
  qed
  ultimately show ?thesis using assms(2) go(2) by (simp add: gauge_inv_def)
next
  case restart
  with assms(1) show ?thesis by (auto simp: gauge_inv_def running_cycles_def idle_running NewMetrics_def)
qed (use assms(2) in \<open>auto simp: gauge_inv_def running_cycles_def\<close>)

lemma running_bounds:
  assumes "map fst (r_threads s) = map fst ts"
  shows "0 \<le> running_cycles cy s \<and> running_cycles cy s \<le> int (length (filter (\<lambda>t. cc_CycleType (conf (fst t)) = cy) ts))"
proof -
  have "0 \<le> sum_list (map (busy cy) us) \<and> sum_list (map (busy cy) us) \<le> int (length (filter (\<lambda>c. cc_CycleType (conf c) = cy) (map fst us)))" for us
    by (induction us) (auto simp: busy_def)
  from this [of "r_threads s"] show ?thesis
    unfolding running_cycles_def assms by (simp add: filter_map comp_def)
qed

lemma count_Run_threads:
  "length (filter (\<lambda>t. cc_CycleType (conf (fst t)) = cy) (Run_threads c)) = (if cc_CycleType (conf c) = cy then Suc (nat (cc_Pool (conf c))) else 0)"
  by (auto simp: Run_threads_def)

lemma count_all_threads:
  assumes "distinct (map (\<lambda>c. cc_CycleType (conf c)) cs)" "c \<in> set cs"
  shows "length (filter (\<lambda>t. cc_CycleType (conf (fst t)) = cc_CycleType (conf c)) (concat (map Run_threads cs))) = Suc (nat (cc_Pool (conf c)))"
  using assms
proof (induction cs)
  case (Cons d cs)
  have none: "filter (\<lambda>t. cc_CycleType (conf (fst t)) = cy) (concat (map Run_threads cs)) = []"
    if "cy \<notin> (\<lambda>c. cc_CycleType (conf c)) ` set cs" for cy
    using that by (force simp: filter_empty_conv Run_threads_def)
  show ?case
  proof (cases "c = d")
    case True
    with Cons.prems(1) none show ?thesis by (simp add: count_Run_threads)
  next
    case False
    with Cons show ?thesis by (auto simp: count_Run_threads)
  qed
qed simp

section \<open>No trigger is lost\<close>

text \<open>
  What the consumers rely on of a consumer group: a trigger that is \<open>waiting\<close> in the stream
  becomes \<open>pending\<close> when it is delivered, with or without an answer reaching the client, and
  leaves the pending entries only by an acknowledgement of its id.
\<close>

locale stream_group =
  fixes r :: "'w Redis" and waiting pending :: "'w \<Rightarrow> group_key \<Rightarrow> string set"
  assumes read_keeps: "XReadGroup r args w = (res, w') \<Longrightarrow>
      pending w k \<subseteq> pending w' k \<and> waiting w k \<subseteq> waiting w' k \<union> pending w' k"
    and claim_keeps: "XAutoClaim r cargs w = (cres, w') \<Longrightarrow>
      pending w k \<subseteq> pending w' k \<and> waiting w k \<subseteq> waiting w' k \<union> pending w' k"
    and ack_keeps: "XAck r s g i w = (x, w') \<Longrightarrow>
      pending w k - (if k = (s, g) then {i} else {}) \<subseteq> pending w' k \<and> waiting w k \<subseteq> waiting w' k \<union> pending w' k"

text \<open>A consumer on that server whose handler leaves the group alone, and an environment that takes
  no trigger away.\<close>

definition on_group :: "'w Redis \<Rightarrow> ('w \<Rightarrow> group_key \<Rightarrow> string set) \<Rightarrow> ('w \<Rightarrow> group_key \<Rightarrow> string set) \<Rightarrow> 'w Consumer \<Rightarrow> bool" where
  "on_group r waiting pending c \<longleftrightarrow> rdb c = r \<and>
     (\<forall>hctx w. waiting (snd (handler c hctx w)) = waiting w \<and> pending (snd (handler c hctx w)) = pending w)"

definition keeps_triggers :: "('w \<Rightarrow> group_key \<Rightarrow> string set) \<Rightarrow> ('w \<Rightarrow> group_key \<Rightarrow> string set) \<Rightarrow> ('w \<Rightarrow> 'w \<Rightarrow> bool) \<Rightarrow> bool" where
  "keeps_triggers waiting pending env \<longleftrightarrow>
     (\<forall>w w' k. env w w' \<longrightarrow> pending w k \<subseteq> pending w' k \<and> waiting w k \<subseteq> waiting w' k \<union> pending w' k)"

definition acks_handled :: "'w thread list \<Rightarrow> log \<Rightarrow> bool" where
  "acks_handled ts h \<longleftrightarrow> (\<forall>(c, p) \<in> set ts. case p of Acking k m ms \<Rightarrow> (key_of c, X_ID m) \<in> set h | _ \<Rightarrow> True)"

lemma acks_handled_mono: "acks_handled ts h \<Longrightarrow> acks_handled ts (h @ h')"
  by (auto simp: acks_handled_def split: pc.splits)

lemma acks_handled_update:
  assumes "acks_handled ts h" "case p of Acking k m ms \<Rightarrow> (key_of c, X_ID m) \<in> set h | _ \<Rightarrow> True"
  shows "acks_handled (ts[i := (c, p)]) h"
  using assms set_update_subset_insert [of ts i "(c, p)"] unfolding acks_handled_def by fast

lemma idle_acks_handled: "idle_threads ts \<Longrightarrow> acks_handled ts h"
  by (force simp: idle_threads_def acks_handled_def split: pc.splits)

lemma resume_case: "case resume k of Acking k' m ms \<Rightarrow> P k' m ms | _ \<Rightarrow> True"
  by (cases k) simp_all

lemma acks_handled_step:
  assumes "go_step parent c fin (p, s, h) l (p', s', h')" "acks_handled ts h" "(c, p) \<in> set ts"
  shows "acks_handled (ts[i := (c, p')]) h'"
proof -
  obtain x where h': "h' = h @ x" using assms(1) by (cases rule: go_step.cases) auto
  have "case p' of Acking k m ms \<Rightarrow> (key_of c, X_ID m) \<in> set h' | _ \<Rightarrow> True"
    using assms(1) by (cases rule: go_step.cases) (simp_all add: resume_case)
  with assms(2) show ?thesis unfolding h' by (intro acks_handled_update acks_handled_mono)
qed

definition covered :: "('w \<Rightarrow> group_key \<Rightarrow> string set) \<Rightarrow> ('w \<Rightarrow> group_key \<Rightarrow> string set) \<Rightarrow> 'w \<Rightarrow> log \<Rightarrow> group_key \<Rightarrow> string set" where
  "covered waiting pending w h k = waiting w k \<union> pending w k \<union> {i. (k, i) \<in> set h}"

context stream_group
begin

lemma go_step_covered:
  assumes "go_step parent c fin (p, s, h) l (p', s', h')" "on_group r waiting pending c"
    and "case p of Acking k m ms \<Rightarrow> (key_of c, X_ID m) \<in> set h | _ \<Rightarrow> True"
  shows "covered waiting pending (world s) h k \<subseteq> covered waiting pending (world s') h' k"
proof -
  have r: "rdb c = r" using assms(2) by (simp add: on_group_def)
  have hd: "waiting w = waiting (world s) \<and> pending w = pending (world s)" if "runHandler c hctx (world s) = (err, w)" for hctx err w
    using that runHandler_world [of c hctx "world s"] assms(2) by (simp add: on_group_def)
  show ?thesis
    using assms(1)
  proof (cases rule: go_step.cases)
    case (read streams w)
    then show ?thesis using read_keeps [of "read_args c" "world s" "Inr streams" w k] r by (auto simp: covered_def)
  next
    case (read_none e w)
    then show ?thesis using read_keeps [of "read_args c" "world s" "Inl e" w k] r by (auto simp: covered_def)
  next
    case (read_fails e w)
    then show ?thesis using read_keeps [of "read_args c" "world s" "Inl e" w k] r by (auto simp: covered_def with_metrics_def)
  next
    case (claim cursor jobs start err w)
    then show ?thesis using claim_keeps [of "claim_args c cursor" "world s" "(jobs, start, err)" w k] r
      by (auto simp: covered_def with_metrics_def)
  next
    case (claim_panics cursor jobs start e w)
    then show ?thesis using claim_keeps [of "claim_args c cursor" "world s" "(jobs, start, Some e)" w k] r
      by (auto simp: covered_def)
  next
    case (handle hdone m err w k' ms)
    then show ?thesis using hd by (auto simp: covered_def with_metrics_def)
  next
    case (ack m ackErr w s1 k' ms)
    then show ?thesis using ack_keeps [of _ _ _ "world s" ackErr w k] r assms(3)
      by (fastforce simp: covered_def with_metrics_def key_of_def split: if_splits)
  qed (auto simp: covered_def with_metrics_def)
qed

lemma run_step_covered:
  assumes "run_step parent env ts s e t" "acks_handled (r_threads s) (r_log s)" "idle_threads ts"
    and "\<forall>x \<in> set (r_threads s). on_group r waiting pending (fst x)" "keeps_triggers waiting pending env"
  shows "acks_handled (r_threads t) (r_log t) \<and>
     covered waiting pending (world (r_state s)) (r_log s) k \<subseteq> covered waiting pending (world (r_state t)) (r_log t) k"
  using assms(1)
proof (cases rule: run_step.cases)
  case (go i c p l p' st h)
  then have mem: "(c, p) \<in> set (r_threads s)" by (metis nth_mem)
  with assms(2) have "case p of Acking k m ms \<Rightarrow> (key_of c, X_ID m) \<in> set (r_log s) | _ \<Rightarrow> True"
    unfolding acks_handled_def by blast
  with go assms(2,4) mem go_step_covered [OF go(6), of k] acks_handled_step [OF go(6) assms(2) mem, of i]
  show ?thesis by fastforce
next
  case restart
  then show ?thesis using assms(3) by (simp add: idle_acks_handled)
next
  case (environ w)
  with assms(5) have "pending (world (r_state s)) k \<subseteq> pending w k"
    "waiting (world (r_state s)) k \<subseteq> waiting w k \<union> pending w k" unfolding keeps_triggers_def by blast+
  with environ assms(2) show ?thesis by (auto simp: covered_def)
qed (use assms(2) in auto)

lemma run_covered:
  assumes "run parent env ts s es t" "idle_threads ts" "idle_threads (r_threads s)"
    and "\<forall>x \<in> set ts \<union> set (r_threads s). on_group r waiting pending (fst x)" "keeps_triggers waiting pending env"
  shows "covered waiting pending (world (r_state s)) (r_log s) k \<subseteq> covered waiting pending (world (r_state t)) (r_log t) k"
proof -
  let ?P = "\<lambda>u. acks_handled (r_threads u) (r_log u) \<and> fst ` set (r_threads u) \<subseteq> fst ` (set ts \<union> set (r_threads s)) \<and>
     covered waiting pending (world (r_state s)) (r_log s) k \<subseteq> covered waiting pending (world (r_state u)) (r_log u) k"
  have "?P t"
    using assms(1)
  proof (rule run_invariant)
    show "?P s" using assms(3) by (auto simp: idle_acks_handled)
    fix u e v
    assume u: "?P u" and step: "run_step parent env ts u e v"
    have on: "\<forall>x \<in> set (r_threads u). on_group r waiting pending (fst x)"
    proof
      fix x
      assume "x \<in> set (r_threads u)"
      with u obtain y where "y \<in> set ts \<union> set (r_threads s)" "fst x = fst y" by blast
      with assms(4) show "on_group r waiting pending (fst x)" by simp
    qed
    have "fst ` set (r_threads v) \<subseteq> fst ` (set ts \<union> set (r_threads s))"
      using step
    proof (cases rule: run_step.cases)
      case (go i c p l p' st h)
      then have "c \<in> fst ` set (r_threads u)" by (metis fst_conv image_eqI nth_mem)
      moreover have "fst ` set (r_threads v) \<subseteq> insert c (fst ` set (r_threads u))"
        using image_mono [OF set_update_subset_insert [of "r_threads u" i "(c, p')"], of fst] go(2) by simp
      ultimately show ?thesis using u by blast
    qed (use u in auto)
    with run_step_covered [OF step _ assms(2) on assms(5), of k] u show "?P v" by blast
  qed
  then show ?thesis by blast
qed

end

section \<open>The sequential worker is one of the runs\<close>

definition can_end :: "ctx \<Rightarrow> ('w \<Rightarrow> 'w \<Rightarrow> bool) \<Rightarrow> 'w thread list \<Rightarrow> 'w rstate \<Rightarrow> 'w cstate \<Rightarrow> bool" where
  "can_end parent env ts u y \<longleftrightarrow> (\<exists>es t. run parent env ts u es t \<and> all_returned t \<and> r_state t = y)"

lemma can_end_stop:
  assumes "r_threads u = [(c, p)]" "p \<in> {WTop, WPause}"
  shows "can_end parent env ts u (r_state u)"
proof -
  let ?v = "u\<lparr>r_cancelled := True\<rparr>"
  have "go_step parent c True (p, r_state u, r_log u) Stop (Returned, r_state u, r_log u)"
    using assms(2) by (auto intro: go_step.stop go_step.pause_stop)
  then have "run_step parent env ts ?v (Go 0 Stop) (at_thread ?v 0 (Returned, r_state u, r_log u))"
    using assms by (intro run_step_go [of _ _ c p]) (auto simp: alive_def)
  with run_step.cancel [of parent env ts u]
  have "run parent env ts u [Cancel, Go 0 Stop] (at_thread ?v 0 (Returned, r_state u, r_log u))"
    by (blast intro: run.intros)
  moreover have "all_returned (at_thread ?v 0 (Returned, r_state u, r_log u))"
    using assms by (simp add: all_returned_def)
  ultimately show ?thesis unfolding can_end_def by (metis at_thread_sel(1))
qed

lemma can_end_go:
  assumes "r_threads u = [(c, p)]" "p \<noteq> Panicked" "\<not> r_cancelled u"
    and "go_run parent c False (p, r_state u, r_log u) ls q" "can_end parent env ts (at_thread u 0 q) y"
  shows "can_end parent env ts u y"
proof -
  have "run parent env ts u (map (Go 0) ls) (at_thread u 0 q)"
    by (rule go_run_lift [OF assms(4)]) (use assms in \<open>auto simp: alive_def\<close>)
  with assms(5) show ?thesis unfolding can_end_def by (blast intro: run_append)
qed

lemma read_all_go:
  assumes "XReadGroup (rdb c) (read_args c) (world s) = (Inr streams, w)"
  shows "\<exists>ls. go_run parent c False (WTop, s, h) ls
     (WTop, process_all c parent hdone n (concat streams) (s\<lparr>world := w\<rparr>), h @ map (\<lambda>m. (key_of c, X_ID m)) (concat streams))"
proof -
  let ?q = "(Proc ToWorker [], process_all c parent hdone n (concat streams) (s\<lparr>world := w\<rparr>), h @ map (\<lambda>m. (key_of c, X_ID m)) (concat streams))"
  have "go_step parent c False (WTop, s, h) Read (Proc ToWorker (concat streams), s\<lparr>world := w\<rparr>, h)"
    using assms by (auto intro: go_step.read)
  moreover obtain ls where "go_run parent c False (Proc ToWorker (concat streams), s\<lparr>world := w\<rparr>, h) ls ?q"
    using process_all_go by blast
  moreover have "go_step parent c False ?q Next (resume ToWorker, snd ?q)" by (simp only: snd_conv) (rule go_step.continue)
  ultimately have "go_run parent c False (WTop, s, h) (Read # ls @ [Next]) (WTop, snd ?q)"
    by (auto intro: go_Cons go_run_append go_run_one)
  then show ?thesis by auto
qed

text \<open>One iteration of the worker's loop, given that the rest of the loop is a run.\<close>

lemma worker_body_run:
  assumes IH: "\<And>k n s u. loop c parent hdone k n s = Some y \<Longrightarrow> r_threads u = [(c, WTop)] \<Longrightarrow> r_state u = s \<Longrightarrow>
        \<not> r_cancelled u \<Longrightarrow> can_end parent env ts u y"
    and body: "(if ctx_Err parent k \<noteq> None then Some s
        else (case XReadGroup (rdb c) (read_args c) (world s) of
          (Inl e, w) \<Rightarrow>
            (let s = s\<lparr>world := w\<rparr> in
             if errors_Is e RedisNil \<or> errors_Is e Canceled then loop c parent hdone (Suc k) n s
             else (let s = with_metrics inc_redis s in
                   if ctx_Err parent (Suc k) \<noteq> None then Some s else loop c parent hdone (k + 2) n s))
        | (Inr streams, w) \<Rightarrow>
            loop c parent hdone (Suc k) (n + length (concat streams))
              (process_all c parent hdone n (concat streams) (s\<lparr>world := w\<rparr>)))) = Some y"
    and u: "r_threads u = [(c, WTop)]" "r_state u = s" "\<not> r_cancelled u"
  shows "can_end parent env ts u y"
proof -
  have cont: "can_end parent env ts u y"
    if "go_run parent c False (WTop, s, r_log u) ls (WTop, s', h)" "loop c parent hdone k' n' s' = Some y" for ls s' h k' n'
    by (rule can_end_go [of _ c WTop _ ls "(WTop, s', h)"])
      (use u that IH [OF that(2), of "at_thread u 0 (WTop, s', h)"] in auto)
  obtain r w where r: "XReadGroup (rdb c) (read_args c) (world s) = (r, w)" by fastforce
  let ?s = "with_metrics inc_redis (s\<lparr>world := w\<rparr>)"
  consider (over) "ctx_Err parent k \<noteq> None" | (got) streams where "ctx_Err parent k = None" "r = Inr streams"
    | (none) e where "ctx_Err parent k = None" "r = Inl e" "errors_Is e RedisNil \<or> errors_Is e Canceled"
    | (failed) e where "ctx_Err parent k = None" "r = Inl e" "\<not> (errors_Is e RedisNil \<or> errors_Is e Canceled)"
    by (cases r) blast+
  then show ?thesis
  proof cases
    case over
    with body u can_end_stop [OF u(1)] show ?thesis by simp
  next
    case got
    obtain ls where "go_run parent c False (WTop, s, r_log u) ls
       (WTop, process_all c parent hdone n (concat streams) (s\<lparr>world := w\<rparr>), r_log u @ map (\<lambda>m. (key_of c, X_ID m)) (concat streams))"
      using read_all_go [OF r [unfolded got(2)]] by blast
    with got body r show ?thesis by (auto intro: cont)
  next
    case none
    then have "go_step parent c False (WTop, s, r_log u) Read (WTop, s\<lparr>world := w\<rparr>, r_log u)"
      using r by (auto intro: go_step.read_none)
    from cont [OF go_run_one [OF this]] none body r show ?thesis by simp
  next
    case failed
    then have rd: "go_step parent c False (WTop, s, r_log u) Read (WPause, ?s, r_log u)"
      using r by (auto intro: go_step.read_fails)
    then have "go_run parent c False (WTop, s, r_log u) [Read, Pause] (WTop, ?s, r_log u)"
      by (blast intro: go_Cons go_run_one go_step.pause)
    moreover have "can_end parent env ts u ?s"
      by (rule can_end_go [OF u(1) _ u(3), of _ "[Read]" "(WPause, ?s, r_log u)"])
        (use rd u can_end_stop [of "at_thread u 0 (WPause, ?s, r_log u)" c WPause parent env ts] in \<open>auto intro: go_run_one\<close>)
    ultimately show ?thesis using cont failed body r by (cases "ctx_Err parent (Suc k)") auto
  qed
qed

lemma worker_loop_run:
  assumes "worker_loop c parent hdone k n s = Some y" "r_threads u = [(c, WTop)]" "r_state u = s" "\<not> r_cancelled u"
  shows "can_end parent env ts u y"
proof -
  let ?P = "\<lambda>c parent hdone k n s y. \<forall>u. r_threads u = [(c, WTop)] \<longrightarrow> r_state u = s \<longrightarrow> \<not> r_cancelled u \<longrightarrow> can_end parent env ts u y"
  have "?P c parent hdone k n s y"
    by (rule worker_loop.raw_induct [where P = ?P, OF _ assms(1)], intro allI impI)
      (erule worker_body_run [rotated]; blast)
  with assms(2-4) show ?thesis by blast
qed

section \<open>Shutdown\<close>

text \<open>A bound on the steps a goroutine takes once the context is cancelled, when the reaper is not
  in the middle of a claim.\<close>

primrec weight :: "pc \<Rightarrow> nat" where
  "weight WTop = 1"
| "weight WPause = 2"
| "weight RStart = 2"
| "weight RWait = 1"
| "weight (RClaim _) = 0"
| "weight (Proc _ ms) = 2 + 3 * length ms"
| "weight (Handling _ _ ms) = 4 + 3 * length ms"
| "weight (Acking _ _ ms) = 3 + 3 * length ms"
| "weight Returned = 0"
| "weight Panicked = 0"

definition last_page :: "kont \<Rightarrow> bool" where
  "last_page k \<longleftrightarrow> (case k of ToWorker \<Rightarrow> True | ToReaper start \<Rightarrow> start = ''0-0'')"

primrec settled :: "pc \<Rightarrow> bool" where
  "settled WTop = True"
| "settled WPause = True"
| "settled RStart = True"
| "settled RWait = True"
| "settled (RClaim _) = False"
| "settled (Proc k _) = last_page k"
| "settled (Handling k _ _) = last_page k"
| "settled (Acking k _ _) = last_page k"
| "settled Returned = True"
| "settled Panicked = False"

lemma settled_resume: "last_page k \<Longrightarrow> settled (resume k) \<and> weight (resume k) = 1"
  by (cases k) (auto simp: last_page_def)

lemma go_step_settled:
  assumes "go_step parent c True (p, s, h) l (p', s', h')" "settled p" "l \<noteq> Tick" "0 < cc_ReaperTimeout (conf c)"
  shows "settled p' \<and> weight p' < weight p"
  using assms by (cases rule: go_step.cases) (auto dest: settled_resume)

lemma go_step_progress:
  assumes "settled p" "p \<noteq> Returned" "0 < cc_ReaperTimeout (conf c)"
  shows "\<exists>l q. l \<noteq> Tick \<and> go_step parent c True (p, s, h) l q"
proof (cases p)
  case (Proc k ms)
  then show ?thesis by (cases ms) (blast intro: begin_msg continue)+
next
  case (Handling k m ms)
  obtain err w where "runHandler c (handler_ctx (None, Canceled) parent (decodeJobID c m)) (world s) = (err, w)" by fastforce
  from handle [OF this] Handling show ?thesis by blast
next
  case (Acking k m ms)
  obtain err w where "XAck (rdb c) (cc_Stream (conf c)) (cc_Group (conf c)) (X_ID m) (world s) = (err, w)" by fastforce
  from ack [OF this refl] Acking show ?thesis by blast
next
  case RStart
  then show ?thesis using assms(3) by (intro exI [of _ Start] exI [of _ "(RWait, s, h)"]) (simp add: reaper_start)
next
  case WTop
  then show ?thesis by (intro exI [of _ Stop] exI [of _ "(Returned, s, h)"]) (simp add: go_step.stop)
next
  case WPause
  then show ?thesis by (intro exI [of _ Stop] exI [of _ "(Returned, s, h)"]) (simp add: pause_stop)
next
  case RWait
  then show ?thesis by (intro exI [of _ Stop] exI [of _ "(Returned, s, h)"]) (simp add: reaper_stop)
qed (use assms in simp_all)

definition draining :: "'w rstate \<Rightarrow> bool" where
  "draining s \<longleftrightarrow> r_cancelled s \<and> (\<forall>(c, p) \<in> set (r_threads s). settled p \<and> 0 < cc_ReaperTimeout (conf c))"

definition load :: "'w rstate \<Rightarrow> nat" where
  "load s = sum_list (map (weight \<circ> snd) (r_threads s))"

lemma draining_alive: "draining s \<Longrightarrow> alive s"
  by (force simp: draining_def alive_def)

lemma drain_step:
  assumes "draining s" "run_step parent env ts s (Go i l) t" "l \<noteq> Tick"
  shows "draining t \<and> load t < load s"
  using assms(2)
proof (cases rule: run_step.cases)
  case (go c p p' st h)
  then have mem: "(c, p) \<in> set (r_threads s)" by (metis nth_mem)
  with assms(1) have "settled p" "0 < cc_ReaperTimeout (conf c)" "r_cancelled s" by (auto simp: draining_def)
  with go_step_settled go(5) assms(3) have p': "settled p'" "weight p' < weight p" by metis+
  have "set ((r_threads s)[i := (c, p')]) \<subseteq> insert (c, p') (set (r_threads s))" by (rule set_update_subset_insert)
  with p' assms(1) go(1) \<open>0 < cc_ReaperTimeout (conf c)\<close> have "draining t" by (auto simp: draining_def)
  moreover have "weight p \<le> load s" using mem unfolding load_def by (force intro: member_le_sum_list)
  then have "load t < load s" using go p' by (simp add: load_def map_update sum_list_update)
  ultimately show ?thesis by blast
qed

lemma drain_run:
  assumes "run parent env ts s es t" "draining s" "\<forall>e \<in> set es. \<exists>i l. e = Go i l \<and> l \<noteq> Tick"
  shows "draining t \<and> length es + load t \<le> load s"
  using assms by (induction rule: run.induct) (use drain_step in fastforce)+

lemma drain_progress:
  assumes "draining s" "\<not> all_returned s"
  shows "\<exists>i l t. l \<noteq> Tick \<and> run_step parent env ts s (Go i l) t"
proof -
  from assms(2) obtain i where i: "i < length (r_threads s)" "snd (r_threads s ! i) \<noteq> Returned"
    by (auto simp: all_returned_def in_set_conv_nth)
  obtain c p where cp: "r_threads s ! i = (c, p)" by fastforce
  with i assms(1) have "(c, p) \<in> set (r_threads s)" by (metis nth_mem)
  with assms(1) have "settled p" "0 < cc_ReaperTimeout (conf c)" "r_cancelled s" by (auto simp: draining_def)
  with go_step_progress i cp obtain l q where "l \<noteq> Tick" "go_step parent c (r_cancelled s) (p, r_state s, r_log s) l q"
    by (metis snd_conv)
  with run_step_go [OF draining_alive [OF assms(1)] i(1) cp] show ?thesis by blast
qed

lemma drain_ends:
  "draining t \<Longrightarrow> \<exists>fs u. run parent env ts t fs u \<and> all_returned u \<and> r_cancelled u \<and> Restart \<notin> set fs"
proof (induction "load t" arbitrary: t rule: less_induct)
  case less
  show ?case
  proof (cases "all_returned t")
    case True
    with less.prems show ?thesis by (intro exI [of _ "[]"] exI [of _ t]) (auto simp: draining_def intro: run.Nil)
  next
    case False
    with drain_progress [OF less.prems] obtain i l u where u: "l \<noteq> Tick" "run_step parent env ts t (Go i l) u" by metis
    with drain_step [OF less.prems] less.hyps obtain fs v
      where "run parent env ts u fs v" "all_returned v" "r_cancelled v" "Restart \<notin> set fs" by blast
    with u show ?thesis by (intro exI [of _ "Go i l # fs"] exI [of _ v]) (auto intro: run.Cons)
  qed
qed

lemma run_cancel_ends:
  assumes "\<forall>c \<in> set cs. 0 < cc_ReaperTimeout (conf c)"
  shows "\<exists>es s. run parent env ts (run_init (concat (map Run_threads cs)) st) es s \<and> all_returned s \<and> r_cancelled s \<and> Restart \<notin> set es"
proof -
  let ?s = "(run_init (concat (map Run_threads cs)) st)\<lparr>r_cancelled := True\<rparr>"
  have "draining ?s" using assms by (auto simp: draining_def run_init_def Run_threads_def)
  from drain_ends [OF this] obtain fs u where "run parent env ts ?s fs u" "all_returned u" "r_cancelled u" "Restart \<notin> set fs" by blast
  then show ?thesis by (intro exI [of _ "Cancel # fs"] exI [of _ u]) (auto intro: run.Cons run_step.cancel)
qed

text \<open>A reaper whose claims fail.\<close>

definition claiming :: "pc \<Rightarrow> bool" where
  "claiming p \<longleftrightarrow> (\<exists>cursor. p = RClaim cursor) \<or> p = Proc (ToReaper '''') []"

lemma claiming_step:
  assumes "go_step parent c fin (p, s, h) l (p', s', h')" "claiming p" "metrics s \<noteq> None"
    and "\<And>args w. \<exists>e. fst (XAutoClaim (rdb c) args w) = ([], '''', Some e)"
  shows "claiming p' \<and> metrics s' \<noteq> None"
  using assms(1)
proof (cases rule: go_step.cases)
  case (claim cursor jobs start err w)
  with assms(4) [of "claim_args c cursor" "world s"] have "jobs = []" "start = ''''" by auto
  with claim assms(3) show ?thesis by (auto simp: claiming_def with_metrics_def)
qed (use assms(2,3) in \<open>auto simp: claiming_def\<close>)

lemma go_step_metrics: "go_step parent c fin (p, s, h) l (p', s', h') \<Longrightarrow> metrics s \<noteq> None \<Longrightarrow> metrics s' \<noteq> None"
  by (auto elim!: go_stepE simp: with_metrics_def)

lemma claiming_run:
  assumes "run parent env ts s es t" "Restart \<notin> set es" "i < length (r_threads s)" "r_threads s ! i = (c, p)" "claiming p"
    and "metrics (r_state s) \<noteq> None" "\<And>args w. \<exists>e. fst (XAutoClaim (rdb c) args w) = ([], '''', Some e)"
  shows "i < length (r_threads t) \<and> (\<exists>p'. r_threads t ! i = (c, p') \<and> claiming p')"
  using assms(1-6)
proof (induction arbitrary: p rule: run.induct)
  case (Cons s e t es u)
  from Cons.hyps(1) have "i < length (r_threads t) \<and> metrics (r_state t) \<noteq> None \<and> (\<exists>p'. r_threads t ! i = (c, p') \<and> claiming p')"
  proof (cases rule: run_step.cases)
    case (go j d q l q' st h)
    then show ?thesis using Cons.prems claiming_step [OF _ Cons.prems(4,5) assms(7)] go_step_metrics [OF go(6)]
      by (cases "i = j") (fastforce simp: nth_list_update)+
  qed (use Cons.prems in auto)
  with Cons show ?case by auto
qed auto

section \<open>Properties\<close>

lemma running_cycles_count:
  "running_cycles cy s = int (length (filter (\<lambda>t. cc_CycleType (conf (fst t)) = cy \<and> is_busy (snd t)) (r_threads s)))"
proof -
  have "sum_list (map (busy cy) ts) = int (length (filter (\<lambda>t. cc_CycleType (conf (fst t)) = cy \<and> is_busy (snd t)) ts))" for ts :: "'a thread list"
    by (induction ts) (auto simp: busy_def)
  then show ?thesis by (simp add: running_cycles_def)
qed

text \<open>
  C11.  The gauge of running cycles is right at every moment and in every interleaving: it
  is the number of goroutines of that cycle that are between the start of a handler and the end of
  its acknowledgement.  It is never more than the pool size plus one, since the reaper runs handlers
  beside the workers.
\<close>

theorem gauge_counts:
  assumes "run parent env (concat (map Run_threads cs)) (run_init (concat (map Run_threads cs)) st) es s"
    and "metrics st = Some NewMetrics" "metrics (r_state s) = Some m"
    and "distinct (map (\<lambda>c. cc_CycleType (conf c)) cs)" "c \<in> set cs" "0 \<le> cc_Pool (conf c)"
  shows "CyclesInflight m (cc_CycleType (conf c)) =
       int (length (filter (\<lambda>t. cc_CycleType (conf (fst t)) = cc_CycleType (conf c) \<and> is_busy (snd t)) (r_threads s))) \<and>
     CyclesInflight m (cc_CycleType (conf c)) \<le> cc_Pool (conf c) + 1"
proof -
  let ?ts = "concat (map Run_threads cs)"
  have "gauge_inv ?ts s"
    using assms(1)
  proof (rule run_invariant)
    show "gauge_inv ?ts (run_init ?ts st)"
      using assms(2) by (simp add: gauge_inv_def run_init_def running_cycles_def idle_running NewMetrics_def)
  qed (rule gauge_inv_step [OF idle_Run_threads])
  then have inv: "map fst (r_threads s) = map fst ?ts" "CyclesInflight m (cc_CycleType (conf c)) = running_cycles (cc_CycleType (conf c)) s"
    using assms(3) by (auto simp: gauge_inv_def)
  from running_bounds [OF inv(1), of "cc_CycleType (conf c)"] inv(2) assms(6)
  show ?thesis by (simp add: count_all_threads [OF assms(4,5)] running_cycles_count)
qed

lemma sample_start:
  defines "ts \<equiv> concat (map Run_threads [sample_consumer])"
  shows "run parent env ts (run_init ts st) [Go 0 Start, Cancel] ((at_thread (run_init ts st) 0 (RWait, st, []))\<lparr>r_cancelled := True\<rparr>)"
proof -
  have "go_step parent sample_consumer False (RStart, st, []) Start (RWait, st, [])"
    by (rule reaper_start) (simp add: sample_consumer_def NewConsumer_def consumer_defaults_def minute_def second_def Let_def)
  then have "run_step parent env ts (run_init ts st) (Go 0 Start) (at_thread (run_init ts st) 0 (RWait, st, []))"
    by (intro run_step_go [of _ _ sample_consumer RStart]) (auto simp: ts_def run_init_def Run_threads_def alive_def)
  then show ?thesis by (blast intro: run.intros run_step.cancel)
qed

theorem gauge_counts_witness:
  "\<exists>s es. run \<lparr>ctx_jobID = None, done_from = None, done_err = Canceled\<rparr> (=) (concat (map Run_threads [sample_consumer]))
       (run_init (concat (map Run_threads [sample_consumer])) \<lparr>world = [], metrics = Some NewMetrics\<rparr>) es s \<and>
     CyclesInflight NewMetrics CycleScanMaster \<le> 2"
proof -
  let ?ts = "concat (map Run_threads [sample_consumer])"
  let ?st = "\<lparr>world = [], metrics = Some NewMetrics\<rparr>"
  note run = sample_start [of "\<lparr>ctx_jobID = None, done_from = None, done_err = Canceled\<rparr>" "(=)" ?st]
  have c: "cc_CycleType (conf sample_consumer) = CycleScanMaster" "cc_Pool (conf sample_consumer) = 1"
    by (simp_all add: sample_consumer_def NewConsumer_def consumer_defaults_def Let_def)
  from gauge_counts [OF run, of NewMetrics sample_consumer] c run show ?thesis by (fastforce simp: run_init_def)
qed

text \<open>
  C13.  Shutdown ends: once the context is cancelled, if no reaper is in the middle of a
  claim and none takes another tick, every run of the goroutines is finite, with a bound that counts
  the messages in hand, and it can only stop when all of them have returned, so that
  \<open>wg.Wait()\<close> returns.
\<close>

theorem shutdown_drains:
  assumes "draining s" "run parent env ts s es t" "\<forall>e \<in> set es. \<exists>i l. e = Go i l \<and> l \<noteq> Tick"
  shows "length es \<le> load s \<and> (all_returned t \<or> (\<exists>i l u. l \<noteq> Tick \<and> run_step parent env ts t (Go i l) u)) \<and>
     (\<exists>fs u. run parent env ts t fs u \<and> all_returned u)"
proof -
  have t: "draining t" "length es + load t \<le> load s" using drain_run [OF assms(2,1,3)] by auto
  moreover have "all_returned t \<or> (\<exists>i l u. l \<noteq> Tick \<and> run_step parent env ts t (Go i l) u)"
    using drain_progress [OF t(1), of parent env ts] by blast
  ultimately show ?thesis using drain_ends [OF t(1), of parent env ts] by auto
qed

theorem shutdown_drains_witness:
  "\<exists>s fs u. run_step \<lparr>ctx_jobID = None, done_from = None, done_err = Canceled\<rparr> (=) [] (run_init (Run_threads sample_consumer) \<lparr>world = [], metrics = None\<rparr>) Cancel s \<and>
     run \<lparr>ctx_jobID = None, done_from = None, done_err = Canceled\<rparr> (=) [] s fs u \<and> all_returned u"
proof -
  let ?s = "(run_init (Run_threads sample_consumer) \<lparr>world = [], metrics = None\<rparr>)\<lparr>r_cancelled := True\<rparr>"
  have "draining ?s"
    by (auto simp: draining_def run_init_def Run_threads_def sample_consumer_def NewConsumer_def consumer_defaults_def minute_def second_def Let_def)
  from shutdown_drains [OF this run.Nil] show ?thesis by (auto intro: run_step.cancel)
qed

text \<open>
  C14.  Shutdown does not end when the reaper is in a claim and redis fails, which a
  cancelled context makes it do: whatever the other goroutines and the environment do, that goroutine
  is never among those that have returned, so \<open>wg.Wait()\<close> in \<open>Run\<close> and in \<open>MustRun\<close>
  does not return; sequentially, \<open>claimPending\<close> itself does not return.
\<close>

theorem shutdown_hangs:
  assumes "run parent env ts s es t" "Restart \<notin> set es" "i < length (r_threads s)" "r_threads s ! i = (c, RClaim cursor)"
    and "metrics (r_state s) \<noteq> None" "\<And>args w. \<exists>e. fst (XAutoClaim (rdb c) args w) = ([], '''', Some e)"
  shows "\<not> all_returned t \<and> claimPending c parent hdone n (r_state s) = None"
proof -
  have "claiming (RClaim cursor)" by (simp add: claiming_def)
  from claiming_run [OF assms(1-4) this assms(5,6)] obtain p where "i < length (r_threads t)" "r_threads t ! i = (c, p)" "claiming p"
    by blast
  then have "(c, p) \<in> set (r_threads t)" "p \<noteq> Returned" by (metis nth_mem) (use \<open>claiming p\<close> in \<open>auto simp: claiming_def\<close>)
  then have "\<not> all_returned t" by (force simp: all_returned_def)
  then show ?thesis unfolding claimPending_def using claim_loop_diverges [OF assms(6,5)] by blast
qed

theorem shutdown_hangs_witness:
  "\<exists>es t. run \<lparr>ctx_jobID = None, done_from = None, done_err = Canceled\<rparr> (=) []
       (run_init [(sample_consumer, RClaim ''0-0''), (sample_consumer, WTop)] \<lparr>world = [], metrics = Some NewMetrics\<rparr>) es t \<and>
     Cancel \<in> set es \<and> \<not> all_returned t"
proof -
  let ?s = "run_init [(sample_consumer, RClaim ''0-0''), (sample_consumer, WTop)] \<lparr>world = [], metrics = Some NewMetrics\<rparr>"
  have run: "run \<lparr>ctx_jobID = None, done_from = None, done_err = Canceled\<rparr> (=) [] ?s [Cancel] (?s\<lparr>r_cancelled := True\<rparr>)"
    by (intro run_one run_step.cancel)
  from shutdown_hangs [OF run, of 0 sample_consumer "''0-0''"]
  have "\<not> all_returned (?s\<lparr>r_cancelled := True\<rparr>)"
    by (simp add: run_init_def sample_consumer_def sample_redis_def NewConsumer_def)
  with run show ?thesis by fastforce
qed

text \<open>
  C33.  The sequential model of a worker is one of the runs of the goroutines: whatever
  state \<open>runWorker\<close> returns, the goroutine of a worker can reach alone, having returned; and with a
  context that is cancelled at some point, \<open>runWorker\<close> does return.
\<close>

theorem runWorker_is_run:
  assumes "done_from parent = Some d"
  shows "\<exists>s' es t. runWorker c parent hdone s = Some s' \<and>
     run parent env [(c, WTop)] (run_init [(c, WTop)] s) es t \<and> all_returned t \<and> r_state t = s'"
proof -
  obtain s' where s': "worker_loop c parent hdone 0 0 s = Some s'" using worker_loop_returns [OF assms] by blast
  have "can_end parent env [(c, WTop)] (run_init [(c, WTop)] s) s'"
    by (rule worker_loop_run [OF s']) (simp_all add: run_init_def)
  with s' show ?thesis by (simp add: can_end_def runWorker_def)
qed

theorem runWorker_is_run_witness:
  "\<exists>s' es t. runWorker sample_consumer \<lparr>ctx_jobID = None, done_from = Some 3, done_err = Canceled\<rparr> (\<lambda>_. (None, Canceled))
      \<lparr>world = [], metrics = None\<rparr> = Some s' \<and>
    run \<lparr>ctx_jobID = None, done_from = Some 3, done_err = Canceled\<rparr> (=) [(sample_consumer, WTop)]
      (run_init [(sample_consumer, WTop)] \<lparr>world = [], metrics = None\<rparr>) es t \<and> all_returned t \<and> r_state t = s'"
  by (rule runWorker_is_run [of _ 3]) simp

end
