(* ===== verification/Redis_Group.thy ===== *)
theory Redis_Group
  imports Consumer_Run
begin

text \<open>
  A redis server as its documentation describes streams with consumer groups: a stream is a list of
  entries, a group has a position in its stream and a list of pending entries, each with the
  consumer it was delivered to and the time of the delivery.  It is the instance on which the
  consumers' assumptions (\<open>stream_group\<close>) are discharged, with calls that may fail: a failing
  call returns an error and has no effect.
\<close>

record pel_entry =
  pe_consumer :: string
  pe_since :: time

record group =
  g_last :: nat
  g_pel :: "(string \<times> pel_entry) list"

record Server =
  srv_streams :: "string \<Rightarrow> XMessage list"
  srv_groups :: "group_key \<Rightarrow> group option"
  srv_now :: time
  srv_calls :: nat
  srv_fault :: "nat \<Rightarrow> error option"

definition no_group :: error where "no_group = Err ''NOGROUP''"

definition called :: "Server \<Rightarrow> Server" where
  "called v = v\<lparr>srv_calls := Suc (srv_calls v)\<rparr>"

definition set_group :: "group_key \<Rightarrow> group \<Rightarrow> Server \<Rightarrow> Server" where
  "set_group k g v = v\<lparr>srv_groups := (srv_groups v)(k \<mapsto> g)\<rparr>"

text \<open>\<open>XREADGROUP ... STREAMS stream >\<close>: at most \<open>COUNT\<close> entries after the group's position, or
  the nil reply when the wait is over.\<close>

definition srv_read :: "XReadGroupArgs \<Rightarrow> Server \<Rightarrow> XMessage list list res \<times> Server" where
  "srv_read args v =
     (case srv_fault v (srv_calls v) of Some e \<Rightarrow> (Inl e, called v)
      | None \<Rightarrow>
        (let stream = hd (RG_Streams args); k = (stream, RG_Group args) in
         case srv_groups v k of None \<Rightarrow> (Inl no_group, called v)
         | Some g \<Rightarrow>
           (let new = take (nat (RG_Count args)) (drop (g_last g) (srv_streams v stream)) in
            if new = [] then (Inl RedisNil, called v)
            else (Inr [new],
                  set_group k \<lparr>g_last = g_last g + length new,
                    g_pel = g_pel g @ map (\<lambda>m. (X_ID m, \<lparr>pe_consumer = RG_Consumer args, pe_since = srv_now v\<rparr>)) new\<rparr> (called v)))))"

definition srv_ack :: "string \<Rightarrow> string \<Rightarrow> string \<Rightarrow> Server \<Rightarrow> error option \<times> Server" where
  "srv_ack stream grp i v =
     (case srv_fault v (srv_calls v) of Some e \<Rightarrow> (Some e, called v)
      | None \<Rightarrow>
        (case srv_groups v (stream, grp) of None \<Rightarrow> (None, called v)
         | Some g \<Rightarrow> (None, set_group (stream, grp) (g\<lparr>g_pel := filter (\<lambda>x. fst x \<noteq> i) (g_pel g)\<rparr>) (called v))))"

text \<open>
  \<open>XAUTOCLAIM\<close>: from the cursor on, in the order of the stream, it looks at up to ten times
  \<open>COUNT\<close> pending entries and takes up to \<open>COUNT\<close> that have been idle for \<open>MinIdle\<close>; the
  new cursor is the first entry it did not look at.
\<close>

definition position :: "XMessage list \<Rightarrow> string \<Rightarrow> nat" where
  "position ms i = length (takeWhile (\<lambda>m. X_ID m \<noteq> i) ms)"

fun claim_scan :: "time \<Rightarrow> duration \<Rightarrow> nat \<Rightarrow> nat \<Rightarrow> (string \<times> pel_entry) list \<Rightarrow> string list \<times> string" where
  "claim_scan now idle tries n [] = ([], ''0-0'')"
| "claim_scan now idle tries n ((i, x) # pel) =
     (if tries = 0 \<or> n = 0 then ([], i)
      else if now - pe_since x < idle then claim_scan now idle (tries - 1) n pel
      else (case claim_scan now idle (tries - 1) (n - 1) pel of (is, cur) \<Rightarrow> (i # is, cur)))"

definition claim_from :: "XMessage list \<Rightarrow> string \<Rightarrow> (string \<times> pel_entry) list \<Rightarrow> (string \<times> pel_entry) list" where
  "claim_from ms start pel =
     (if start = ''0-0'' then pel else filter (\<lambda>x. position ms start \<le> position ms (fst x)) pel)"

definition redeliver :: "string list \<Rightarrow> pel_entry \<Rightarrow> (string \<times> pel_entry) list \<Rightarrow> (string \<times> pel_entry) list" where
  "redeliver taken y pel = map (\<lambda>(i, x). if i \<in> set taken then (i, y) else (i, x)) pel"

definition srv_claim :: "XAutoClaimArgs \<Rightarrow> Server \<Rightarrow> (XMessage list \<times> string \<times> error option) \<times> Server" where
  "srv_claim args v =
     (case srv_fault v (srv_calls v) of Some e \<Rightarrow> (([], '''', Some e), called v)
      | None \<Rightarrow>
        (let k = (AC_Stream args, AC_Group args); ms = srv_streams v (AC_Stream args) in
         case srv_groups v k of None \<Rightarrow> (([], '''', Some no_group), called v)
         | Some g \<Rightarrow>
           (let (taken, cursor) = claim_scan (srv_now v) (AC_MinIdle args) (10 * nat (AC_Count args)) (nat (AC_Count args))
                  (claim_from ms (AC_Start args) (g_pel g));
                pel = redeliver taken \<lparr>pe_consumer = AC_Consumer args, pe_since = srv_now v\<rparr> (g_pel g) in
            ((filter (\<lambda>m. X_ID m \<in> set taken) ms, cursor, None), set_group k (g\<lparr>g_pel := pel\<rparr>) (called v)))))"

text \<open>\<open>XGROUP CREATE ... $ MKSTREAM\<close>: the group starts at the end of the stream.\<close>

definition srv_group_create :: "string \<Rightarrow> string \<Rightarrow> string \<Rightarrow> Server \<Rightarrow> error option \<times> Server" where
  "srv_group_create stream grp start v =
     (case srv_fault v (srv_calls v) of Some e \<Rightarrow> (Some e, called v)
      | None \<Rightarrow>
        if srv_groups v (stream, grp) \<noteq> None then (Some (Err ''BUSYGROUP Consumer Group name already exists''), called v)
        else (None, set_group (stream, grp)
               \<lparr>g_last = (if start = ''$'' then length (srv_streams v stream) else 0), g_pel = []\<rparr> (called v)))"

text \<open>What the backend and time do: a trigger is appended, the clock advances.\<close>

definition srv_add :: "string \<Rightarrow> XMessage \<Rightarrow> Server \<Rightarrow> Server" where
  "srv_add stream m v = v\<lparr>srv_streams := (srv_streams v)(stream := srv_streams v stream @ [m])\<rparr>"

definition srv_tick :: "duration \<Rightarrow> Server \<Rightarrow> Server" where
  "srv_tick d v = v\<lparr>srv_now := srv_now v + d\<rparr>"

inductive srv_env :: "Server \<Rightarrow> Server \<Rightarrow> bool" where
  added: "srv_env v (srv_add stream m v)"
| later: "0 \<le> d \<Longrightarrow> srv_env v (srv_tick d v)"

definition srv_waiting :: "Server \<Rightarrow> group_key \<Rightarrow> string set" where
  "srv_waiting v k = (case srv_groups v k of None \<Rightarrow> {} | Some g \<Rightarrow> X_ID ` set (drop (g_last g) (srv_streams v (fst k))))"

definition srv_pending :: "Server \<Rightarrow> group_key \<Rightarrow> string set" where
  "srv_pending v k = (case srv_groups v k of None \<Rightarrow> {} | Some g \<Rightarrow> fst ` set (g_pel g))"

lemma srv_called [simp]:
  "srv_groups (called v) = srv_groups v" "srv_streams (called v) = srv_streams v" "srv_now (called v) = srv_now v"
  "srv_waiting (called v) = srv_waiting v" "srv_pending (called v) = srv_pending v"
  by (simp_all add: called_def srv_waiting_def srv_pending_def fun_eq_iff split: option.split)

lemma srv_set_group:
  "srv_waiting (set_group k g v) k' = (if k' = k then X_ID ` set (drop (g_last g) (srv_streams v (fst k))) else srv_waiting v k')"
  "srv_pending (set_group k g v) k' = (if k' = k then fst ` set (g_pel g) else srv_pending v k')"
  by (simp_all add: set_group_def srv_waiting_def srv_pending_def split: option.split)

lemma srv_at_group:
  "srv_groups v k = Some g \<Longrightarrow> srv_waiting v k = X_ID ` set (drop (g_last g) (srv_streams v (fst k)))"
  "srv_groups v k = Some g \<Longrightarrow> srv_pending v k = fst ` set (g_pel g)"
  by (simp_all add: srv_waiting_def srv_pending_def)

lemma set_drop_take: "set (drop n xs) \<subseteq> set (drop (n + length (take j (drop n xs))) xs) \<union> set (take j (drop n xs))"
proof -
  have "drop (n + length (take j (drop n xs))) xs = drop j (drop n xs)" by (simp add: min_def add.commute)
  then show ?thesis by (metis append_take_drop_id set_append sup_commute subset_refl)
qed

lemma srv_read_keeps:
  assumes "srv_read args v = (res, v')"
  shows "srv_pending v k \<subseteq> srv_pending v' k \<and> srv_waiting v k \<subseteq> srv_waiting v' k \<union> srv_pending v' k"
proof -
  let ?k = "(hd (RG_Streams args), RG_Group args)"
  let ?ms = "srv_streams v (hd (RG_Streams args))"
  let ?new = "\<lambda>g. take (nat (RG_Count args)) (drop (g_last g) ?ms)"
  from assms consider "v' = called v" | g where "srv_groups v ?k = Some g"
    "v' = set_group ?k \<lparr>g_last = g_last g + length (?new g),
        g_pel = g_pel g @ map (\<lambda>m. (X_ID m, \<lparr>pe_consumer = RG_Consumer args, pe_since = srv_now v\<rparr>)) (?new g)\<rparr> (called v)"
    by (fastforce simp: srv_read_def Let_def split: option.splits if_splits)
  then show ?thesis
  proof cases
    case 2
    have "X_ID ` set (drop (g_last g) ?ms) \<subseteq> X_ID ` set (drop (g_last g + length (?new g)) ?ms) \<union> X_ID ` set (?new g)"
      using set_drop_take [of "g_last g" ?ms "nat (RG_Count args)"] by (blast)
    with 2 srv_at_group [OF 2(1)] show ?thesis by (auto simp: srv_set_group image_Un image_image simp del: length_take)
  qed simp
qed

lemma srv_claim_keeps:
  assumes "srv_claim args v = (res, v')"
  shows "srv_pending v k \<subseteq> srv_pending v' k \<and> srv_waiting v k \<subseteq> srv_waiting v' k \<union> srv_pending v' k"
proof -
  let ?k = "(AC_Stream args, AC_Group args)"
  from assms consider "v' = called v" | g taken y where "srv_groups v ?k = Some g"
    "v' = set_group ?k (g\<lparr>g_pel := redeliver taken y (g_pel g)\<rparr>) (called v)"
    by (fastforce simp: srv_claim_def Let_def split: option.splits prod.splits)
  then show ?thesis
  proof cases
    case 2
    have "fst ` set (redeliver taken y (g_pel g)) = fst ` set (g_pel g)"
      by (force simp: redeliver_def image_iff split: prod.split)
    with 2 srv_at_group [OF 2(1)] show ?thesis by (auto simp: srv_set_group)
  qed simp
qed

lemma srv_ack_keeps:
  assumes "srv_ack s g i v = (res, v')"
  shows "srv_pending v k - (if k = (s, g) then {i} else {}) \<subseteq> srv_pending v' k \<and> srv_waiting v k \<subseteq> srv_waiting v' k \<union> srv_pending v' k"
  using assms by (auto simp: srv_ack_def srv_set_group srv_at_group split: option.splits) force

lemma srv_env_keeps:
  "srv_env v v' \<Longrightarrow> srv_pending v k \<subseteq> srv_pending v' k \<and> srv_waiting v k \<subseteq> srv_waiting v' k"
  by (erule srv_env.cases) (auto simp: srv_add_def srv_tick_def srv_pending_def srv_waiting_def split: option.splits)

section \<open>The server behind a client\<close>

text \<open>The client of a consumer whose world holds the server, at \<open>get\<close> and \<open>put\<close>.\<close>

definition server_redis :: "('w \<Rightarrow> Server) \<Rightarrow> (Server \<Rightarrow> 'w \<Rightarrow> 'w) \<Rightarrow> 'w Redis" where
  "server_redis get put =
     \<lparr>XReadGroup = (\<lambda>args w. case srv_read args (get w) of (r, v) \<Rightarrow> (r, put v w)),
      XAck = (\<lambda>s g i w. case srv_ack s g i (get w) of (r, v) \<Rightarrow> (r, put v w)),
      XAutoClaim = (\<lambda>args w. case srv_claim args (get w) of (r, v) \<Rightarrow> (r, put v w))\<rparr>"

lemma server_redis_group:
  assumes "\<And>v w. get (put v w) = v"
  shows "stream_group (server_redis get put) (srv_waiting \<circ> get) (srv_pending \<circ> get)"
  by unfold_locales
    (auto simp: server_redis_def assms split: prod.splits dest!: srv_read_keeps srv_claim_keeps srv_ack_keeps; blast)+

interpretation srv: stream_group "server_redis id (\<lambda>v _. v)" srv_waiting srv_pending
  using server_redis_group [of id "\<lambda>v _. v"] by (simp add: comp_def)

section \<open>What a claim does on this server\<close>

definition idle_for :: "Server \<Rightarrow> duration \<Rightarrow> string \<times> pel_entry \<Rightarrow> bool" where
  "idle_for v d x \<longleftrightarrow> d \<le> srv_now v - pe_since (snd x)"

lemma claim_scan_page:
  assumes "claim_scan now d tries n pel = (taken, cur)"
  obtains pre post where "pel = pre @ post" "taken = map fst (filter (\<lambda>x. d \<le> now - pe_since (snd x)) pre)"
    "cur = (case post of [] \<Rightarrow> ''0-0'' | x # _ \<Rightarrow> fst x)" "0 < tries \<Longrightarrow> 0 < n \<Longrightarrow> pel \<noteq> [] \<Longrightarrow> pre \<noteq> []"
proof -
  have "\<exists>pre post. pel = pre @ post \<and> taken = map fst (filter (\<lambda>x. d \<le> now - pe_since (snd x)) pre) \<and>
      cur = (case post of [] \<Rightarrow> ''0-0'' | x # _ \<Rightarrow> fst x) \<and> (0 < tries \<and> 0 < n \<and> pel \<noteq> [] \<longrightarrow> pre \<noteq> [])"
    using assms
  proof (induction now d tries n pel arbitrary: taken rule: claim_scan.induct)
    case (2 now d tries n i x pel)
    show ?case
    proof (cases "tries = 0 \<or> n = 0")
      case True
      with 2(3) show ?thesis by (intro exI [of _ "[]"] exI [of _ "(i, x) # pel"]) auto
    next
      case go: False
      show ?thesis
      proof (cases "now - pe_since x < d")
        case True
        have "claim_scan now d (tries - 1) n pel = (taken, cur)" using go True 2(3) by simp
        from 2(1) [OF go True this] obtain pre post where "pel = pre @ post"
          "taken = map fst (filter (\<lambda>x. d \<le> now - pe_since (snd x)) pre)" "cur = (case post of [] \<Rightarrow> ''0-0'' | x # _ \<Rightarrow> fst x)"
          by blast
        with True show ?thesis by (intro exI [of _ "(i, x) # pre"] exI [of _ post]) auto
      next
        case False
        with go 2(3) obtain js where js: "claim_scan now d (tries - 1) (n - 1) pel = (js, cur)" "taken = i # js"
          by (auto split: prod.splits)
        from 2(2) [OF go False js(1)] obtain pre post where "pel = pre @ post"
          "js = map fst (filter (\<lambda>x. d \<le> now - pe_since (snd x)) pre)" "cur = (case post of [] \<Rightarrow> ''0-0'' | x # _ \<Rightarrow> fst x)"
          by blast
        with False js(2) show ?thesis by (intro exI [of _ "(i, x) # pre"] exI [of _ post]) auto
      qed
    qed
  qed auto
  with that show thesis by blast
qed

text \<open>A consumer on the server, whose handler does not touch it.\<close>

definition on_server :: "('w \<Rightarrow> Server) \<Rightarrow> (Server \<Rightarrow> 'w \<Rightarrow> 'w) \<Rightarrow> 'w Consumer \<Rightarrow> bool" where
  "on_server get put c \<longleftrightarrow> rdb c = server_redis get put \<and> (\<forall>v w. get (put v w) = v) \<and>
     (\<forall>hctx w. get (snd (handler c hctx w)) = get w)"

definition reliable_server :: "Server \<Rightarrow> bool" where
  "reliable_server v \<longleftrightarrow> (\<forall>n. srv_fault v n = None)"

definition pel_of :: "'w Consumer \<Rightarrow> Server \<Rightarrow> (string \<times> pel_entry) list" where
  "pel_of c v = (case srv_groups v (key_of c) of None \<Rightarrow> [] | Some g \<Rightarrow> g_pel g)"

lemma process_server:
  assumes "on_server get put c" "reliable_server (get (world s))" "srv_groups (get (world s)) (key_of c) = Some g"
  shows "get (world (process c parent hdone m s)) =
     set_group (key_of c) (g\<lparr>g_pel := filter (\<lambda>x. fst x \<noteq> X_ID m) (g_pel g)\<rparr>) (called (get (world s)))"
  using assms
  by (simp add: process_world on_server_def server_redis_def srv_ack_def reliable_server_def key_of_def split: prod.split)

lemma reliable_set_group [simp]: "reliable_server (set_group k g (called v)) = reliable_server v"
  by (simp add: reliable_server_def set_group_def called_def)

lemma set_group_sel [simp]:
  "srv_groups (set_group k g v) = (srv_groups v)(k \<mapsto> g)" "srv_streams (set_group k g v) = srv_streams v"
  "srv_now (set_group k g v) = srv_now v"
  by (simp_all add: set_group_def)

lemma process_all_server:
  assumes "on_server get put c" "reliable_server (get (world s))" "srv_groups (get (world s)) (key_of c) = Some g"
  shows "let v' = get (world (process_all c parent hdone n ms s)) in
     reliable_server v' \<and> srv_streams v' = srv_streams (get (world s)) \<and> srv_now v' = srv_now (get (world s)) \<and>
     srv_groups v' (key_of c) = Some (g\<lparr>g_pel := filter (\<lambda>x. fst x \<notin> X_ID ` set ms) (g_pel g)\<rparr>)"
  using assms
proof (induction ms arbitrary: n s g)
  case (Cons m ms)
  let ?s = "process c parent (hdone n) m s"
  let ?g = "g\<lparr>g_pel := filter (\<lambda>x. fst x \<noteq> X_ID m) (g_pel g)\<rparr>"
  note p = process_server [OF Cons.prems, of parent "hdone n" m]
  then have "srv_groups (get (world ?s)) (key_of c) = Some ?g" "reliable_server (get (world ?s))"
    using Cons.prems by simp_all
  from Cons.IH [OF assms(1) this(2,1), of "Suc n"] p show ?case by (simp add: Let_def conj_commute)
qed simp

definition wf_pel :: "XMessage list \<Rightarrow> (string \<times> pel_entry) list \<Rightarrow> bool" where
  "wf_pel ms pel \<longleftrightarrow> sorted_wrt (\<lambda>x y. position ms (fst x) < position ms (fst y)) pel \<and>
     fst ` set pel \<subseteq> X_ID ` set ms \<and> ''0-0'' \<notin> X_ID ` set ms"

lemma wf_pel_filter: "wf_pel ms pel \<Longrightarrow> wf_pel ms (filter P pel)"
  by (auto simp: wf_pel_def sorted_wrt_filter)

lemma wf_pel_distinct: "wf_pel ms pel \<Longrightarrow> distinct (map fst pel)"
proof -
  have "sorted_wrt (\<lambda>x y. position ms (fst x) < position ms (fst y)) pel \<Longrightarrow> distinct (map fst pel)"
    by (induction pel) force+
  then show "wf_pel ms pel \<Longrightarrow> distinct (map fst pel)" by (simp add: wf_pel_def)
qed

lemma wf_pel_from:
  assumes "wf_pel ms (keep @ rest)" "rest \<noteq> []"
  shows "filter (\<lambda>x. position ms (fst (hd rest)) \<le> position ms (fst x)) (keep @ rest) = rest"
proof -
  obtain y ys where r: "rest = y # ys" using assms(2) by (cases rest) auto
  have "\<forall>x \<in> set keep. position ms (fst x) < position ms (fst y)" "\<forall>x \<in> set ys. position ms (fst y) < position ms (fst x)"
    using assms(1) by (auto simp: wf_pel_def r sorted_wrt_append)
  then have "filter (\<lambda>x. position ms (fst y) \<le> position ms (fst x)) keep = []"
    "filter (\<lambda>x. position ms (fst y) \<le> position ms (fst x)) ys = ys"
    by (auto simp: filter_empty_conv filter_id_conv)
  then show ?thesis by (simp add: r)
qed

lemma filter_taken:
  assumes "distinct (map fst (keep @ pre @ post))"
  shows "filter (\<lambda>x. fst x \<notin> fst ` set (filter P pre)) (keep @ pre @ post) = keep @ filter (\<lambda>x. \<not> P x) pre @ post"
proof -
  have out: "fst x \<notin> fst ` set pre" if "x \<in> set keep \<union> set post" for x
    using that assms imageI [of x "set keep" fst] imageI [of x "set post" fst] by auto
  have "x \<in> set pre \<Longrightarrow> fst x \<in> fst ` set (filter P pre) \<longleftrightarrow> P x" for x
    using assms by (auto simp: distinct_map dest: inj_onD)
  then have "filter (\<lambda>x. fst x \<notin> fst ` set (filter P pre)) pre = filter (\<lambda>x. \<not> P x) pre" by (intro filter_cong) auto
  moreover have "filter (\<lambda>x. fst x \<notin> fst ` set (filter P pre)) keep = keep" "filter (\<lambda>x. fst x \<notin> fst ` set (filter P pre)) post = post"
    using out by (auto simp: filter_id_conv)
  ultimately show ?thesis by simp
qed

lemma filter_redeliver: "filter (\<lambda>x. fst x \<notin> set taken) (redeliver taken y pel) = filter (\<lambda>x. fst x \<notin> set taken) pel"
  by (induction pel) (auto simp: redeliver_def split: if_splits)

lemma claim_args_sel:
  "AC_Stream (claim_args c cursor) = cc_Stream (conf c)" "AC_Group (claim_args c cursor) = cc_Group (conf c)"
  "AC_MinIdle (claim_args c cursor) = cc_MinIdle (conf c)" "AC_Start (claim_args c cursor) = cursor"
  "AC_Count (claim_args c cursor) = 10" "AC_Consumer (claim_args c cursor) = cc_ConsumerID (conf c)"
  by (simp_all add: claim_args_def)

text \<open>One page: the reply, and the state after its messages are processed.\<close>

lemma claim_page:
  assumes on: "on_server get put c" and rel: "reliable_server (get (world s))"
    and g: "srv_groups (get (world s)) (key_of c) = Some g" and wf: "wf_pel (srv_streams (get (world s)) (cc_Stream (conf c))) (g_pel g)"
    and pel: "g_pel g = keep @ rest" and cur: "if cursor = ''0-0'' then keep = [] else rest \<noteq> [] \<and> cursor = fst (hd rest)"
  obtains pre post jobs start w where "rest = pre @ post" "rest \<noteq> [] \<longrightarrow> pre \<noteq> []"
    "start = (case post of [] \<Rightarrow> ''0-0'' | x # _ \<Rightarrow> fst x)"
    "XAutoClaim (rdb c) (claim_args c cursor) (world s) = ((jobs, start, None), w)"
    "\<forall>n m. let v' = get (world (process_all c parent hdone n jobs \<lparr>world = w, metrics = m\<rparr>)) in
        reliable_server v' \<and> srv_streams v' = srv_streams (get (world s)) \<and> srv_now v' = srv_now (get (world s)) \<and>
        srv_groups v' (key_of c) = Some (g\<lparr>g_pel := keep @ filter (\<lambda>x. \<not> idle_for (get (world s)) (cc_MinIdle (conf c)) x) pre @ post\<rparr>)"
proof -
  let ?v = "get (world s)" and ?ms = "srv_streams (get (world s)) (cc_Stream (conf c))" and ?d = "cc_MinIdle (conf c)"
  have entries: "claim_from ?ms cursor (g_pel g) = rest"
    using cur wf_pel_from [of ?ms keep rest] wf pel by (auto simp: claim_from_def split: if_splits)
  obtain taken start where scan: "claim_scan (srv_now ?v) ?d 100 10 rest = (taken, start)" by fastforce
  from claim_scan_page [OF scan] obtain pre post where page: "rest = pre @ post"
    "taken = map fst (filter (\<lambda>x. ?d \<le> srv_now ?v - pe_since (snd x)) pre)" "start = (case post of [] \<Rightarrow> ''0-0'' | x # _ \<Rightarrow> fst x)"
    "rest \<noteq> [] \<longrightarrow> pre \<noteq> []" by auto
  let ?y = "\<lparr>pe_consumer = cc_ConsumerID (conf c), pe_since = srv_now ?v\<rparr>"
  let ?upd = "redeliver taken ?y (g_pel g)"
  let ?jobs = "filter (\<lambda>m. X_ID m \<in> set taken) ?ms"
  let ?v1 = "set_group (key_of c) (g\<lparr>g_pel := ?upd\<rparr>) (called ?v)"
  have get: "get (put v w) = v" for v w using on by (simp add: on_server_def)
  have "srv_claim (claim_args c cursor) ?v = ((?jobs, start, None), ?v1)"
    using g rel by (simp add: srv_claim_def claim_args_sel Let_def reliable_server_def key_of_def entries scan)
  then have call: "XAutoClaim (rdb c) (claim_args c cursor) (world s) = ((?jobs, start, None), put ?v1 (world s))"
    using on by (simp add: on_server_def server_redis_def)
  have taken: "set taken = fst ` set (filter (idle_for ?v ?d) pre)" by (simp add: page(2) idle_for_def)
  have "set taken \<subseteq> fst ` set (g_pel g)" unfolding taken pel page(1) by auto
  then have "set taken \<subseteq> X_ID ` set ?ms" using wf unfolding wf_pel_def by blast
  then have ids: "X_ID ` set ?jobs = set taken" by auto
  have "filter (\<lambda>x. fst x \<notin> set taken) ?upd = filter (\<lambda>x. fst x \<notin> set taken) (g_pel g)"
    by (rule filter_redeliver)
  also have "\<dots> = keep @ filter (\<lambda>x. \<not> idle_for ?v ?d x) pre @ post"
    using filter_taken [of keep pre post "idle_for ?v ?d"] wf_pel_distinct [OF wf] pel page(1) taken by simp
  finally have left: "filter (\<lambda>x. fst x \<notin> set taken) ?upd = keep @ filter (\<lambda>x. \<not> idle_for ?v ?d x) pre @ post" .
  have after: "let v' = get (world (process_all c parent hdone n ?jobs \<lparr>world = put ?v1 (world s), metrics = m\<rparr>)) in
        reliable_server v' \<and> srv_streams v' = srv_streams ?v \<and> srv_now v' = srv_now ?v \<and>
        srv_groups v' (key_of c) = Some (g\<lparr>g_pel := keep @ filter (\<lambda>x. \<not> idle_for ?v ?d x) pre @ post\<rparr>)" for n m
    using process_all_server [OF on, of "\<lparr>world = put ?v1 (world s), metrics = m\<rparr>" "g\<lparr>g_pel := ?upd\<rparr>" parent hdone n ?jobs]
    unfolding ids by (simp add: get rel left Let_def del: filter.simps)
  show thesis by (rule that [OF page(1,4,3) call]) (use after in blast)
qed

lemma claim_loop_clears:
  assumes on: "on_server get put c"
  shows "reliable_server (get (world s)) \<Longrightarrow> srv_groups (get (world s)) (key_of c) = Some g \<Longrightarrow>
     wf_pel (srv_streams (get (world s)) (cc_Stream (conf c))) (g_pel g) \<Longrightarrow> g_pel g = keep @ rest \<Longrightarrow>
     if cursor = ''0-0'' then keep = [] else rest \<noteq> [] \<and> cursor = fst (hd rest) \<Longrightarrow>
     \<forall>x \<in> set keep. \<not> idle_for (get (world s)) (cc_MinIdle (conf c)) x \<Longrightarrow>
     \<exists>s'. claim_loop c parent hdone n cursor s = Some (Inr s') \<and>
       srv_groups (get (world s')) (key_of c) =
         Some (g\<lparr>g_pel := filter (\<lambda>x. \<not> idle_for (get (world s)) (cc_MinIdle (conf c)) x) (g_pel g)\<rparr>)"
proof (induction "length rest" arbitrary: rest keep cursor n s g rule: less_induct)
  case less
  let ?idle = "idle_for (get (world s)) (cc_MinIdle (conf c))"
  obtain pre post jobs start w
    where page: "rest = pre @ post" "rest \<noteq> [] \<longrightarrow> pre \<noteq> []" "start = (case post of [] \<Rightarrow> ''0-0'' | x # _ \<Rightarrow> fst x)"
      and call: "XAutoClaim (rdb c) (claim_args c cursor) (world s) = ((jobs, start, None), w)"
      and after: "\<forall>n m. let v' = get (world (process_all c parent hdone n jobs \<lparr>world = w, metrics = m\<rparr>)) in
        reliable_server v' \<and> srv_streams v' = srv_streams (get (world s)) \<and> srv_now v' = srv_now (get (world s)) \<and>
        srv_groups v' (key_of c) = Some (g\<lparr>g_pel := keep @ filter (\<lambda>x. \<not> ?idle x) pre @ post\<rparr>)"
    by (rule claim_page [OF on less.prems(1-5), of parent hdone])
  let ?s1 = "process_all c parent hdone n jobs (s\<lparr>world := w\<rparr>)"
  let ?keep = "keep @ filter (\<lambda>x. \<not> ?idle x) pre"
  let ?g1 = "g\<lparr>g_pel := ?keep @ post\<rparr>"
  have loop: "claim_loop c parent hdone n cursor s =
      (if start = ''0-0'' then Some (Inr ?s1) else claim_loop c parent hdone (n + length jobs) start ?s1)"
    by (subst claim_loop.simps) (simp add: call Let_def)
  have v1: "reliable_server (get (world ?s1))" "srv_streams (get (world ?s1)) = srv_streams (get (world s))"
    "srv_now (get (world ?s1)) = srv_now (get (world s))" "srv_groups (get (world ?s1)) (key_of c) = Some ?g1"
    using after [rule_format, of n "metrics s"] by (cases s, simp add: Let_def)+
  have kept: "filter (\<lambda>x. \<not> ?idle x) (g_pel g) = ?keep @ filter (\<lambda>x. \<not> ?idle x) post"
    using less.prems(4,6) page(1) by simp
  show ?case
  proof (cases post)
    case Nil
    with loop page(3) v1(4) kept show ?thesis by simp
  next
    case (Cons x xs)
    let ?ms = "srv_streams (get (world s)) (cc_Stream (conf c))"
    have idle: "idle_for (get (world ?s1)) d y = idle_for (get (world s)) d y" for d y using v1(3) by (simp add: idle_for_def)
    have wf: "wf_pel ?ms (?keep @ post)"
      using less.prems(3,4) page(1) by (auto simp: wf_pel_def sorted_wrt_append sorted_wrt_filter)
    have "fst x \<in> X_ID ` set ?ms" "''0-0'' \<notin> X_ID ` set ?ms" using wf Cons by (auto simp: wf_pel_def)
    then have start: "start = fst (hd post)" "start \<noteq> ''0-0''" using page(3) Cons by auto
    have shorter: "length post < length rest" using page(1,2) Cons by auto
    have "\<exists>s'. claim_loop c parent hdone (n + length jobs) start ?s1 = Some (Inr s') \<and>
        srv_groups (get (world s')) (key_of c) = Some (?g1\<lparr>g_pel := filter (\<lambda>x. \<not> idle_for (get (world ?s1)) (cc_MinIdle (conf c)) x) (g_pel ?g1)\<rparr>)"
    proof (rule less.hyps [OF shorter v1(1,4)])
      show "g_pel ?g1 = ?keep @ post" by simp
    qed (use wf v1(2) start Cons less.prems(6) idle in auto)
    with loop start(2) kept less.prems(6) show ?thesis by (auto simp: idle filter_id_conv comp_def)
  qed
qed

section \<open>Properties\<close>

text \<open>What the locale gives for all consumers of a server: every trigger that was waiting for the group
  or pending in it is still waiting or pending, or a handler has run on it.\<close>

lemma triggers_kept:
  assumes "stream_group r waiting pending" "\<forall>c \<in> set cs. on_group r waiting pending c" "keeps_triggers waiting pending env"
    and "run parent env (concat (map Run_threads cs)) (run_init (concat (map Run_threads cs)) st) es s"
  shows "waiting (world st) k \<union> pending (world st) k \<subseteq>
     waiting (world (r_state s)) k \<union> pending (world (r_state s)) k \<union> {i. (k, i) \<in> set (r_log s)}"
proof -
  let ?ts = "concat (map Run_threads cs)"
  have "\<forall>x \<in> set ?ts \<union> set (r_threads (run_init ?ts st)). on_group r waiting pending (fst x)"
    using assms(2) by (auto simp: run_init_def Run_threads_def)
  from stream_group.run_covered [OF assms(1,4) _ _ this assms(3), of k]
  show ?thesis by (simp add: run_init_def covered_def)
qed

definition sample_server :: Server where
  "sample_server = \<lparr>srv_streams = (\<lambda>_. [\<lparr>X_ID = ''1-0'', X_Values = []\<rparr>]), srv_groups = (\<lambda>_. Some \<lparr>g_last = 0, g_pel = []\<rparr>),
     srv_now = 0, srv_calls = 0, srv_fault = (\<lambda>_. None)\<rparr>"

definition srv_consumer :: "Server Consumer" where
  "srv_consumer = NewConsumer (server_redis id (\<lambda>v _. v)) (\<lambda>s. Inl (Err ''bad json''))
     \<lparr>cc_Stream = ''mtpa:cycle:scan_master'', cc_Group = ''mtpa'', cc_ConsumerID = ''agent-1'', cc_CycleType = CycleScanMaster,
      cc_Pool = 1, cc_Timeout = 0, cc_BlockMs = 0, cc_MinIdle = 15 * minute, cc_ReaperTimeout = 10 * minute\<rparr>
     (\<lambda>c w. (Some (RuntimePanic ''boom''), w))"

lemma srv_consumer_on_group: "on_group (server_redis id (\<lambda>v _. v)) srv_waiting srv_pending srv_consumer"
  by (simp add: on_group_def srv_consumer_def NewConsumer_def)

lemma srv_env_keeps_triggers: "keeps_triggers srv_waiting srv_pending srv_env"
  using srv_env_keeps unfolding keeps_triggers_def by blast


definition busy_server :: Server where
  "busy_server = sample_server\<lparr>srv_now := hour, srv_streams := (\<lambda>_. [\<lparr>X_ID = ''1-0'', X_Values = []\<rparr>, \<lparr>X_ID = ''2-0'', X_Values = []\<rparr>]),
     srv_groups := (\<lambda>_. Some \<lparr>g_last = 2, g_pel = [(''1-0'', \<lparr>pe_consumer = ''agent-0'', pe_since = 0\<rparr>), (''2-0'', \<lparr>pe_consumer = ''agent-1'', pe_since = hour\<rparr>)]\<rparr>)\<rparr>"


text \<open>The steps of the scenario below: a worker takes a trigger, the reaper takes it over, the worker's
  handler comes to its end.\<close>

lemma worker_takes:
  assumes "on_server id (\<lambda>v _. v) c" "reliable_server (world st)" "srv_streams (world st) (cc_Stream (conf c)) = [m]"
    and "srv_groups (world st) (key_of c) = Some \<lparr>g_last = 0, g_pel = []\<rparr>"
  shows "\<exists>st'. go_run parent c False (WTop, st, h) [Read, Begin] (Handling ToWorker m [], st', h) \<and>
     world st' = set_group (key_of c) \<lparr>g_last = 1, g_pel = [(X_ID m, \<lparr>pe_consumer = cc_ConsumerID (conf c), pe_since = srv_now (world st)\<rparr>)]\<rparr>
       (called (world st))"
proof -
  let ?v = "set_group (key_of c) \<lparr>g_last = 1, g_pel = [(X_ID m, \<lparr>pe_consumer = cc_ConsumerID (conf c), pe_since = srv_now (world st)\<rparr>)]\<rparr>
       (called (world st))"
  have "XReadGroup (rdb c) (read_args c) (world st) = (Inr [[m]], ?v)"
    using assms by (simp add: on_server_def server_redis_def srv_read_def read_args_def Let_def reliable_server_def key_of_def)
  from go_step.read [of False, OF _ this, of parent h] begin_msg [of parent c False ToWorker m "[]" "st\<lparr>world := ?v\<rparr>" h]
  have "go_run parent c False (WTop, st, h) [Read, Begin] (Handling ToWorker m [], with_metrics (add_inflight (cc_CycleType (conf c)) 1) (st\<lparr>world := ?v\<rparr>), h)"
    by (auto intro: go_Cons go_run_one)
  then show ?thesis by (auto simp: with_metrics_def)
qed

lemma reaper_takes:
  assumes "on_server id (\<lambda>v _. v) c" "reliable_server (world st)" "srv_streams (world st) (cc_Stream (conf c)) = [m]"
    and "srv_groups (world st) (key_of c) = Some \<lparr>g_last = 1, g_pel = [(X_ID m, e)]\<rparr>"
    and "cc_MinIdle (conf c) \<le> srv_now (world st) - pe_since e" "0 < cc_ReaperTimeout (conf c)"
  shows "\<exists>st'. go_run parent c False (RStart, st, h) [Start, Tick, Claim, Begin, Handle, Ack]
       (Proc (ToReaper ''0-0'') [], st', h @ [(key_of c, X_ID m)]) \<and> srv_now (world st') = srv_now (world st)"
proof -
  let ?v = "set_group (key_of c) \<lparr>g_last = 1, g_pel = redeliver [X_ID m] \<lparr>pe_consumer = cc_ConsumerID (conf c), pe_since = srv_now (world st)\<rparr>
      [(X_ID m, e)]\<rparr> (called (world st))"
  let ?st = "st\<lparr>world := ?v\<rparr>"
  have "XAutoClaim (rdb c) (claim_args c ''0-0'') (world st) = (([m], ''0-0'', None), ?v)"
    using assms(1-5) by (simp add: on_server_def server_redis_def srv_claim_def claim_args_sel claim_from_def Let_def reliable_server_def key_of_def)
  from go_step.claim [OF this, of ?st parent False h] assms(6)
  have "go_run parent c False (RStart, st, h) [Start, Tick, Claim] (Proc (ToReaper ''0-0'') [m], ?st, h)"
    by (auto intro!: go_Cons [OF reaper_start] go_Cons [OF tick] go_run_one)
  from go_run_append [OF this process_go [where hdone = "(None, Canceled)"]]
  have "go_run parent c False (RStart, st, h) [Start, Tick, Claim, Begin, Handle, Ack]
      (Proc (ToReaper ''0-0'') [], process c parent (None, Canceled) m ?st, h @ [(key_of c, X_ID m)])" by simp
  moreover have "srv_now (world (process c parent (None, Canceled) m ?st)) = srv_now (world st)"
    using process_server [OF assms(1), of ?st _ parent "(None, Canceled)" m] assms(2) by simp
  ultimately show ?thesis by blast
qed

lemma handler_ends:
  assumes "on_server id (\<lambda>v _. v) c"
  shows "\<exists>st'. go_run parent c fin (Handling k m ms, st, h) [Handle] (Acking k m ms, st', h @ [(key_of c, X_ID m)]) \<and> world st' = world st"
proof -
  let ?hctx = "handler_ctx (None, Canceled) parent (decodeJobID c m)"
  obtain err w where h: "runHandler c ?hctx (world st) = (err, w)" by fastforce
  then have "w = world st" using runHandler_world [of c ?hctx "world st"] assms by (simp add: on_server_def)
  with go_run_one [OF handle [OF h, of fin k ms]] show ?thesis by (fastforce simp: with_metrics_def)
qed

text \<open>
  C15.  A trigger whose handler runs longer than \<open>MinIdle\<close> is handled twice although
  nothing failed: the reaper of the same consumer takes it from the worker that still works on it.
  (By default the handler may run for thirty minutes, and an entry counts as idle after fifteen.)
\<close>

theorem long_cycle_runs_twice:
  assumes "on_server id (\<lambda>v _. v) c" "reliable_server v" "srv_streams v (cc_Stream (conf c)) = [m]" "X_ID m \<noteq> ''0-0''"
    and "srv_groups v (key_of c) = Some \<lparr>g_last = 0, g_pel = []\<rparr>"
    and "0 < cc_Pool (conf c)" "0 < cc_ReaperTimeout (conf c)" "0 \<le> cc_MinIdle (conf c)"
  shows "\<exists>es s. run parent srv_env ts (run_init (Run_threads c) \<lparr>world = v, metrics = mt\<rparr>) es s \<and>
     Restart \<notin> set es \<and> Cancel \<notin> set es \<and> r_log s = [(key_of c, X_ID m), (key_of c, X_ID m)] \<and>
     srv_now (world (r_state s)) = srv_now v + cc_MinIdle (conf c)"
proof -
  let ?st = "\<lparr>world = v, metrics = mt\<rparr>"
  let ?s0 = "run_init (Run_threads c) ?st"
  have len: "Suc 0 < length (r_threads ?s0)" "r_threads ?s0 ! 0 = (c, RStart)" "r_threads ?s0 ! 1 = (c, WTop)" "alive ?s0"
    using assms(6) by (auto simp: run_init_def Run_threads_def alive_def)
  obtain st1 where g1: "go_run parent c False (WTop, ?st, []) [Read, Begin] (Handling ToWorker m [], st1, [])"
    and st1: "world st1 = set_group (key_of c) \<lparr>g_last = 1, g_pel = [(X_ID m, \<lparr>pe_consumer = cc_ConsumerID (conf c), pe_since = srv_now v\<rparr>)]\<rparr> (called v)"
    using worker_takes [OF assms(1), of ?st m parent "[]"] assms(2,3,5) by auto
  let ?s1 = "at_thread ?s0 1 (Handling ToWorker m [], st1, [])"
  have r1: "run parent srv_env ts ?s0 (map (Go 1) [Read, Begin]) ?s1"
    by (rule go_run_lift [OF g1]) (use len in \<open>auto simp: run_init_def\<close>)
  have a1: "alive ?s1" using alive_at_thread [OF len(4), of 1] len(1) by simp
  let ?st2 = "st1\<lparr>world := srv_tick (cc_MinIdle (conf c)) (world st1)\<rparr>"
  let ?s2 = "?s1\<lparr>r_state := ?st2\<rparr>"
  have r2: "run parent srv_env ts ?s1 [Environ] ?s2"
    using run_one [OF run_step.environ [of srv_env ?s1 "world ?st2" parent ts]] srv_env.later [OF assms(8), of "world st1"] by simp
  obtain st3 where g3: "go_run parent c False (RStart, ?st2, []) [Start, Tick, Claim, Begin, Handle, Ack]
       (Proc (ToReaper ''0-0'') [], st3, [(key_of c, X_ID m)])" and st3: "srv_now (world st3) = srv_now v + cc_MinIdle (conf c)"
    using reaper_takes [OF assms(1), of ?st2 m _ parent "[]"] assms(2,3,7)
    by (auto simp: st1 srv_tick_def reliable_server_def set_group_def called_def)
  let ?s3 = "at_thread ?s2 0 (Proc (ToReaper ''0-0'') [], st3, [(key_of c, X_ID m)])"
  have r3: "run parent srv_env ts ?s2 (map (Go 0) [Start, Tick, Claim, Begin, Handle, Ack]) ?s3"
    by (rule go_run_lift [OF g3]) (use len a1 in \<open>auto simp: alive_def run_init_def\<close>)
  have "alive ?s2" using a1 by (simp add: alive_def)
  then have a3: "alive ?s3" using alive_at_thread [of ?s2 0] len(1) by (subst alive_at_thread) auto
  obtain st4 where g4: "go_run parent c False (Handling ToWorker m [], st3, [(key_of c, X_ID m)]) [Handle]
      (Acking ToWorker m [], st4, [(key_of c, X_ID m), (key_of c, X_ID m)])" and st4: "world st4 = world st3"
    using handler_ends [OF assms(1), of parent False ToWorker m "[]" st3 "[(key_of c, X_ID m)]"] by auto
  let ?s4 = "at_thread ?s3 1 (Acking ToWorker m [], st4, [(key_of c, X_ID m), (key_of c, X_ID m)])"
  have r4: "run parent srv_env ts ?s3 (map (Go 1) [Handle]) ?s4"
    by (rule go_run_lift [OF g4]) (use len a3 in \<open>auto simp: run_init_def\<close>)
  from run_append [OF r1 run_append [OF r2 run_append [OF r3 r4]]]
  show ?thesis using st3 st4 by (intro exI conjI) auto
qed

theorem long_cycle_runs_twice_witness:
  "\<exists>es s. run \<lparr>ctx_jobID = None, done_from = None, done_err = Canceled\<rparr> srv_env [] (run_init (Run_threads srv_consumer) \<lparr>world = sample_server, metrics = None\<rparr>) es s \<and>
     Restart \<notin> set es \<and> r_log s = [(key_of srv_consumer, ''1-0''), (key_of srv_consumer, ''1-0'')] \<and>
     srv_now (world (r_state s)) < cc_Timeout (conf srv_consumer)"
proof -
  have c: "cc_MinIdle (conf srv_consumer) = 15 * minute" "cc_Timeout (conf srv_consumer) = 30 * minute" "cc_Pool (conf srv_consumer) = 1"
    "cc_ReaperTimeout (conf srv_consumer) = 10 * minute" "on_server id (\<lambda>v _. v) srv_consumer"
    by (simp_all add: srv_consumer_def NewConsumer_def consumer_defaults_def Let_def on_server_def)
  from long_cycle_runs_twice [OF c(5), of sample_server "\<lparr>X_ID = ''1-0'', X_Values = []\<rparr>"] c
  show ?thesis by (fastforce simp: sample_server_def reliable_server_def minute_def second_def)
qed

end
