(* ===== verification/Agent_App.thy ===== *)
theory Agent_App
  imports Postgres Ton_Scanners Dht_Resolver Direct_Provider Update_Cycle Redis_Group
begin

text \<open>
  The composition of the agent: \<open>internal/config/config.go\<close> and \<open>internal/app/app.go\<close>.
  \<open>app.New\<close> wires the adapters into the use cases and binds each cycle type to a handler,
  \<open>MustRun\<close> starts a consumer for each enabled binding, \<open>Close\<close> releases the resources.
  The state of the wired agent is the database, the result bus and the redis server with the trigger
  streams; everything else that answers from outside is a field of \<open>Env\<close>.
\<close>

section \<open>internal/config\<close>

record SystemCfg =
  sys_AgentID :: string
  sys_ADNLPort :: string
  sys_Key :: "byte list"
  sys_LogLevel :: byte
  sys_MinJobIdle :: duration
  sys_ReaperTimeout :: duration

record PostgresCfg =
  pg_Host :: string
  pg_Port :: string
  pg_User :: string
  pg_Password :: string
  pg_Name :: string

record RedisCfg =
  rd_Addr :: string
  rd_Password :: string
  rd_DB :: int
  rd_Group :: string
  rd_StreamPrefix :: string
  rd_ResultMaxLen :: int

record TONCfg =
  ton_MasterAddress :: string
  ton_ConfigURL :: string

record UsecaseCfg =
  Enabled :: bool
  Pool :: int
  Timeout :: duration
  BlockMs :: int
  Concurrency :: int
  uc_EndpointTTL :: duration

record WorkersCfg =
  wk_Discovery :: UsecaseCfg
  wk_Poll :: UsecaseCfg
  wk_Proof :: UsecaseCfg
  wk_Update :: UsecaseCfg

record MetricsCfg =
  mt_Enabled :: bool
  mt_Port :: string

record TelemetryCfg =
  tel_Enabled :: bool
  tel_EndPoint :: string
  tel_ServiceName :: string

record Config =
  cfg_System :: SystemCfg
  cfg_Postgres :: PostgresCfg
  cfg_Redis :: RedisCfg
  cfg_TON :: TONCfg
  cfg_Workers :: WorkersCfg
  cfg_Metrics :: MetricsCfg
  cfg_Telemetry :: TelemetryCfg

definition DSN :: "PostgresCfg \<Rightarrow> string" where
  "DSN p = ''postgres://'' @ pg_User p @ '':'' @ pg_Password p @ ''@'' @ pg_Host p @ '':'' @ pg_Port p @ ''/'' @
     pg_Name p @ ''?sslmode=disable''"

text \<open>\<open>os\<close>, \<open>cleanenv\<close>, \<open>uuid\<close> and \<open>ed25519\<close> as \<open>MustLoad\<close> uses them;
  \<open>GenerateKey\<close> gives the key rebuilt from the seed of a fresh one.\<close>

record LoadEnv =
  CONFIG_PATH :: string
  NotExist :: "string \<Rightarrow> bool"
  ReadConfig :: "string \<Rightarrow> Config res"
  NewUUID :: string
  GenerateKey :: "byte list res"
  error_text :: "error \<Rightarrow> string"

definition MustLoad :: "LoadEnv \<Rightarrow> Config res" where
  "MustLoad l =
     (if CONFIG_PATH l = '''' then Inl (RuntimePanic ''CONFIG_PATH is not set'')
      else if NotExist l (CONFIG_PATH l) then Inl (RuntimePanic (''config file '' @ CONFIG_PATH l @ '' does not exist''))
      else (case ReadConfig l (CONFIG_PATH l) of
              Inl e \<Rightarrow> Inl (RuntimePanic (''failed to read config: '' @ error_text l e))
            | Inr cfg \<Rightarrow>
              (let sys = cfg_System cfg;
                   sys = (if sys_AgentID sys = '''' \<or> sys_AgentID sys = ''auto''
                          then sys\<lparr>sys_AgentID := ''agent-'' @ NewUUID l\<rparr> else sys) in
               if length (sys_Key sys) = 0 then
                 (case GenerateKey l of
                    Inl e \<Rightarrow> Inl (RuntimePanic (''failed to generate ed25519 key: '' @ error_text l e))
                  | Inr key \<Rightarrow> Inr (cfg\<lparr>cfg_System := sys\<lparr>sys_Key := key\<rparr>\<rparr>))
               else Inr (cfg\<lparr>cfg_System := sys\<rparr>))))"

section \<open>The world the agent is wired to\<close>

record World =
  w_db :: Db
  w_bus :: Bus
  w_server :: Server

definition on_db :: "(Db \<Rightarrow> error option \<times> Db) \<Rightarrow> World \<Rightarrow> error option \<times> World" where
  "on_db f w = (case f (w_db w) of (r, db) \<Rightarrow> (r, w\<lparr>w_db := db\<rparr>))"

definition on_bus :: "(Bus \<Rightarrow> error option \<times> Bus) \<Rightarrow> World \<Rightarrow> error option \<times> World" where
  "on_bus f w = (case f (w_bus w) of (r, b) \<Rightarrow> (r, w\<lparr>w_bus := b\<rparr>))"

text \<open>
  What answers from outside during one run of a handler: the database driver's replies, the
  liteserver (\<open>e_transactions\<close> are the results of \<open>GetTransactions\<close>), the DHT, the providers,
  the geo service, the clocks, the random draws, and the orders that Go and the goroutines leave
  open.
\<close>

record ('a, 'b, 'd, 'peer, 'cell) Env =
  e_uni :: "string \<Rightarrow> string"
  e_loc :: "string \<Rightarrow> string"
  e_marshal :: marshaller
  e_pub_now :: time
  e_q_pubkeys :: "provider_row pg_reply"
  e_q_wallets :: "provider_row pg_reply"
  e_q_relations :: "(provider_row \<times> contract_row) pg_reply"
  e_q_fresh :: "string \<Rightarrow> provider_row pg_reply"
  e_q_all :: "provider_row pg_reply"
  e_q_ips :: "provider_row pg_reply"
  e_q_lt :: "string pg_reply"
  e_set_err :: "error option"
  e_update_err :: "error option"
  e_pick :: "u64 list \<Rightarrow> u64"
  e_db_now :: "string \<Rightarrow> time"
  e_api :: "('a, 'b) LiteApi"
  e_transactions :: "nat \<Rightarrow> string \<Rightarrow> u64 \<Rightarrow> Transaction option list res"
  e_dht :: "nat \<Rightarrow> 'd DhtClient"
  e_rnd :: "nat \<Rightarrow> nat \<Rightarrow> nat"
  e_rates :: "duration \<Rightarrow> nat \<Rightarrow> get_rates"
  e_net :: "string \<Rightarrow> nat \<Rightarrow> ('peer, 'cell) Net"
  e_net_clk :: "string \<Rightarrow> nat \<Rightarrow> nat \<Rightarrow> time"
  e_draw :: "string \<Rightarrow> nat \<Rightarrow> nat"
  e_http :: "duration \<Rightarrow> nat \<Rightarrow> Http"
  e_now :: time
  e_probe_clk :: "nat \<Rightarrow> time"
  e_state_clk :: "nat \<Rightarrow> nat \<Rightarrow> time"
  e_proof_clk :: "string \<Rightarrow> nat \<Rightarrow> time"
  e_shuffle :: "string \<Rightarrow> nat \<Rightarrow> nat"
  e_notice :: "string \<Rightarrow> nat option"
  e_ord :: "string iter_order"
  e_scan_ord :: "nat \<Rightarrow> string iter_order"
  e_tasks :: "string iter_order"
  e_probe_fin :: "probe_task iter_order"
  e_proof_fin :: "proof_task iter_order"

text \<open>The lite client that a call uses; \<open>GetTransactions\<close> returns on this environment.\<close>

definition ton_client :: "('a, 'b, 'd, 'peer, 'cell) Env \<Rightarrow> nat \<Rightarrow> TonClient" where
  "ton_client e k = lite_client (e_tasks e) (e_api e) (e_transactions e k)"

definition returns_transactions :: "('a, 'b, 'd, 'peer, 'cell) Env \<Rightarrow> bool" where
  "returns_transactions e \<longleftrightarrow> (\<forall>k addr lt. GetTransactions (e_api e) addr lt = Some (e_transactions e k addr lt))"

section \<open>app.New: the use cases\<close>

definition streamKey :: "Config \<Rightarrow> string \<Rightarrow> string \<Rightarrow> string" where
  "streamKey cfg kind cycleType = rd_StreamPrefix (cfg_Redis cfg) @ '':'' @ kind @ '':'' @ cycleType"

definition app_publisher :: "Config \<Rightarrow> Publisher" where
  "app_publisher cfg = NewPublisher (rd_ResultMaxLen (cfg_Redis cfg)) (sys_AgentID (cfg_System cfg))"

definition app_publish ::
  "('a, 'b, 'd, 'peer, 'cell) Env \<Rightarrow> Config \<Rightarrow> string \<Rightarrow> string \<Rightarrow> string \<Rightarrow> Payload \<Rightarrow> World \<Rightarrow> error option \<times> World" where
  "app_publish e cfg s j c p = on_bus (PublishResult (e_marshal e) bus_XAdd (e_pub_now e) (app_publisher cfg) s j c p)"

definition app_discovery :: "('a, 'b, 'd, 'peer, 'cell) Env \<Rightarrow> Config \<Rightarrow> World Discovery" where
  "app_discovery e cfg = NewDiscovery
     \<lparr>MasterAddr = ton_MasterAddress (cfg_TON cfg), EndpointTTL = uc_EndpointTTL (wk_Discovery (cfg_Workers cfg)),
        ScanMasterStream = streamKey cfg ''result'' CycleScanMaster,
        ScanWalletsStream = streamKey cfg ''result'' CycleScanWallets,
        ResolveEndpointsStream = streamKey cfg ''result'' CycleResolveEndpoints\<rparr>
     (MasterScanner_Scan (e_uni e) (e_ord e) (ton_client e 0))
     (\<lambda>k. Scanner_Scan (e_scan_ord e k) (ton_client e k))
     (\<lambda>k. Resolve (e_dht e k), \<lambda>k. ResolveStorageWithOverlay (e_rnd e k) (e_dht e k))
     (\<lambda>w. GetAllPubkeys (e_q_pubkeys e) (w_db w), \<lambda>w. GetAllWallets (e_q_wallets e) (w_db w),
      \<lambda>ps. on_db (UpdateLT (e_loc e) (e_pick e) (e_update_err e) ps))
     (\<lambda>w. GetActiveRelations (e_q_relations e) (w_db w))
     (\<lambda>w. LoadAll (e_q_all e) (w_db w))
     (\<lambda>w. GetMasterWalletLT (e_q_lt e) (w_db w), \<lambda>lt. on_db (SetMasterWalletLT (e_set_err e) lt))
     (app_publish e cfg)"

definition app_poll :: "('a, 'b, 'd, 'peer, 'cell) Env \<Rightarrow> Config \<Rightarrow> World Poll" where
  "app_poll e cfg = NewPoll
     \<lparr>p_cfg = \<lparr>ProbeTimeout = 0, MaxConcurrentProbe = Concurrency (wk_Poll (cfg_Workers cfg)),
        ProbeRatesStream = streamKey cfg ''result'' CycleProbeRates,
        InspectContractsStream = streamKey cfg ''result'' CycleInspectContracts\<rparr>,
      p_Probe = (\<lambda>t k. Probe (e_rates e t k)),
      p_InspectProviders = InspectProviders (ton_client e 0),
      p_GetAllPubkeys = (\<lambda>w. GetAllPubkeys (e_q_pubkeys e) (w_db w)),
      p_GetActiveRelations = (\<lambda>w. GetActiveRelations (e_q_relations e) (w_db w)),
      p_PublishResult = app_publish e cfg\<rparr>"

definition app_proof :: "('a, 'b, 'd, 'peer, 'cell) Env \<Rightarrow> Config \<Rightarrow> World Proof" where
  "app_proof e cfg = NewProof
     \<lparr>pr_cfg = \<lparr>EndpointMaxAge = uc_EndpointTTL (wk_Proof (cfg_Workers cfg)),
        MaxConcurrentBags = Concurrency (wk_Proof (cfg_Workers cfg)), MaxBagsPerProvider = 0, BagsSamplePercent = 0,
        BetweenBagsCooldown = 0, CheckProofsStream = streamKey cfg ''result'' CycleCheckProofs\<rparr>,
      pr_Verify = (\<lambda>pk i. Verify (e_net e pk i) (e_net_clk e pk i) (e_draw e pk i)),
      pr_GetActiveRelations = (\<lambda>w. GetActiveRelations (e_q_relations e) (w_db w)),
      pr_LoadFresh = (\<lambda>pk age w. LoadFresh (e_loc e) (e_q_fresh e pk) (e_db_now e pk) pk age (w_db w)),
      pr_PublishResult = app_publish e cfg\<rparr>"

definition app_update :: "('a, 'b, 'd, 'peer, 'cell) Env \<Rightarrow> Config \<Rightarrow> World Update" where
  "app_update e cfg = NewUpdate
     \<lparr>u_cfg = \<lparr>IPInfoTimeout = 0, BetweenIPsCooldown = 0, LookupIPInfoStream = streamKey cfg ''result'' CycleLookupIPInfo\<rparr>,
      u_GetIPInfo = (\<lambda>t k. GetIPInfo (e_http e t k)),
      u_GetProvidersIPs = (\<lambda>w. GetProvidersIPs (e_q_ips e) (w_db w)),
      u_PublishResult = app_publish e cfg\<rparr>"

section \<open>app.New: the bindings\<close>

record binding =
  b_cycleType :: string
  b_usecase :: UsecaseCfg
  b_handler :: "World CycleHandler"

definition app_bindings :: "('a, 'b, 'd, 'peer, 'cell) Env \<Rightarrow> Config \<Rightarrow> binding list" where
  "app_bindings e cfg =
     [\<lparr>b_cycleType = CycleScanMaster, b_usecase = wk_Discovery (cfg_Workers cfg),
       b_handler = CollectNewProviders (e_uni e) (app_discovery e cfg)\<rparr>,
      \<lparr>b_cycleType = CycleScanWallets, b_usecase = wk_Discovery (cfg_Workers cfg),
       b_handler = CollectStorageContracts (e_ord e) (app_discovery e cfg)\<rparr>,
      \<lparr>b_cycleType = CycleResolveEndpoints, b_usecase = wk_Discovery (cfg_Workers cfg),
       b_handler = ResolveEndpoints (e_ord e) (e_now e) (app_discovery e cfg)\<rparr>,
      \<lparr>b_cycleType = CycleProbeRates, b_usecase = wk_Poll (cfg_Workers cfg),
       b_handler = UpdateProviderRates (e_probe_fin e) (e_probe_clk e) (app_poll e cfg)\<rparr>,
      \<lparr>b_cycleType = CycleInspectContracts, b_usecase = wk_Poll (cfg_Workers cfg),
       b_handler = UpdateRejectedContracts (e_ord e) (e_state_clk e) (app_poll e cfg)\<rparr>,
      \<lparr>b_cycleType = CycleCheckProofs, b_usecase = wk_Proof (cfg_Workers cfg),
       b_handler = CheckStorageProofs (e_ord e) (e_proof_fin e) (e_notice e) (e_shuffle e) (e_proof_clk e) (app_proof e cfg)\<rparr>,
      \<lparr>b_cycleType = CycleLookupIPInfo, b_usecase = wk_Update (cfg_Workers cfg),
       b_handler = UpdateIPInfo (app_update e cfg)\<rparr>]"


section \<open>app.New, Close and MustRun\<close>

text \<open>A pointer is an optional address; the libraries' constructors are parameters.\<close>

type_synonym 'p pointer = "'p option"

record 'p AdnlEnv =
  GetConfigFromUrl :: "string \<Rightarrow> error option"
  DhtKey :: "error option"
  DefaultListener :: "string \<Rightarrow> error option"
  DhtStart :: "error option"
  NewDhtClient :: "error option"
  ProviderStart :: "error option"
  gateway :: 'p

definition first_err :: "(string \<times> error option) list \<Rightarrow> error option" where
  "first_err steps =
     (case List.find (\<lambda>s. snd s \<noteq> None) steps of None \<Rightarrow> None
      | Some (msg, e) \<Rightarrow> Some (Wrapped (''main.initADNL: '' @ msg) (the e)))"

definition initADNL :: "'p AdnlEnv \<Rightarrow> string \<Rightarrow> string \<Rightarrow> 'p res" where
  "initADNL a configURL adnlPort =
     (case first_err [(''liteclient config'', GetConfigFromUrl a configURL), (''dht key'', DhtKey a),
                      (''udp listen'', DefaultListener a (''0.0.0.0:'' @ adnlPort)), (''dht gateway'', DhtStart a),
                      (''dht client'', NewDhtClient a), (''provider gateway'', ProviderStart a)] of
        Some e \<Rightarrow> Inl e
      | None \<Rightarrow> Inr (gateway a))"

text \<open>\<open>adnlclients.New\<close>, the second constructor of the same clients: the same steps in the same
  order, with other texts.\<close>

definition adnlclients_New :: "'p AdnlEnv \<Rightarrow> string \<Rightarrow> string \<Rightarrow> 'p res" where
  "adnlclients_New a configURL ADNLPort =
     (case List.find (\<lambda>s. snd s \<noteq> None)
        [(''failed to get liteclient config'', GetConfigFromUrl a configURL), (''failed to generate DHT ADNL key'', DhtKey a),
         (''failed to create default listener'', DefaultListener a (''0.0.0.0:'' @ ADNLPort)), (''failed to start DHT gateway'', DhtStart a),
         (''failed to create DHT client'', NewDhtClient a), (''failed to start ADNL gateway for provider'', ProviderStart a)] of
        Some (msg, e) \<Rightarrow> Inl (Wrapped msg (the e))
      | None \<Rightarrow> Inr (gateway a))"

lemma adnlclients_as_initADNL:
  "isl (adnlclients_New a url port) = isl (initADNL a url port) \<and>
   (\<forall>g. adnlclients_New a url port = Inr g \<longleftrightarrow> initADNL a url port = Inr g)"
  by (auto simp: adnlclients_New_def initADNL_def first_err_def split: option.splits)

record 'p BuildEnv =
  otlptracegrpc_New :: "string \<Rightarrow> error option"
  resource_Merge :: "string \<Rightarrow> error option"
  NewTracerProvider :: 'p
  adnl_env :: "'p AdnlEnv"
  pgxpool_New :: "string \<Rightarrow> 'p res"
  pgxpool_Ping :: "'p \<Rightarrow> error option"
  AddConnectionsFromConfigUrl :: "string \<Rightarrow> error option"
  connect_error_text :: "error \<Rightarrow> string"
  redis_New :: 'p

text \<open>\<open>telemetry.New\<close>: the exporter, then the resource with the service name.\<close>

definition telemetry_New :: "'p BuildEnv \<Rightarrow> TelemetryCfg \<Rightarrow> 'p res" where
  "telemetry_New b cfg =
     (case otlptracegrpc_New b (tel_EndPoint cfg) of Some err \<Rightarrow> Inl (Wrapped ''telemetry.New'' err)
      | None \<Rightarrow> (case resource_Merge b (tel_ServiceName cfg) of Some err \<Rightarrow> Inl (Wrapped ''telemetry.New'' err)
                 | None \<Rightarrow> Inr (NewTracerProvider b)))"

definition NewPool :: "'p BuildEnv \<Rightarrow> string \<Rightarrow> 'p res" where
  "NewPool b dsn =
     (case pgxpool_New b dsn of Inl e \<Rightarrow> Inl (Wrapped ''postgres.NewPool'' e)
      | Inr pool \<Rightarrow> (case pgxpool_Ping b pool of Some e \<Rightarrow> Inl (Wrapped ''postgres.NewPool'' e) | None \<Rightarrow> Inr pool))"

text \<open>\<open>liteclient.NewClient\<close> panics when it cannot connect; the error its signature announces is always nil.\<close>

definition NewClient :: "'p BuildEnv \<Rightarrow> string \<Rightarrow> unit res" where
  "NewClient b configUrl =
     (case AddConnectionsFromConfigUrl b configUrl of Some err \<Rightarrow> Inl (RuntimePanic (connect_error_text b err)) | None \<Rightarrow> Inr ())"

record 'p App =
  a_bindings :: "binding list"
  a_Config :: Config
  a_RDB :: "'p pointer"
  a_pool :: "'p pointer"
  a_gateProvider :: "'p pointer"
  a_tracer :: "'p pointer"

definition app_New :: "'p BuildEnv \<Rightarrow> ('a, 'b, 'd, 'peer, 'cell) Env \<Rightarrow> Config \<Rightarrow> 'p App res" where
  "app_New b e cfg =
     (let op = ''app.New'' in
      case (if tel_Enabled (cfg_Telemetry cfg)
            then (case telemetry_New b (cfg_Telemetry cfg) of Inl err \<Rightarrow> Inl (Wrapped op err) | Inr tp \<Rightarrow> Inr (Some tp)) else Inr None) of
        Inl err \<Rightarrow> Inl err
      | Inr tp \<Rightarrow>
        (case initADNL (adnl_env b) (ton_ConfigURL (cfg_TON cfg)) (sys_ADNLPort (cfg_System cfg)) of
           Inl err \<Rightarrow> Inl (Wrapped op err)
         | Inr gateProvider \<Rightarrow>
           (case NewPool b (DSN (cfg_Postgres cfg)) of Inl err \<Rightarrow> Inl (Wrapped op err)
            | Inr pool \<Rightarrow>
              (case NewClient b (ton_ConfigURL (cfg_TON cfg)) of
                 Inl (RuntimePanic s) \<Rightarrow> Inl (RuntimePanic s)
               | Inl err \<Rightarrow> Inl (Wrapped op err)
               | Inr lite \<Rightarrow>
                 Inr \<lparr>a_bindings = app_bindings e cfg, a_Config = cfg, a_RDB = Some (redis_New b), a_pool = None,
                      a_gateProvider = None, a_tracer = tp\<rparr>))))"

text \<open>The \<open>Close\<close> methods of the libraries; \<open>Some\<close> is a panic.  The tracer's error is logged.\<close>

record 'p Closers =
  pool_Close :: "'p pointer \<Rightarrow> error option"
  rdb_Close :: "'p pointer \<Rightarrow> error option"
  gate_Close :: "'p pointer \<Rightarrow> error option"

definition Close :: "'p Closers \<Rightarrow> 'p App \<Rightarrow> error option" where
  "Close cl a =
     (case pool_Close cl (a_pool a) of Some e \<Rightarrow> Some e
      | None \<Rightarrow> (case rdb_Close cl (a_RDB a) of Some e \<Rightarrow> Some e | None \<Rightarrow> gate_Close cl (a_gateProvider a)))"

definition consumer_config :: "Config \<Rightarrow> binding \<Rightarrow> ConsumerConfig" where
  "consumer_config cfg b =
     \<lparr>cc_Stream = streamKey cfg ''cycle'' (b_cycleType b), cc_Group = rd_Group (cfg_Redis cfg),
      cc_ConsumerID = sys_AgentID (cfg_System cfg), cc_CycleType = b_cycleType b, cc_Pool = Pool (b_usecase b),
      cc_Timeout = Timeout (b_usecase b), cc_BlockMs = BlockMs (b_usecase b),
      cc_MinIdle = sys_MinJobIdle (cfg_System cfg), cc_ReaperTimeout = sys_ReaperTimeout (cfg_System cfg)\<rparr>"

text \<open>The loop of \<open>MustRun\<close>: the consumers it starts, or the panic of a group that cannot be
  created.\<close>

fun start_consumers ::
  "(error \<Rightarrow> string) \<Rightarrow> (string \<Rightarrow> string \<Rightarrow> string \<Rightarrow> World \<Rightarrow> error option \<times> World) \<Rightarrow> World Redis \<Rightarrow>
     (string \<Rightarrow> TriggerEnvelope res) \<Rightarrow> Config \<Rightarrow> binding list \<Rightarrow> World \<Rightarrow> World Consumer list res \<times> World" where
  "start_consumers txt mk r um cfg [] w = (Inr [], w)"
| "start_consumers txt mk r um cfg (b # bs) w =
     (if \<not> Enabled (b_usecase b) then start_consumers txt mk r um cfg bs w
      else (case EnsureGroup txt mk (streamKey cfg ''cycle'' (b_cycleType b)) (rd_Group (cfg_Redis cfg)) w of
              (Some e, w') \<Rightarrow> (Inl (RuntimePanic (txt e)), w')
            | (None, w') \<Rightarrow>
                (case start_consumers txt mk r um cfg bs w' of
                   (Inl e, w'') \<Rightarrow> (Inl e, w'')
                 | (Inr cs, w'') \<Rightarrow> (Inr (NewConsumer r um (consumer_config cfg b) (b_handler b) # cs), w''))))"

section \<open>The laws of the ports, on the wired agent\<close>

definition results :: "World \<Rightarrow> (string \<times> string) list" where
  "results w = bus_entries (w_bus w)"

lemma results_on_db [simp]: "results (snd (on_db f w)) = results w"
  by (simp add: results_def on_db_def split: prod.split)

interpretation app_pub: result_publisher "app_publish e cfg" results
  "\<lambda>j c p. e_marshal e (result_env (e_pub_now e) (app_publisher cfg) j c p)" for e cfg
proof unfold_locales
  fix s j c p w w' x
  show "\<exists>d. e_marshal e (result_env (e_pub_now e) (app_publisher cfg) j c p) = Inr d \<and> results w' = results w @ [(s, d)]"
    if "app_publish e cfg s j c p w = (None, w')"
    using that bus_pub.published [of "e_marshal e" "e_pub_now e" "app_publisher cfg" s j c p "w_bus w" "w_bus w'"]
    by (auto simp: app_publish_def on_bus_def results_def split: prod.splits)
  show "results w' = results w" if "app_publish e cfg s j c p w = (Some x, w')"
    using that bus_pub.not_published [of "e_marshal e" "e_pub_now e" "app_publisher cfg" s j c p "w_bus w" x "w_bus w'"]
    by (auto simp: app_publish_def on_bus_def results_def split: prod.splits)
qed

lemma app_discovery_publish [simp]: "d_PublishResult (app_discovery e cfg) = app_publish e cfg"
  "results (snd (d_SetMasterWalletLT (app_discovery e cfg) lt w)) = results w"
  "results (snd (d_UpdateLT (app_discovery e cfg) ps w)) = results w"
  "ScanMasterStream (d_cfg (app_discovery e cfg)) = streamKey cfg ''result'' CycleScanMaster"
  "ScanWalletsStream (d_cfg (app_discovery e cfg)) = streamKey cfg ''result'' CycleScanWallets"
  "ResolveEndpointsStream (d_cfg (app_discovery e cfg)) = streamKey cfg ''result'' CycleResolveEndpoints"
  by (simp_all add: app_discovery_def)

lemma app_usecase_publish [simp]:
  "p_PublishResult (app_poll e cfg) = app_publish e cfg" "pr_PublishResult (app_proof e cfg) = app_publish e cfg"
  "u_PublishResult (app_update e cfg) = app_publish e cfg"
  "ProbeRatesStream (p_cfg (app_poll e cfg)) = streamKey cfg ''result'' CycleProbeRates"
  "InspectContractsStream (p_cfg (app_poll e cfg)) = streamKey cfg ''result'' CycleInspectContracts"
  "CheckProofsStream (pr_cfg (app_proof e cfg)) = streamKey cfg ''result'' CycleCheckProofs"
  "LookupIPInfoStream (u_cfg (app_update e cfg)) = streamKey cfg ''result'' CycleLookupIPInfo"
  by (simp_all add: app_poll_def NewPoll_def poll_defaults_def app_proof_def NewProof_def proof_defaults_def
      app_update_def NewUpdate_def update_defaults_def Let_def)

text \<open>
  The entry that answers a context: on the result stream of the cycle, the text of an \<open>ok\<close>
  envelope with the job id of the context.
\<close>

definition answer_of ::
  "('a, 'b, 'd, 'peer, 'cell) Env \<Rightarrow> Config \<Rightarrow> string \<Rightarrow> ctx \<Rightarrow> string \<times> string \<Rightarrow> bool" where
  "answer_of e cfg cycleType c x \<longleftrightarrow> fst x = streamKey cfg ''result'' cycleType \<and>
     (\<exists>payload. e_marshal e (result_env (e_pub_now e) (app_publisher cfg) (JobIDFrom c) cycleType payload) = Inr (snd x))"

lemma published_answer:
  "app_publish e cfg (streamKey cfg ''result'' cy) (JobIDFrom c) cy p w = (None, w') \<Longrightarrow>
     \<exists>x. results w' = results w @ [x] \<and> answer_of e cfg cy c x"
  by (drule app_pub.published) (auto simp: answer_of_def)

text \<open>Each of the seven handlers publishes one answer when it succeeds and none when it fails.\<close>

interpretation h_scan_master: cycle_handler "CollectNewProviders uni (app_discovery e cfg)" results "answer_of e cfg CycleScanMaster" for uni e cfg
  by unfold_locales
    (auto simp: CollectNewProviders_def Let_def split: sum.splits prod.splits option.splits if_splits
      dest!: published_answer app_pub.not_published)

interpretation h_scan_wallets: cycle_handler "CollectStorageContracts ord (app_discovery e cfg)" results "answer_of e cfg CycleScanWallets" for ord e cfg
  by unfold_locales
    (auto simp: CollectStorageContracts_def Let_def split: sum.splits prod.splits option.splits if_splits
      dest!: published_answer app_pub.not_published)

interpretation h_resolve: cycle_handler "ResolveEndpoints ord now (app_discovery e cfg)" results "answer_of e cfg CycleResolveEndpoints" for ord now e cfg
  by unfold_locales
    (auto simp: ResolveEndpoints_def Let_def split: sum.splits prod.splits option.splits if_splits
      dest!: published_answer app_pub.not_published)

interpretation h_probe: cycle_handler "UpdateProviderRates fin clk (app_poll e cfg)" results "answer_of e cfg CycleProbeRates" for fin clk e cfg
  by unfold_locales
    (auto simp: UpdateProviderRates_def Let_def split: sum.splits prod.splits option.splits if_splits
      dest!: published_answer app_pub.not_published)

interpretation h_inspect: cycle_handler "UpdateRejectedContracts ord clk (app_poll e cfg)" results "answer_of e cfg CycleInspectContracts" for ord clk e cfg
  by unfold_locales
    (auto simp: UpdateRejectedContracts_def Let_def split: sum.splits prod.splits option.splits if_splits
      dest!: published_answer app_pub.not_published)

interpretation h_proofs: cycle_handler "CheckStorageProofs ord fin notice rnd clk (app_proof e cfg)" results "answer_of e cfg CycleCheckProofs" for ord fin notice rnd clk e cfg
  by unfold_locales
    (auto simp: CheckStorageProofs_def Let_def split: sum.splits prod.splits option.splits if_splits
      dest!: published_answer app_pub.not_published)

interpretation h_ipinfo: cycle_handler "UpdateIPInfo (app_update e cfg)" results "answer_of e cfg CycleLookupIPInfo" for e cfg
  by unfold_locales
    (auto simp: UpdateIPInfo_def Let_def split: sum.splits prod.splits option.splits if_splits
      dest!: published_answer app_pub.not_published)

lemma binding_is_handler:
  "b \<in> set (app_bindings e cfg) \<Longrightarrow> cycle_handler (b_handler b) results (answer_of e cfg (b_cycleType b))"
  unfolding app_bindings_def
  by (auto intro: h_scan_master.cycle_handler_axioms h_scan_wallets.cycle_handler_axioms h_resolve.cycle_handler_axioms
      h_probe.cycle_handler_axioms h_inspect.cycle_handler_axioms h_proofs.cycle_handler_axioms h_ipinfo.cycle_handler_axioms)

interpretation app_cache: keyless_cache "\<lambda>pk age w. LoadFresh loc (q pk) (now pk) pk age (w_db w)" for loc q now
  by unfold_locales (rule LoadFresh_no_storage_key)

interpretation app_ports: proof_ports
  "\<lambda>pk i. Verify (net pk i) (clk pk i) (draw pk i)" "\<lambda>pk age w. LoadFresh loc (q pk) (now pk) pk age (w_db w)"
  for net clk draw loc q now
  by unfold_locales

section \<open>Streams and consumers\<close>

lemma streamKey_inject:
  assumes "streamKey cfg k1 c1 = streamKey cfg k2 c2" "k1 \<in> {''cycle'', ''result''}" "k2 \<in> {''cycle'', ''result''}"
  shows "k1 = k2 \<and> c1 = c2"
  using assms by (auto simp: streamKey_def)

lemma cycle_types_distinct: "distinct (map b_cycleType (app_bindings e cfg))"
  by (simp add: app_bindings_def cycle_defs)

lemma start_consumers_Inr:
  "start_consumers txt mk r um cfg bs w = (Inr cs, w') \<Longrightarrow>
     cs = map (\<lambda>b. NewConsumer r um (consumer_config cfg b) (b_handler b)) (filter (\<lambda>b. Enabled (b_usecase b)) bs)"
  by (induction bs arbitrary: w cs) (auto split: if_splits prod.splits option.splits sum.splits)

lemma start_consumers_panic:
  "fst (start_consumers txt mk r um cfg bs w) = Inl e \<Longrightarrow> is_panic e"
  by (induction bs arbitrary: w) (auto split: if_splits prod.splits option.splits sum.splits, metis fst_conv)

lemma NewConsumer_conf [simp]:
  "cc_Stream (conf (NewConsumer r um cc h)) = cc_Stream cc" "cc_Group (conf (NewConsumer r um cc h)) = cc_Group cc"
  "cc_CycleType (conf (NewConsumer r um cc h)) = cc_CycleType cc" "handler (NewConsumer r um cc h) = h"
  "rdb (NewConsumer r um cc h) = r"
  by (simp_all add: NewConsumer_def consumer_defaults_def Let_def)

lemma NewConsumer_positive:
  "0 < cc_Pool (conf (NewConsumer r um cc h)) \<and> 0 < cc_Timeout (conf (NewConsumer r um cc h)) \<and>
     0 < cc_BlockMs (conf (NewConsumer r um cc h))"
  by (simp add: NewConsumer_def consumer_defaults_def Let_def minute_def second_def)

lemma app_New_pointers:
  "app_New b e cfg = Inr a \<Longrightarrow> a_pool a = None \<and> a_gateProvider a = None \<and> a_bindings a = app_bindings e cfg \<and> a_Config a = cfg"
  by (auto simp: app_New_def Let_def split: sum.splits option.splits if_splits error.splits)

end
