(* ===== verification/Agent_Run.thy ===== *)
theory Agent_Run
  imports Agent_App
begin

text \<open>
  The agent at run time: the redis client of the wired agent on the server of its world, the
  goroutines that \<open>MustRun\<close> of \<open>internal/app/app.go\<close> starts and waits for, and \<open>run\<close> of
  \<open>cmd/app/main.go\<close> from the configuration to the exit code.  The handlers of \<open>app.New\<close> are
  shown to leave the trigger streams alone, so what holds of the goroutines of any consumers holds of
  the agent's.
\<close>

section \<open>The agent's redis client\<close>

definition put_server :: "Server \<Rightarrow> World \<Rightarrow> World" where
  "put_server v w = w\<lparr>w_server := v\<rparr>"

definition agent_redis :: "World Redis" where
  "agent_redis = server_redis w_server put_server"

definition agent_group_create :: "string \<Rightarrow> string \<Rightarrow> string \<Rightarrow> World \<Rightarrow> error option \<times> World" where
  "agent_group_create stream grp start w = (case srv_group_create stream grp start (w_server w) of (r, v) \<Rightarrow> (r, put_server v w))"

lemma put_server_sel [simp]: "w_server (put_server v w) = v" "w_db (put_server v w) = w_db w" "w_bus (put_server v w) = w_bus w"
  "results (put_server v w) = results w"
  by (simp_all add: put_server_def results_def)

interpretation agent_group: stream_group agent_redis "srv_waiting \<circ> w_server" "srv_pending \<circ> w_server"
  unfolding agent_redis_def by (rule server_redis_group) simp

lemma agent_redis_results:
  "XReadGroup agent_redis args w = (x, w') \<Longrightarrow> results w' = results w"
  "XAck agent_redis s g i w = (y, w') \<Longrightarrow> results w' = results w"
  "XAutoClaim agent_redis cargs w = (z, w') \<Longrightarrow> results w' = results w"
  by (auto simp: agent_redis_def server_redis_def split: prod.splits)

section \<open>The handlers leave the trigger streams alone\<close>

lemma w_server_on [simp]: "w_server (snd (on_db f w)) = w_server w" "w_server (snd (on_bus g w)) = w_server w"
  by (simp_all add: on_db_def on_bus_def split: prod.split)

lemma app_publish_server: "app_publish e cfg s j cy p w = (x, w') \<Longrightarrow> w_server w' = w_server w"
  using w_server_on(2) [of "PublishResult (e_marshal e) bus_XAdd (e_pub_now e) (app_publisher cfg) s j cy p" w]
  by (simp add: app_publish_def)

lemma app_publish_db: "w_db (snd (app_publish e cfg s j cy p w)) = w_db w"
  by (simp add: app_publish_def on_bus_def split: prod.split)

lemma app_publish_dbD: "app_publish e cfg s j cy p w = (x, w') \<Longrightarrow> w_db w' = w_db w"
  using app_publish_db [of e cfg s j cy p w] by simp

lemma app_write_server [simp]:
  "w_server (snd (d_SetMasterWalletLT (app_discovery e cfg) lt w)) = w_server w"
  "w_server (snd (d_UpdateLT (app_discovery e cfg) ps w)) = w_server w"
  by (simp_all add: app_discovery_def)

lemma discovery_server:
  "CollectNewProviders uni (app_discovery e cfg) c w = (x, w') \<Longrightarrow> w_server w' = w_server w"
  "CollectStorageContracts ord (app_discovery e cfg) c w = (x, w') \<Longrightarrow> w_server w' = w_server w"
  "ResolveEndpoints ord now (app_discovery e cfg) c w = (x, w') \<Longrightarrow> w_server w' = w_server w"
  by (auto simp: CollectNewProviders_def CollectStorageContracts_def ResolveEndpoints_def Let_def
      split: sum.splits prod.splits option.splits if_splits dest: app_publish_server)

lemma poll_server:
  "UpdateProviderRates fin clk (app_poll e cfg) c w = (x, w') \<Longrightarrow> w_server w' = w_server w"
  "UpdateRejectedContracts ord clk' (app_poll e cfg) c w = (x, w') \<Longrightarrow> w_server w' = w_server w"
  by (auto simp: UpdateProviderRates_def UpdateRejectedContracts_def Let_def
      split: sum.splits prod.splits option.splits if_splits dest: app_publish_server)

lemma proof_update_server:
  "CheckStorageProofs ord fin notice rnd clk (app_proof e cfg) c w = (x, w') \<Longrightarrow> w_server w' = w_server w"
  "UpdateIPInfo (app_update e cfg) c w = (x, w') \<Longrightarrow> w_server w' = w_server w"
  by (auto simp: CheckStorageProofs_def UpdateIPInfo_def Let_def
      split: sum.splits prod.splits option.splits if_splits dest: app_publish_server)

lemma binding_server:
  assumes "b \<in> set (app_bindings e cfg)"
  shows "w_server (snd (b_handler b c w)) = w_server w"
  using assms unfolding app_bindings_def
  by (auto intro: discovery_server poll_server proof_update_server simp: prod_eq_iff)

section \<open>Results and the counter of successful cycles\<close>

text \<open>A consumer of the agent's redis whose handler answers on the result stream of its cycle.\<close>

definition agent_consumer :: "Config \<Rightarrow> World Consumer \<Rightarrow> bool" where
  "agent_consumer cfg c \<longleftrightarrow> rdb c = agent_redis \<and>
     (\<forall>hctx w x w'. handler c hctx w = (x, w') \<longrightarrow> w_server w' = w_server w \<and>
        (if x = None then \<exists>d. results w' = results w @ [(streamKey cfg ''result'' (cc_CycleType (conf c)), d)]
         else results w' = results w))"

lemma binding_agent_consumer:
  assumes "b \<in> set (app_bindings e cfg)"
  shows "agent_consumer cfg (NewConsumer agent_redis um (consumer_config cfg b) (b_handler b))"
proof -
  have ty: "cc_CycleType (consumer_config cfg b) = b_cycleType b" by (simp add: consumer_config_def)
  have "w_server w' = w_server w \<and> (if x = None then \<exists>d. results w' = results w @ [(streamKey cfg ''result'' (b_cycleType b), d)]
      else results w' = results w)" if "b_handler b hctx w = (x, w')" for hctx w x w'
    using that binding_server [OF assms, of hctx w] cycle_handler.one_result [OF binding_is_handler [OF assms], of hctx w w']
      cycle_handler.no_result [OF binding_is_handler [OF assms], of hctx w _ w']
    by (cases x) (fastforce simp: answer_of_def)+
  then show ?thesis by (simp add: agent_consumer_def ty)
qed

definition published :: "Config \<Rightarrow> string \<Rightarrow> World \<Rightarrow> nat" where
  "published cfg cy w = length (filter (\<lambda>x. fst x = streamKey cfg ''result'' cy) (results w))"

lemma published_same: "results w = results w' \<Longrightarrow> published cfg cy w = published cfg cy w'"
  by (simp add: published_def)

lemma go_step_counts:
  assumes "go_step parent c fin (p, s, h) l (p', s', h')" "agent_consumer cfg c" "metrics s = Some m"
  shows "\<exists>m'. metrics s' = Some m' \<and>
     int (published cfg cy (world s')) - int (published cfg cy (world s)) = int (CyclesTotal m' (cy, StatusOK)) - int (CyclesTotal m (cy, StatusOK))"
  using assms(1)
proof (cases rule: go_step.cases)
  case (handle hdone msg err w k ms)
  let ?hctx = "handler_ctx hdone parent (decodeJobID c msg)"
  have w: "w = snd (handler c ?hctx (world s))" and err: "err = None \<longleftrightarrow> fst (handler c ?hctx (world s)) = None"
    using handle(6) runHandler_world [of c ?hctx "world s"] runHandler_failed [of c ?hctx "world s"] by auto
  have inj: "streamKey cfg ''result'' (cc_CycleType (conf c)) = streamKey cfg ''result'' cy \<longleftrightarrow> cc_CycleType (conf c) = cy"
    by (auto dest: streamKey_inject)
  obtain x where x: "handler c ?hctx (world s) = (x, w)" using w by (metis prod.collapse)
  then have "if x = None then \<exists>d. results w = results (world s) @ [(streamKey cfg ''result'' (cc_CycleType (conf c)), d)]
      else results w = results (world s)" using assms(2) unfolding agent_consumer_def by blast
  then have "published cfg cy w = published cfg cy (world s) + (if err = None \<and> cc_CycleType (conf c) = cy then 1 else 0)"
    using err x inj by (auto simp: published_def split: if_splits)
  with handle assms(3) show ?thesis by (auto simp: with_metrics_def observe_cycle_def StatusOK_def StatusError_def)
next
  case (read streams w)
  then show ?thesis using assms(2,3) by (auto simp: agent_consumer_def dest!: agent_redis_results intro!: published_same)
next
  case (read_none e w)
  then show ?thesis using assms(2,3) by (auto simp: agent_consumer_def dest!: agent_redis_results intro!: published_same)
next
  case (read_fails e w)
  then show ?thesis using assms(2,3)
    by (auto simp: agent_consumer_def with_metrics_def inc_redis_def dest!: agent_redis_results intro!: published_same)
next
  case (claim cursor jobs start err w)
  then show ?thesis using assms(2,3)
    by (auto simp: agent_consumer_def with_metrics_def inc_redis_def dest!: agent_redis_results intro!: published_same)
next
  case (claim_panics cursor jobs start e w)
  then show ?thesis using assms(3) by simp
next
  case (ack m' ackErr w s1 k ms)
  then show ?thesis using assms(2,3)
    by (auto simp: agent_consumer_def with_metrics_def inc_redis_def add_inflight_def dest!: agent_redis_results intro!: published_same)
qed (use assms(3) in \<open>auto simp: with_metrics_def add_inflight_def\<close>)

lemma run_counts:
  assumes "run parent env ts s es t" "Restart \<notin> set es" "\<forall>x \<in> set (r_threads s). agent_consumer cfg (fst x)"
    and "\<And>w w'. env w w' \<Longrightarrow> results w' = results w" "metrics (r_state s) = Some m"
  shows "\<exists>m'. metrics (r_state t) = Some m' \<and>
     int (published cfg cy (world (r_state t))) - int (published cfg cy (world (r_state s))) =
       int (CyclesTotal m' (cy, StatusOK)) - int (CyclesTotal m (cy, StatusOK))"
  using assms(1-3,5)
proof (induction arbitrary: m rule: run.induct)
  case (Cons s e t es u)
  from Cons.hyps(1) have "(\<forall>x \<in> set (r_threads t). agent_consumer cfg (fst x)) \<and>
      (\<exists>m1. metrics (r_state t) = Some m1 \<and>
        int (published cfg cy (world (r_state t))) - int (published cfg cy (world (r_state s))) =
          int (CyclesTotal m1 (cy, StatusOK)) - int (CyclesTotal m (cy, StatusOK)))"
  proof (cases rule: run_step.cases)
    case (go i c p l p' st h)
    then have "agent_consumer cfg c" using Cons.prems(2) by (metis fst_conv nth_mem)
    moreover from this have "\<forall>x \<in> set (r_threads t). agent_consumer cfg (fst x)"
      using Cons.prems(2) go(2) set_update_subset_insert [of "r_threads s" i "(c, p')"] by auto
    ultimately show ?thesis using go_step_counts [OF go(6) _ Cons.prems(3), of cfg cy] go(2) by simp
  next
    case (environ w)
    have "published cfg cy w = published cfg cy (world (r_state s))"
      by (rule published_same) (rule assms(4) [OF environ(3)])
    with environ Cons.prems show ?thesis by simp
  qed (use Cons.prems in auto)
  then obtain m1 where "\<forall>x \<in> set (r_threads t). agent_consumer cfg (fst x)" and m1: "metrics (r_state t) = Some m1"
    "int (published cfg cy (world (r_state t))) - int (published cfg cy (world (r_state s))) =
       int (CyclesTotal m1 (cy, StatusOK)) - int (CyclesTotal m (cy, StatusOK))" by blast
  have "Restart \<notin> set es" using Cons.prems(1) by simp
  from Cons.IH [OF this \<open>\<forall>x \<in> set (r_threads t). agent_consumer cfg (fst x)\<close> m1(1)] obtain m2
    where "metrics (r_state u) = Some m2"
      "int (published cfg cy (world (r_state u))) - int (published cfg cy (world (r_state t))) =
         int (CyclesTotal m2 (cy, StatusOK)) - int (CyclesTotal m1 (cy, StatusOK))" by blast
  with m1(2) show ?case by simp
qed auto

lemma agent_consumer_on_group:
  "agent_consumer cfg c \<Longrightarrow> on_group agent_redis (srv_waiting \<circ> w_server) (srv_pending \<circ> w_server) c"
  unfolding agent_consumer_def on_group_def by (metis comp_apply prod.collapse)

section \<open>MustRun\<close>

text \<open>
  \<open>MustRun\<close> starts the consumers, then waits for the cancellation of the context and for the
  goroutines of all consumers.  It panics when a group cannot be created, and a panic of one of the
  goroutines ends the process.  \<open>env\<close> is what happens to the world beside the agent.
\<close>

definition start_agent ::
  "(error \<Rightarrow> string) \<Rightarrow> (string \<Rightarrow> TriggerEnvelope res) \<Rightarrow> 'p App \<Rightarrow> World \<Rightarrow> World Consumer list res \<times> World" where
  "start_agent etext um a w = start_consumers etext agent_group_create agent_redis um (a_Config a) (a_bindings a) w"

inductive MustRun ::
  "(error \<Rightarrow> string) \<Rightarrow> (string \<Rightarrow> TriggerEnvelope res) \<Rightarrow> ctx \<Rightarrow> (World \<Rightarrow> World \<Rightarrow> bool) \<Rightarrow> 'p App \<Rightarrow> World \<Rightarrow> unit res \<Rightarrow> World \<Rightarrow> bool"
  for etext :: "error \<Rightarrow> string" and um :: "string \<Rightarrow> TriggerEnvelope res" and parent :: ctx
    and env :: "World \<Rightarrow> World \<Rightarrow> bool" and a :: "'p App" and w :: World where
  no_group: "start_agent etext um a w = (Inl e, w1) \<Longrightarrow> MustRun etext um parent env a w (Inl e) w1"
| drained: "start_agent etext um a w = (Inr cs, w1) \<Longrightarrow> ts = concat (map Run_threads cs) \<Longrightarrow>
     run parent env ts (run_init ts \<lparr>world = w1, metrics = Some NewMetrics\<rparr>) es s \<Longrightarrow> Restart \<notin> set es \<Longrightarrow>
     r_cancelled s \<Longrightarrow> all_returned s \<Longrightarrow> MustRun etext um parent env a w (Inr ()) (world (r_state s))"
| crashed: "start_agent etext um a w = (Inr cs, w1) \<Longrightarrow> ts = concat (map Run_threads cs) \<Longrightarrow>
     run parent env ts (run_init ts \<lparr>world = w1, metrics = Some NewMetrics\<rparr>) es s \<Longrightarrow> Restart \<notin> set es \<Longrightarrow>
     \<not> alive s \<Longrightarrow> MustRun etext um parent env a w (Inl (RuntimePanic ''goroutine'')) (world (r_state s))"

section \<open>cmd/app\<close>

datatype Level = LevelDebug | LevelInfo | LevelWarn | LevelError

definition LogLevels :: "(byte, Level) gomap" where
  "LogLevels = [(0, LevelDebug), (1, LevelInfo), (2, LevelWarn), (3, LevelError)]"

definition setupConfig :: "Config \<Rightarrow> Level" where
  "setupConfig cfg = (case map_of LogLevels (sys_LogLevel (cfg_System cfg)) of Some l \<Rightarrow> l | None \<Rightarrow> LevelInfo)"

text \<open>\<open>run\<close>: the exit code, or a panic.  \<open>Close\<close> is deferred, so it runs after \<open>MustRun\<close>
  returned or panicked; a panic of a goroutine ends the process before it.\<close>

inductive main_run ::
  "LoadEnv \<Rightarrow> 'p BuildEnv \<Rightarrow> ('a, 'b, 'd, 'peer, 'cell) Env \<Rightarrow> 'p Closers \<Rightarrow> (error \<Rightarrow> string) \<Rightarrow>
     (string \<Rightarrow> TriggerEnvelope res) \<Rightarrow> ctx \<Rightarrow> (World \<Rightarrow> World \<Rightarrow> bool) \<Rightarrow> World \<Rightarrow> int res \<Rightarrow> bool"
  for l :: LoadEnv and b :: "'p BuildEnv" and e :: "('a, 'b, 'd, 'peer, 'cell) Env" and cl :: "'p Closers"
    and etext :: "error \<Rightarrow> string" and um :: "string \<Rightarrow> TriggerEnvelope res" and parent :: ctx
    and env :: "World \<Rightarrow> World \<Rightarrow> bool" and w :: World where
  no_config: "MustLoad l = Inl x \<Longrightarrow> main_run l b e cl etext um parent env w (Inl x)"
| no_app: "MustLoad l = Inr cfg \<Longrightarrow> app_New b e cfg = Inl x \<Longrightarrow>
     main_run l b e cl etext um parent env w (if is_panic x then Inl x else Inr 1)"
| ran: "MustLoad l = Inr cfg \<Longrightarrow> app_New b e cfg = Inr a \<Longrightarrow> MustRun etext um parent env a w r w' \<Longrightarrow>
     main_run l b e cl etext um parent env w
       (case r of Inl x \<Rightarrow> Inl x | Inr _ \<Rightarrow> (case Close cl a of Some x \<Rightarrow> Inl x | None \<Rightarrow> Inr 0))"

inductive_cases main_runE: "main_run l b e cl etext um parent env w r"

lemma MustRun_panic: "MustRun etext um parent env a w (Inl x) w' \<Longrightarrow> is_panic x"
  using start_consumers_panic [of etext agent_group_create agent_redis um "a_Config a" "a_bindings a" w x]
  by (erule_tac MustRun.cases) (auto simp: start_agent_def)

lemma MustRun_returns:
  assumes "start_agent etext um a w = (Inr cs, w1)" "0 < sys_ReaperTimeout (cfg_System (a_Config a))"
  shows "\<exists>w'. MustRun etext um parent env a w (Inr ()) w'"
proof -
  have "\<forall>c \<in> set cs. 0 < cc_ReaperTimeout (conf c)"
    using start_consumers_Inr [OF assms(1) [unfolded start_agent_def]] assms(2)
    by (auto simp: NewConsumer_def consumer_defaults_def consumer_config_def Let_def)
  from run_cancel_ends [OF this, of parent env "concat (map Run_threads cs)" "\<lparr>world = w1, metrics = Some NewMetrics\<rparr>"]
  show ?thesis using assms(1) by (blast intro: MustRun.drained)
qed

end
