(* ===== verification/Sample_World.thy ===== *)
theory Sample_World
  imports Agent_Run
begin

text \<open>
  A concrete configuration, environment and world on which the properties of the wired agent are
  applied: two registered providers, one contract, a liteserver that answers for the accounts in
  question, and services that answer without faults.
\<close>

definition sample_usecase :: UsecaseCfg where
  "sample_usecase = \<lparr>Enabled = True, Pool = 1, Timeout = 30 * minute, BlockMs = 5000, Concurrency = 0, uc_EndpointTTL = 30 * minute\<rparr>"

definition sample_cfg :: Config where
  "sample_cfg =
     \<lparr>cfg_System = \<lparr>sys_AgentID = ''auto'', sys_ADNLPort = ''16167'', sys_Key = [], sys_LogLevel = 1,
        sys_MinJobIdle = 15 * minute, sys_ReaperTimeout = 10 * minute\<rparr>,
      cfg_Postgres = \<lparr>pg_Host = ''db'', pg_Port = ''5432'', pg_User = ''u'', pg_Password = ''p'', pg_Name = ''n''\<rparr>,
      cfg_Redis = \<lparr>rd_Addr = ''redis:6379'', rd_Password = '''', rd_DB = 0, rd_Group = ''mtpa'', rd_StreamPrefix = ''mtpa'', rd_ResultMaxLen = 100000\<rparr>,
      cfg_TON = \<lparr>ton_MasterAddress = ''EQm'', ton_ConfigURL = ''url''\<rparr>,
      cfg_Workers = \<lparr>wk_Discovery = sample_usecase, wk_Poll = sample_usecase, wk_Proof = sample_usecase, wk_Update = sample_usecase\<lparr>Enabled := False\<rparr>\<rparr>,
      cfg_Metrics = \<lparr>mt_Enabled = True, mt_Port = ''2112''\<rparr>,
      cfg_Telemetry = \<lparr>tel_Enabled = False, tel_EndPoint = '''', tel_ServiceName = ''''\<rparr>\<rparr>"

definition wallet_a :: string where "wallet_a = sample_address"

definition row_a :: provider_row where
  "row_a = (sample_row sample_key)\<lparr>c_address := wallet_a\<rparr>"

definition sample_contract :: contract_row where
  "sample_contract = \<lparr>sc_address = ''EQc'', sc_provider_address = wallet_a, sc_bag_id = ''ab'', sc_size = 1024\<rparr>"

definition sample_world :: World where
  "sample_world = \<lparr>w_db = \<lparr>sys_params = [(lastLTKey, ''10'')], providers_tbl = [row_a], contracts_tbl = [sample_contract]\<rparr>,
     w_bus = \<lparr>bus_cmds = [], bus_calls = 0, bus_reply = (\<lambda>_. None)\<rparr>, w_server = sample_server\<rparr>"

text \<open>The master wallet has one new registration, the provider's wallet one withdrawal.\<close>

definition sample_transactions :: "nat \<Rightarrow> string \<Rightarrow> u64 \<Rightarrow> Transaction option list res" where
  "sample_transactions k addr lt =
     (if addr = ''EQm'' then Inr [Some (sample_registration 30)]
      else if addr = wallet_a then Inr [Some ((sample_registration 40)\<lparr>Tx_From := ''EQc'', Tx_Op := StorageRewardWithdrawalOpCode\<rparr>)]
      else Inr [])"

definition sample_lite :: "(unit, unit) LiteApi" where
  "sample_lite = sample_api\<lparr>GetStorageInfoV1 := (\<lambda>b a. Inr (Some \<lparr>TorrentHash = [171], SI_OwnerAddr = ''o'', SI_Size = 1024, SI_ChunkSize = 128\<rparr>))\<rparr>"

definition sample_env :: "(unit, unit, unit, unit, byte list) Env" where
  "sample_env =
     \<lparr>e_uni = (\<lambda>s. s), e_loc = (\<lambda>s. s), e_marshal = (\<lambda>env. Inr (JobID env)), e_pub_now = 0,
      e_q_pubkeys = reliable source_order, e_q_wallets = reliable source_order, e_q_relations = reliable source_order,
      e_q_fresh = (\<lambda>_. reliable source_order), e_q_all = reliable source_order, e_q_ips = reliable source_order,
      e_q_lt = reliable source_order, e_set_err = None, e_update_err = None, e_pick = hd, e_db_now = (\<lambda>_. 120),
      e_api = sample_lite, e_transactions = sample_transactions, e_dht = (\<lambda>_. sample_dht), e_rnd = (\<lambda>_ _. 0),
      e_rates = (\<lambda>t k pk n. Inr None), e_net = (\<lambda>pk i. sample_net), e_net_clk = (\<lambda>pk i j. 0), e_draw = (\<lambda>pk i. 0),
      e_http = (\<lambda>t k. \<lparr>NewRequest = (\<lambda>u. None), Do = (\<lambda>u. Inr \<lparr>StatusCode = 200, Status_text = ''200 OK'', Body = u\<rparr>),
         DecodeInfo = (\<lambda>b. Inr \<lparr>inf_IP = ''1.1.1.1'', inf_Country = ''x'', inf_CountryISO = ''y'', inf_City = ''z'', inf_TimeZone = ''t''\<rparr>)\<rparr>),
      e_now = 100 * hour, e_probe_clk = (\<lambda>_. 0), e_state_clk = (\<lambda>_ _. 0), e_proof_clk = (\<lambda>_ _. 0), e_shuffle = (\<lambda>_ _. 0),
      e_notice = (\<lambda>_. None), e_ord = source_order, e_scan_ord = (\<lambda>_. source_order), e_tasks = source_order,
      e_probe_fin = source_order, e_proof_fin = source_order\<rparr>"

definition sample_ctx :: ctx where
  "sample_ctx = \<lparr>ctx_jobID = Some ''job-1'', done_from = None, done_err = Canceled\<rparr>"

lemma sample_env_fields [simp]:
  "e_uni sample_env = (\<lambda>s. s)" "e_loc sample_env = (\<lambda>s. s)" "e_marshal sample_env = (\<lambda>env. Inr (JobID env))" "e_pub_now sample_env = 0"
  "e_q_pubkeys sample_env = reliable source_order" "e_q_wallets sample_env = reliable source_order"
  "e_q_relations sample_env = reliable source_order" "e_q_fresh sample_env pk = reliable source_order"
  "e_q_all sample_env = reliable source_order" "e_q_ips sample_env = reliable source_order" "e_q_lt sample_env = reliable source_order"
  "e_set_err sample_env = None" "e_update_err sample_env = None" "e_pick sample_env = hd" "e_db_now sample_env pk = 120"
  "e_api sample_env = sample_lite" "e_transactions sample_env = sample_transactions" "e_ord sample_env = source_order"
  "e_scan_ord sample_env k = source_order" "e_tasks sample_env = source_order" "e_now sample_env = 100 * hour"
  "e_dht sample_env k = sample_dht"
  by (simp_all add: sample_env_def)

lemma sample_ctx_live: "live sample_ctx" "ctx_Err sample_ctx k = None" "JobIDFrom sample_ctx = ''job-1''"
  by (simp_all add: sample_ctx_def live_def ctx_Err_def JobIDFrom_def)

lemma sample_publish:
  "app_publish sample_env cfg s j c p w = (None, snd (app_publish sample_env cfg s j c p w)) \<longleftrightarrow> bus_reply (w_bus w) (bus_calls (w_bus w)) = None"
  by (auto simp: app_publish_def on_bus_def PublishResult_def publish_def bus_XAdd_def Let_def split: prod.split option.split)

lemma sample_world_fields [simp]:
  "providers_tbl (w_db sample_world) = [row_a]" "contracts_tbl (w_db sample_world) = [sample_contract]"
  "sys_params (w_db sample_world) = [(lastLTKey, ''10'')]" "bus_reply (w_bus sample_world) i = None" "results sample_world = []"
  by (simp_all add: sample_world_def results_def bus_entries_def)

lemma sample_checkpoint: "GetMasterWalletLT (reliable ord) (w_db sample_world) = Inr 10"
proof -
  have "ParseUint ''10'' = Inr 10" by code_simp
  then show ?thesis by (simp add: GetMasterWalletLT_def)
qed


text \<open>Worlds that differ from the sample in the trigger streams only.\<close>

definition sample_like :: "World \<Rightarrow> bool" where
  "sample_like w \<longleftrightarrow> w_db w = w_db sample_world \<and> w_bus w = w_bus sample_world"

lemma sample_like_world: "sample_like sample_world"
  by (simp add: sample_like_def)

lemma sample_publish_like: "sample_like w \<Longrightarrow> \<exists>w'. app_publish sample_env sample_cfg s j c p w = (None, w')"
  using sample_publish [of sample_cfg s j c p w] by (metis sample_like_def sample_world_fields(4))

lemmas sample_publish_ok = sample_publish_like [OF sample_like_world]

lemma sample_scan_like:
  assumes "sample_like w"
  shows "\<exists>w'. CollectNewProviders (\<lambda>s. s) (app_discovery sample_env sample_cfg) c w = (None, w')"
proof -
  obtain ps l where scan: "masterScanner (app_discovery sample_env sample_cfg) (MasterAddr (d_cfg (app_discovery sample_env sample_cfg))) 10 = Inr (ps, l)"
    by (auto simp: app_discovery_def ton_client_def lite_client_def sample_transactions_def sample_cfg_def MasterScanner_Scan_Inr)
  have "d_GetMasterWalletLT (app_discovery sample_env sample_cfg) w = Inr 10"
    "\<exists>ks. d_GetAllPubkeys (app_discovery sample_env sample_cfg) w = Inr ks"
    using assms by (simp_all add: sample_like_def app_discovery_def sample_checkpoint GetAllPubkeys_def query_rows_ok)
  then obtain ks where k: "d_GetMasterWalletLT (app_discovery sample_env sample_cfg) w = Inr 10"
    "d_GetAllPubkeys (app_discovery sample_env sample_cfg) w = Inr ks" by blast
  obtain w1 where "app_publish sample_env sample_cfg (streamKey sample_cfg ''result'' CycleScanMaster) (JobIDFrom c) CycleScanMaster
      (PScanMaster \<lparr>NewProviders = new_loop (\<lambda>s. s) (known_keys (\<lambda>s. s) ks) ps, SM_LastLT = l, ScannedCount = length ps\<rparr>) w = (None, w1)"
    using sample_publish_like [OF assms] by blast
  with k scan show ?thesis by (simp add: CollectNewProviders_def Let_def)
qed

lemmas sample_scan_master_any = sample_scan_like [OF sample_like_world]
lemmas sample_scan_master = sample_scan_master_any [of sample_ctx]


definition wallet_a_provider :: Provider where
  "wallet_a_provider = \<lparr>PublicKey = sample_key, Address = wallet_a, LT = 7, RegisteredAt = zero_time\<rparr>"

definition found_contract :: StorageContract where
  "found_contract = \<lparr>SC_Address = ''EQc'', BagID = ''ab'', OwnerAddr = ''o'', Size = 1024, ChunkSize = 128, LastLT = 40, Providers = [wallet_a]\<rparr>"

lemma sample_wallets: "GetAllWallets (reliable source_order) (w_db sample_world) = Inr [wallet_a_provider]"
  by (simp add: GetAllWallets_def query_rows_def wallet_of_row_def scan_uint64_def row_a_def sample_row_def wallet_a_provider_def)

lemma sample_wallet_scan:
  "walletScanner (app_discovery sample_env sample_cfg) k wallet_a 7 = Inr ([found_contract], 40)"
proof -
  have "hex_EncodeToString [171] = ''ab''" by code_simp
  moreover have "wallet_a \<noteq> ''EQm''" by (simp add: wallet_a_def sample_address_def)
  ultimately show ?thesis
    by (simp add: app_discovery_def Scanner_Scan_def ton_client_def lite_client_def sample_transactions_def scan_step_def
        GetStorageContractsInfo_def sample_lite_def sample_api_def enrich_def map_filter_simps sample_registration_def
        found_contract_def map_range_def)
qed

lemma sample_scans: "scans (app_discovery sample_env sample_cfg) 0 [wallet_a_provider] = [(wallet_a_provider, [found_contract], 40)]"
proof -
  have "IsUserFriendly wallet_a" unfolding wallet_a_def by code_simp
  then show ?thesis by (simp add: wallet_a_provider_def sample_wallet_scan)
qed

lemma sample_scan_wallets:
  "\<exists>w'. CollectStorageContracts source_order (app_discovery sample_env sample_cfg) sample_ctx sample_world = (None, w')"
proof -
  have "d_GetAllWallets (app_discovery sample_env sample_cfg) sample_world = Inr [wallet_a_provider]"
    by (simp add: app_discovery_def sample_wallets)
  moreover have "\<exists>m u. wallets_loop (app_discovery sample_env sample_cfg) sample_ctx 0 [wallet_a_provider] ([], []) = Inr (m, u)"
    by (simp add: sample_ctx_live wallet_a_provider_def sample_wallet_scan)
  then obtain m u where "wallets_loop (app_discovery sample_env sample_cfg) sample_ctx 0 [wallet_a_provider] ([], []) = Inr (m, u)"
    by blast
  ultimately show ?thesis
    using sample_publish_ok [of "streamKey sample_cfg ''result'' CycleScanWallets" "JobIDFrom sample_ctx" CycleScanWallets
        "PScanWallets \<lparr>SW_Contracts = map snd (map_range source_order m),
          SW_Relations = concat (map (contract_relations (addr_pubkeys [wallet_a_provider])) (map snd (map_range source_order m))), UpdatedWallets = u\<rparr>"]
    by (auto simp: CollectStorageContracts_def Let_def)
qed


definition sample_rel :: ContractProviderRelation where
  "sample_rel = \<lparr>ContractAddr = ''EQc'', ProviderPubkey = sample_key, ProviderAddress = wallet_a, R_BagID = ''ab'', R_Size = 1024\<rparr>"

lemma sample_relations: "GetActiveRelations (reliable source_order) (w_db sample_world) = Inr [sample_rel]"
  by (simp add: GetActiveRelations_def query_rows_def relation_rows_def relation_of_row_def scan_uint64_def sample_contract_def
      row_a_def sample_row_def sample_rel_def)

lemma sample_decodes: "\<exists>raw. hex_DecodeString sample_key = Inr raw \<and> length raw = 32"
proof -
  have "(case hex_DecodeString sample_key of Inr raw \<Rightarrow> length raw = 32 | Inl _ \<Rightarrow> False)" by code_simp
  then show ?thesis by (cases "hex_DecodeString sample_key") auto
qed

lemma sample_Resolve:
  "Resolve sample_dht raw ''EQc'' = Inr (zero_ProviderEndpoint\<lparr>PE_Provider := \<lparr>EP_PublicKey = [5], IP = ''9.9.9.9'', Port = 1\<rparr>,
     Storage := \<lparr>EP_PublicKey = [5], IP = ''9.9.9.9'', Port = 1\<rparr>\<rparr>)"
  by (simp add: Resolve_def findProviderEndpoint_def findStorageEndpoint_def sample_dht_def TryNTimes_def verifyStorageRetries_def
      proof_attempt_def numeral_3_eq_3)

lemma sample_resolve_one:
  "\<exists>ep. resolve_one (app_discovery sample_env sample_cfg) (100 * hour) [] bags k (sample_key, ''EQc'') = Inr (Resolved ep)"
  using sample_decodes by (auto simp: resolve_one_def app_discovery_def sample_Resolve zero_ProviderEndpoint_def)

lemma sample_existing:
  "\<exists>m. d_LoadAll (app_discovery sample_env sample_cfg) sample_world = Inr m"
  by (simp add: app_discovery_def LoadAll_def query_rows_ok)

lemma sample_resolve_loop:
  "\<exists>r. resolve_loop (app_discovery sample_env sample_cfg) sample_ctx (100 * hour) m bags 0 [(sample_key, ''EQc'')] empty_resolve = Inr r"
proof -
  have "\<exists>oc. resolve_one (app_discovery sample_env sample_cfg) (100 * hour) m bags 0 (sample_key, ''EQc'') = Inr oc"
    using sample_decodes by (auto simp: resolve_one_def app_discovery_def sample_Resolve zero_ProviderEndpoint_def)
  then obtain oc where "resolve_one (app_discovery sample_env sample_cfg) (100 * hour) m bags 0 (sample_key, ''EQc'') = Inr oc" by blast
  then show ?thesis by (cases oc) (simp_all add: sample_ctx_live)
qed

lemma sample_resolve:
  "\<exists>w'. ResolveEndpoints source_order (100 * hour) (app_discovery sample_env sample_cfg) sample_ctx sample_world = (None, w')"
proof -
  have rel: "d_GetActiveRelations (app_discovery sample_env sample_cfg) sample_world = Inr [sample_rel]"
    by (simp add: app_discovery_def sample_relations)
  have pcs: "map_range source_order (contracts_by_pubkey [sample_rel]) = [(sample_key, ''EQc'')]"
    by (simp add: contracts_by_pubkey_def put_new_def map_range_def map_filter_simps sample_rel_def)
  obtain m where m: "d_LoadAll (app_discovery sample_env sample_cfg) sample_world = Inr m" using sample_existing by blast
  obtain r where r: "resolve_loop (app_discovery sample_env sample_cfg) sample_ctx (100 * hour) m (bags_by_pubkey [sample_rel]) 0
      [(sample_key, ''EQc'')] empty_resolve = Inr r" using sample_resolve_loop by blast
  show ?thesis
    using sample_publish_ok [of "streamKey sample_cfg ''result'' CycleResolveEndpoints" "JobIDFrom sample_ctx" CycleResolveEndpoints "PResolveEndpoints r"]
      rel m r unfolding ResolveEndpoints_def by (simp add: pcs)
qed


lemma sample_publish_fst: "fst (app_publish sample_env sample_cfg s j c p sample_world) = None"
  using sample_publish_ok [of s j c p] by auto

lemma sample_proofs:
  "\<exists>w'. CheckStorageProofs source_order source_order (\<lambda>_. None) (\<lambda>_ _. 0) (\<lambda>_ _. 0) (app_proof sample_env sample_cfg) sample_ctx sample_world = (None, w')"
proof -
  have rel: "pr_GetActiveRelations (app_proof sample_env sample_cfg) sample_world = Inr [sample_rel]"
    by (simp add: app_proof_def NewProof_def sample_relations)
  show ?thesis unfolding CheckStorageProofs_def
    by (simp add: rel Let_def sample_ctx_live case_prod_beta sample_publish_fst)
qed

lemma sample_ipinfo: "\<exists>w'. UpdateIPInfo (app_update sample_env sample_cfg) sample_ctx sample_world = (None, w')"
proof -
  have "\<exists>eps. u_GetProvidersIPs (app_update sample_env sample_cfg) sample_world = Inr eps"
    by (simp add: app_update_def NewUpdate_def GetProvidersIPs_def query_rows_ok)
  then obtain eps where "u_GetProvidersIPs (app_update sample_env sample_cfg) sample_world = Inr eps" by blast
  then show ?thesis unfolding UpdateIPInfo_def
    using sample_publish_ok by (simp add: Let_def ip_loop_live sample_ctx_live case_prod_beta sample_publish_fst)
qed

lemma sample_inspect: "InspectProviders (ton_client sample_env 0) [''EQc''] =
    Inr [\<lparr>OC_Address = ''EQc'', Balance = 0, OC_Providers = [], LiteServerError = False\<rparr>]"
  by (simp add: InspectProviders_def ton_client_def lite_client_def GetProvidersInfo_def pool_results_def provider_task_def
      sample_lite_def sample_api_def TryNTimes_def getProvidersRetries_def providers_attempt_def eval_nat_numeral)

section \<open>Starting the agent\<close>

definition sample_unmarshal :: "string \<Rightarrow> TriggerEnvelope res" where
  "sample_unmarshal s = Inr \<lparr>TE_JobID = s, TE_Type = '''', Hint = '''', EnqueuedAt = 0\<rparr>"

lemma sample_starts_as:
  "\<exists>cs w1. start_consumers (\<lambda>e. ''BUSYGROUP'') agent_group_create agent_redis sample_unmarshal cfg bs w = (Inr cs, w1)"
proof (induction bs arbitrary: w)
  case (Cons b bs)
  have "contains ''BUSYGROUP'' ''BUSYGROUP''" by code_simp
  then have "\<exists>w2. EnsureGroup (\<lambda>e. ''BUSYGROUP'') agent_group_create (streamKey cfg ''cycle'' (b_cycleType b)) (rd_Group (cfg_Redis cfg)) w = (None, w2)"
    by (auto simp: EnsureGroup_def split: prod.splits option.splits)
  then obtain w2 where w2: "EnsureGroup (\<lambda>e. ''BUSYGROUP'') agent_group_create (streamKey cfg ''cycle'' (b_cycleType b)) (rd_Group (cfg_Redis cfg)) w = (None, w2)"
    by blast
  from Cons.IH [of w2] Cons.IH [of w] w2 show ?case by auto
qed simp

lemmas sample_starts = sample_starts_as [of sample_cfg "app_bindings sample_env sample_cfg" sample_world]

lemma sample_reaper:
  assumes "start_consumers (\<lambda>e. ''BUSYGROUP'') agent_group_create agent_redis sample_unmarshal sample_cfg bs w = (Inr cs, w1)"
  shows "\<forall>c \<in> set cs. 0 < cc_ReaperTimeout (conf c)"
  using start_consumers_Inr [OF assms]
  by (auto simp: NewConsumer_def consumer_defaults_def consumer_config_def Let_def sample_cfg_def minute_def second_def)

definition sample_build :: "unit BuildEnv" where
  "sample_build = \<lparr>otlptracegrpc_New = (\<lambda>a. None), resource_Merge = (\<lambda>n. None), NewTracerProvider = (),
     adnl_env = \<lparr>GetConfigFromUrl = (\<lambda>u. None), DhtKey = None, DefaultListener = (\<lambda>a. None),
         DhtStart = None, NewDhtClient = None, ProviderStart = None, gateway = ()\<rparr>, pgxpool_New = (\<lambda>d. Inr ()), pgxpool_Ping = (\<lambda>p. None),
     AddConnectionsFromConfigUrl = (\<lambda>u. None), connect_error_text = (\<lambda>e. ''panic''), redis_New = ()\<rparr>"

end
