(* ===== verification/Interleaved_Runs.thy ===== *)
theory Interleaved_Runs
  imports Agent_Prelude
begin

text \<open>
  Runs of a cycle whose calls interleave.  A run is where a handler stands between two calls, its
  environment and its context; the world it acts on changes beside it too, and the chain it reads from
  grows.  \<open>Scan_History\<close> and \<open>Wallet_History\<close> are instances.  Locale \<open>interleaved_inv\<close> is the way
  both show an invariant: what each call keeps, given what every other step keeps.
\<close>

record ('w, 'm, 'e, 'p, 'r) runs_state =
  h_world :: 'w
  h_chain :: "'m list"
  h_runs :: "('e \<times> ctx \<times> 'p) list"
  h_published :: "('e \<times> ctx \<times> 'r) list"

text \<open>\<open>h_published\<close> is a ghost: the results that a run has put on the stream, which \<open>puts\<close> tells from
  the two points of a call.\<close>

definition h_start :: "'w \<Rightarrow> 'm list \<Rightarrow> ('w, 'm, 'e, 'p, 'r) runs_state" where
  "h_start w chain = \<lparr>h_world = w, h_chain = chain, h_runs = [], h_published = []\<rparr>"

inductive interleaved ::
  "('m \<Rightarrow> 'm list \<Rightarrow> bool) \<Rightarrow> ('w \<Rightarrow> 'w \<Rightarrow> bool) \<Rightarrow> ('e \<Rightarrow> bool) \<Rightarrow> 'p \<Rightarrow>
     ('m list \<Rightarrow> 'e \<Rightarrow> ctx \<Rightarrow> 'p \<times> 'w \<Rightarrow> 'p \<times> 'w \<Rightarrow> bool) \<Rightarrow> ('e \<Rightarrow> ctx \<Rightarrow> 'p \<Rightarrow> 'p \<Rightarrow> ('e \<times> ctx \<times> 'r) list) \<Rightarrow>
     ('w, 'm, 'e, 'p, 'r) runs_state \<Rightarrow> ('w, 'm, 'e, 'p, 'r) runs_state \<Rightarrow> bool"
  for newer :: "'m \<Rightarrow> 'm list \<Rightarrow> bool" and side :: "'w \<Rightarrow> 'w \<Rightarrow> bool" and admitted :: "'e \<Rightarrow> bool" and first :: 'p
    and call :: "'m list \<Rightarrow> 'e \<Rightarrow> ctx \<Rightarrow> 'p \<times> 'w \<Rightarrow> 'p \<times> 'w \<Rightarrow> bool" and puts :: "'e \<Rightarrow> ctx \<Rightarrow> 'p \<Rightarrow> 'p \<Rightarrow> ('e \<times> ctx \<times> 'r) list"
    and s :: "('w, 'm, 'e, 'p, 'r) runs_state" where
  start: "interleaved newer side admitted first call puts s s"
| message: "interleaved newer side admitted first call puts s t \<Longrightarrow> newer m (h_chain t) \<Longrightarrow>
     interleaved newer side admitted first call puts s (t\<lparr>h_chain := m # h_chain t\<rparr>)"
| beside: "interleaved newer side admitted first call puts s t \<Longrightarrow> side (h_world t) w \<Longrightarrow>
     interleaved newer side admitted first call puts s (t\<lparr>h_world := w\<rparr>)"
| begin_run: "interleaved newer side admitted first call puts s t \<Longrightarrow> admitted e \<Longrightarrow>
     interleaved newer side admitted first call puts s (t\<lparr>h_runs := h_runs t @ [(e, c, first)]\<rparr>)"
| next_call: "interleaved newer side admitted first call puts s t \<Longrightarrow> i < length (h_runs t) \<Longrightarrow> h_runs t ! i = (e, c, p) \<Longrightarrow>
     call (h_chain t) e c (p, h_world t) (p', w') \<Longrightarrow>
     interleaved newer side admitted first call puts s
       (t\<lparr>h_world := w', h_runs := (h_runs t)[i := (e, c, p')], h_published := h_published t @ puts e c p p'\<rparr>)"

text \<open>A run that is left alone makes its calls one after another.\<close>

lemma interleaved_calls:
  assumes "interleaved newer side admitted first call puts s t" "h_runs t = rs @ [(e, c, p)]"
    and "\<And>x. call (h_chain t) e c x (f x)" "(f ^^ n) (p, h_world t) = (p', w')"
  shows "\<exists>pub. interleaved newer side admitted first call puts s
    (t\<lparr>h_world := w', h_runs := rs @ [(e, c, p')], h_published := h_published t @ pub\<rparr>)"
  using assms(1,2,4) assms(3)
proof (induction n arbitrary: t p)
  case 0
  then have "t\<lparr>h_world := w', h_runs := rs @ [(e, c, p')], h_published := h_published t @ []\<rparr> = t" by simp
  with 0 show ?case by metis
next
  case (Suc n)
  obtain q v where call: "f (p, h_world t) = (q, v)" by (metis surj_pair)
  let ?t = "t\<lparr>h_world := v, h_runs := rs @ [(e, c, q)], h_published := h_published t @ puts e c p q\<rparr>"
  have "call (h_chain t) e c (p, h_world t) (q, v)" using Suc.prems(4) [of "(p, h_world t)"] call by simp
  then have "interleaved newer side admitted first call puts s ?t"
    using interleaved.next_call [OF Suc.prems(1), of "length rs"] Suc.prems(2) by fastforce
  moreover have "(f ^^ n) (q, h_world ?t) = (p', w')"
    using Suc.prems(3) call by (simp add: funpow_Suc_right del: funpow.simps)
  ultimately obtain pub where "interleaved newer side admitted first call puts s
      (?t\<lparr>h_world := w', h_runs := rs @ [(e, c, p')], h_published := h_published ?t @ pub\<rparr>)"
    using Suc.IH [of ?t q] Suc.prems(4) by auto
  moreover have "?t\<lparr>h_world := w', h_runs := rs @ [(e, c, p')], h_published := h_published ?t @ pub\<rparr> =
      t\<lparr>h_world := w', h_runs := rs @ [(e, c, p')], h_published := h_published t @ (puts e c p q @ pub)\<rparr>" by simp
  ultimately show ?case by metis
qed

text \<open>Whatever was published was published by one of the runs.\<close>

lemma interleaved_published:
  assumes "interleaved newer side admitted first call puts s t" "\<And>e c p p'. fst ` set (puts e c p p') \<subseteq> {e}" "h_published s = []"
  shows "fst ` set (h_published t) \<subseteq> fst ` set (h_runs t)"
  using assms(1)
proof (induction rule: interleaved.induct)
  case (next_call t i e c p p' w')
  have "map fst ((h_runs t)[i := (e, c, p')]) = map fst (h_runs t)"
    using next_call.hyps(2,3) by (simp add: list_eq_iff_nth_eq nth_list_update)
  then have "fst ` set ((h_runs t)[i := (e, c, p')]) = fst ` set (h_runs t)" by (metis list.set_map)
  moreover have "e \<in> fst ` set (h_runs t)" using next_call.hyps(2,3) nth_mem by force
  ultimately show ?case using next_call.IH assms(2) [of e c p p'] by (auto simp: image_Un)
qed (use assms(3) in auto)

text \<open>
  The worlds that the runs of environments in \<open>E\<close> reach.  A handler that runs from its first to its last
  call stays among them.
\<close>

definition reached ::
  "('m \<Rightarrow> 'm list \<Rightarrow> bool) \<Rightarrow> ('w \<Rightarrow> 'w \<Rightarrow> bool) \<Rightarrow> ('e \<Rightarrow> bool) \<Rightarrow> 'p \<Rightarrow>
     ('m list \<Rightarrow> 'e \<Rightarrow> ctx \<Rightarrow> 'p \<times> 'w \<Rightarrow> 'p \<times> 'w \<Rightarrow> bool) \<Rightarrow> ('e \<Rightarrow> ctx \<Rightarrow> 'p \<Rightarrow> 'p \<Rightarrow> ('e \<times> ctx \<times> 'r) list) \<Rightarrow>
     ('w, 'm, 'e, 'p, 'r) runs_state \<Rightarrow> 'e set \<Rightarrow> 'm list \<Rightarrow> 'w \<Rightarrow> bool" where
  "reached newer side admitted first call puts s E chain w \<longleftrightarrow>
     (\<exists>t. interleaved newer side admitted first call puts s t \<and> h_world t = w \<and> h_chain t = chain \<and> fst ` set (h_runs t) \<subseteq> E)"

lemma reached_start: "reached newer side admitted first call puts (h_start w chain) E chain w"
  unfolding reached_def by (rule exI [of _ "h_start w chain"]) (simp add: interleaved.start h_start_def)

lemma reached_more: "reached newer side admitted first call puts s E chain w \<Longrightarrow> E \<subseteq> E' \<Longrightarrow> reached newer side admitted first call puts s E' chain w"
  unfolding reached_def by blast

lemma reached_message:
  assumes "reached newer side admitted first call puts s E chain w" "newer m chain"
  shows "reached newer side admitted first call puts s E (m # chain) w"
proof -
  from assms(1) obtain t where t: "interleaved newer side admitted first call puts s t" "h_world t = w" "h_chain t = chain" "fst ` set (h_runs t) \<subseteq> E"
    unfolding reached_def by blast
  with interleaved.message [OF t(1), of m] assms(2) show ?thesis
    unfolding reached_def by (intro exI [of _ "t\<lparr>h_chain := m # h_chain t\<rparr>"]) simp
qed

lemma reached_beside:
  assumes "reached newer side admitted first call puts s E chain w" "side w w'"
  shows "reached newer side admitted first call puts s E chain w'"
proof -
  from assms(1) obtain t where t: "interleaved newer side admitted first call puts s t" "h_world t = w" "h_chain t = chain" "fst ` set (h_runs t) \<subseteq> E"
    unfolding reached_def by blast
  with interleaved.beside [OF t(1), of w'] assms(2) show ?thesis
    unfolding reached_def by (intro exI [of _ "t\<lparr>h_world := w'\<rparr>"]) simp
qed

lemma reached_handler:
  assumes "reached newer side admitted first call puts s E chain w" "admitted e" "e \<in> E"
    and "\<And>x. call chain e c x (f x)" "(f ^^ n) (first, w) = (p', w')"
  shows "reached newer side admitted first call puts s E chain w'"
proof -
  from assms(1) obtain t where t: "interleaved newer side admitted first call puts s t" "h_world t = w" "h_chain t = chain" "fst ` set (h_runs t) \<subseteq> E"
    unfolding reached_def by blast
  let ?t = "t\<lparr>h_runs := h_runs t @ [(e, c, first)]\<rparr>"
  obtain pub where "interleaved newer side admitted first call puts s
      (?t\<lparr>h_world := w', h_runs := h_runs t @ [(e, c, p')], h_published := h_published ?t @ pub\<rparr>)" (is "interleaved _ _ _ _ _ _ _ ?u")
    using interleaved_calls [OF interleaved.begin_run [OF t(1) assms(2), of c], of "h_runs t" e c first f n p' w'] assms(4,5) t(2,3) by auto
  with t(3,4) assms(3) show ?thesis unfolding reached_def by (intro exI [of _ ?u]) auto
qed

text \<open>
  What has to be shown of an invariant.  \<open>world_ok\<close> is about the world and what was published,
  \<open>pc_ok\<close> about one run, and \<open>ext\<close> is what every step but a message guarantees to the runs that do not
  take it: each run relies on it and on nothing else.
\<close>

locale interleaved_inv =
  fixes newer :: "'m \<Rightarrow> 'm list \<Rightarrow> bool" and side :: "'w \<Rightarrow> 'w \<Rightarrow> bool" and admitted :: "'e \<Rightarrow> bool" and first :: 'p
    and call :: "'m list \<Rightarrow> 'e \<Rightarrow> ctx \<Rightarrow> 'p \<times> 'w \<Rightarrow> 'p \<times> 'w \<Rightarrow> bool" and puts :: "'e \<Rightarrow> ctx \<Rightarrow> 'p \<Rightarrow> 'p \<Rightarrow> ('e \<times> ctx \<times> 'r) list"
    and world_ok :: "('w, 'm, 'e, 'p, 'r) runs_state \<Rightarrow> bool" and pc_ok :: "('w, 'm, 'e, 'p, 'r) runs_state \<Rightarrow> 'p \<Rightarrow> bool"
    and ext :: "('w, 'm, 'e, 'p, 'r) runs_state \<Rightarrow> ('w, 'm, 'e, 'p, 'r) runs_state \<Rightarrow> bool"
  assumes ext_pc: "ext t t' \<Longrightarrow> pc_ok t p \<Longrightarrow> pc_ok t' p"
    and first_ok: "pc_ok t first"
    and message_ok: "newer m (h_chain t) \<Longrightarrow> world_ok t \<Longrightarrow> world_ok (t\<lparr>h_chain := m # h_chain t\<rparr>)"
    and message_pc: "newer m (h_chain t) \<Longrightarrow> pc_ok t p \<Longrightarrow> pc_ok (t\<lparr>h_chain := m # h_chain t\<rparr>) p"
    and beside_ok: "side (h_world t) w \<Longrightarrow> world_ok t \<Longrightarrow> ext t (t\<lparr>h_world := w\<rparr>) \<and> world_ok (t\<lparr>h_world := w\<rparr>)"
    and begin_ok: "admitted e \<Longrightarrow> world_ok t \<Longrightarrow>
       ext t (t\<lparr>h_runs := h_runs t @ [(e, c, first)]\<rparr>) \<and> world_ok (t\<lparr>h_runs := h_runs t @ [(e, c, first)]\<rparr>)"
    and call_ok: "admitted e \<Longrightarrow> i < length (h_runs t) \<Longrightarrow> h_runs t ! i = (e, c, p) \<Longrightarrow> call (h_chain t) e c (p, h_world t) (p', w') \<Longrightarrow>
       world_ok t \<Longrightarrow> pc_ok t p \<Longrightarrow>
       t' = t\<lparr>h_world := w', h_runs := (h_runs t)[i := (e, c, p')], h_published := h_published t @ puts e c p p'\<rparr> \<Longrightarrow>
       ext t t' \<and> world_ok t' \<and> pc_ok t' p'"
begin

theorem invariant:
  assumes "interleaved newer side admitted first call puts s t" "world_ok s" "h_runs s = []"
  shows "world_ok t \<and> (\<forall>(e, c, p) \<in> set (h_runs t). admitted e \<and> pc_ok t p)"
  using assms(1)
proof (induction rule: interleaved.induct)
  case start
  with assms(2,3) show ?case by simp
next
  case (message t m)
  then show ?case using message_ok message_pc by fastforce
next
  case (beside t w)
  then show ?case using beside_ok [of t w] ext_pc by fastforce
next
  case (begin_run t e c)
  then have "ext t (t\<lparr>h_runs := h_runs t @ [(e, c, first)]\<rparr>)" "world_ok (t\<lparr>h_runs := h_runs t @ [(e, c, first)]\<rparr>)"
    using begin_ok by blast+
  with begin_run first_ok ext_pc show ?case by fastforce
next
  case (next_call t i e c p p' w')
  let ?t = "t\<lparr>h_world := w', h_runs := (h_runs t)[i := (e, c, p')], h_published := h_published t @ puts e c p p'\<rparr>"
  have "(e, c, p) \<in> set (h_runs t)" using next_call.hyps(2,3) nth_mem by fastforce
  with next_call.IH have old: "admitted e" "pc_ok t p" "world_ok t" by blast+
  from call_ok [OF old(1) next_call.hyps(2-4) old(3,2) refl] have new: "ext t ?t" "world_ok ?t" "pc_ok ?t p'" by blast+
  have "admitted f \<and> pc_ok ?t q" if "(f, d, q) \<in> set (h_runs ?t)" for f d q
  proof -
    have "(f, d, q) = (e, c, p') \<or> (f, d, q) \<in> set (h_runs t)"
      using that set_update_subset_insert [of "h_runs t" i "(e, c, p')"] by auto
    then show ?thesis using old(1) new(1,3) next_call.IH ext_pc by blast
  qed
  with new(2) show ?case by blast
qed

end

end
