(* ===== verification/Scan_History.thy ===== *)
theory Scan_History
  imports Sample_World Interleaved_Runs
begin

text \<open>
  Runs of \<open>scan_master\<close>, one after another or at the same time, while the chain grows and the backend
  writes its tables.  \<open>scan_next\<close> is \<open>CollectNewProviders\<close>
  (\<open>internal/usecase/discovery/discovery.go\<close>) call by call; run alone it is the handler of
  \<open>Discovery_Cycle\<close>.  The steps of a \<open>history\<close> (\<open>Interleaved_Runs\<close>) are a message to the master
  wallet, a change of the world by the backend or by another cycle, the start of a run, and the next
  call of any run that was started.
\<close>

section \<open>One run\<close>

lemma app_CollectNewProviders_ok:
  assumes "CollectNewProviders uni (app_discovery e cfg) c w = (None, w')"
  obtains fromLT known scanned lastLT w1
  where "GetMasterWalletLT (e_q_lt e) (w_db w) = Inr fromLT" "GetAllPubkeys (e_q_pubkeys e) (w_db w) = Inr known"
    "MasterScanner_Scan (e_uni e) (e_ord e) (ton_client e 0) (ton_MasterAddress (cfg_TON cfg)) fromLT = Inr (scanned, lastLT)"
    "app_publish e cfg (streamKey cfg ''result'' CycleScanMaster) (JobIDFrom c) CycleScanMaster
       (PScanMaster \<lparr>NewProviders = new_loop uni (known_keys uni known) scanned, SM_LastLT = lastLT, ScannedCount = length scanned\<rparr>) w = (None, w1)"
    "w' = (if fromLT < lastLT then snd (on_db (SetMasterWalletLT (e_set_err e) lastLT) w1) else w1)"
  using assms
  by (auto simp: CollectNewProviders_def Let_def app_discovery_def split: sum.splits prod.splits option.splits if_splits)

lemma app_CollectNewProviders_fails:
  "CollectNewProviders uni (app_discovery e cfg) c w = (Some x, w') \<Longrightarrow> w_db w' = w_db w"
  by (auto simp: CollectNewProviders_def Let_def split: sum.splits prod.splits option.splits if_splits dest: app_publish_dbD)


lemma GetAllPubkeys_stored:
  assumes "GetAllPubkeys q db = Inr ks"
  shows "set ks \<subseteq> c_public_key ` set (providers_tbl db)"
proof -
  have loop: "xs = map c_public_key rs" if "scan_loop serr (\<lambda>r. Inr (c_public_key r)) 0 rs = Inr xs" for serr rs xs
    using scan_loop_Inr [OF that] by (simp add: list_all2_conv_all_nth list_eq_iff_nth_eq)
  from assms show ?thesis
    by (auto simp: GetAllPubkeys_def query_rows_def split: option.splits sum.splits if_splits dest!: loop)
qed

lemma GetMasterWalletLT_reliable: "GetMasterWalletLT q db = Inr lt \<Longrightarrow> GetMasterWalletLT (reliable ord) db = Inr lt"
  by (auto simp: GetMasterWalletLT_def Let_def split: option.splits sum.splits if_splits)

lemma registrations_covers:
  "tx \<in> set txs \<Longrightarrow> registration uni tx = Some pk \<Longrightarrow> pk \<in> fst ` set (registrations uni txs)"
  by (induction txs) (auto simp: registrations_Cons split: option.split)

section \<open>A run, call by call\<close>

text \<open>Where a run is: what it has read, and, at its end, what it returns.\<close>

datatype scan_pc =
    AtLT
  | AtKeys u64
  | AtScan u64 "string list"
  | AtPublish u64 ScanMasterResult
  | AtStore u64 u64
  | Ended "error option"

fun scan_next :: "(string \<Rightarrow> string) \<Rightarrow> 'w Discovery \<Rightarrow> ctx \<Rightarrow> scan_pc \<times> 'w \<Rightarrow> scan_pc \<times> 'w" where
  "scan_next uni d c (AtLT, w) =
     (case d_GetMasterWalletLT d w of Inl e \<Rightarrow> (Ended (Some e), w) | Inr fromLT \<Rightarrow> (AtKeys fromLT, w))"
| "scan_next uni d c (AtKeys fromLT, w) =
     (case d_GetAllPubkeys d w of Inl e \<Rightarrow> (Ended (Some e), w) | Inr knownPubkeys \<Rightarrow> (AtScan fromLT knownPubkeys, w))"
| "scan_next uni d c (AtScan fromLT knownPubkeys, w) =
     (case masterScanner d (MasterAddr (d_cfg d)) fromLT of Inl e \<Rightarrow> (Ended (Some e), w)
      | Inr (scanned, lastLT) \<Rightarrow>
        (AtPublish fromLT \<lparr>NewProviders = new_loop uni (known_keys uni knownPubkeys) scanned, SM_LastLT = lastLT,
           ScannedCount = length scanned\<rparr>, w))"
| "scan_next uni d c (AtPublish fromLT result, w) =
     (case d_PublishResult d (ScanMasterStream (d_cfg d)) (JobIDFrom c) CycleScanMaster (PScanMaster result) w of
        (Some e, w') \<Rightarrow> (Ended (Some e), w') | (None, w') \<Rightarrow> (AtStore fromLT (SM_LastLT result), w'))"
| "scan_next uni d c (AtStore fromLT lastLT, w) =
     (Ended None, if lastLT > fromLT then snd (d_SetMasterWalletLT d lastLT w) else w)"
| "scan_next uni d c (Ended r, w) = (Ended r, w)"

lemma scan_next_alone:
  assumes "CollectNewProviders uni d c w = (r, w')"
  shows "(scan_next uni d c ^^ 5) (AtLT, w) = (Ended r, w')"
  using assms by (auto simp: eval_nat_numeral CollectNewProviders_def Let_def split: sum.splits prod.splits option.splits if_splits)

section \<open>Histories\<close>

text \<open>The stored checkpoint, and the keys of the table of providers as the scan compares them.\<close>

definition stored_lt :: "World \<Rightarrow> u64 res" where
  "stored_lt w = GetMasterWalletLT (reliable source_order) (w_db w)"

definition table_keys :: "(string \<Rightarrow> string) \<Rightarrow> World \<Rightarrow> string list" where
  "table_keys uni w = map (\<lambda>row. ToLower uni (c_public_key row)) (providers_tbl (w_db w))"

text \<open>What the backend and the other cycles do: rows are added or changed, results are appended, the
  checkpoint of the master wallet stays.\<close>

definition grows :: "(string \<Rightarrow> string) \<Rightarrow> World \<Rightarrow> World \<Rightarrow> bool" where
  "grows uni w w' \<longleftrightarrow> set (table_keys uni w) \<subseteq> set (table_keys uni w') \<and> set (results w) \<subseteq> set (results w')"

text \<open>The liteserver has seen the chain up to \<open>b\<close>, and \<open>GetTransactions\<close> fails or returns what the
  master wallet received above the given time and up to \<open>b\<close>.\<close>

definition reads_upto :: "Config \<Rightarrow> ('a, 'b, 'd, 'peer, 'cell) Env \<Rightarrow> u64 \<Rightarrow> Transaction list \<Rightarrow> bool" where
  "reads_upto cfg e b txs \<longleftrightarrow>
     (\<forall>lt otxs. e_transactions e 0 (ton_MasterAddress (cfg_TON cfg)) lt = Inr otxs \<longrightarrow>
        set (above lt otxs) = {tx \<in> set txs. lt < Tx_LT tx \<and> Tx_LT tx \<le> b})"

type_synonym ('a, 'b, 'd, 'peer, 'cell) hstate = "(World, Transaction, ('a, 'b, 'd, 'peer, 'cell) Env, scan_pc, ScanMasterResult) runs_state"

definition publishes ::
  "('a, 'b, 'd, 'peer, 'cell) Env \<Rightarrow> ctx \<Rightarrow> scan_pc \<Rightarrow> scan_pc \<Rightarrow> (('a, 'b, 'd, 'peer, 'cell) Env \<times> ctx \<times> ScanMasterResult) list" where
  "publishes e c p p' = (case p of AtPublish lt r \<Rightarrow> (case p' of AtStore _ _ \<Rightarrow> [(e, c, r)] | _ \<Rightarrow> []) | _ \<Rightarrow> [])"

text \<open>The steps: a message to the master wallet is above those before it; beside the runs, the world
  grows and the checkpoint stays; a run does the next call of the handler, and the scan reads the chain.\<close>

definition scan_newer :: "Transaction \<Rightarrow> Transaction list \<Rightarrow> bool" where
  "scan_newer tx chain \<longleftrightarrow> (\<forall>x \<in> set chain. Tx_LT x < Tx_LT tx)"

definition scan_beside :: "(string \<Rightarrow> string) \<Rightarrow> World \<Rightarrow> World \<Rightarrow> bool" where
  "scan_beside uni w w' \<longleftrightarrow> grows uni w w' \<and> stored_lt w' = stored_lt w"

definition scan_admitted :: "(string \<Rightarrow> string) \<Rightarrow> ('a, 'b, 'd, 'peer, 'cell) Env \<Rightarrow> bool" where
  "scan_admitted uni e \<longleftrightarrow> e_uni e = uni"

definition scan_call ::
  "Config \<Rightarrow> (string \<Rightarrow> string) \<Rightarrow> Transaction list \<Rightarrow> ('a, 'b, 'd, 'peer, 'cell) Env \<Rightarrow> ctx \<Rightarrow> scan_pc \<times> World \<Rightarrow> scan_pc \<times> World \<Rightarrow> bool" where
  "scan_call cfg uni chain e c x y \<longleftrightarrow> ((\<exists>lt ks. fst x = AtScan lt ks) \<longrightarrow> (\<exists>b. reads_upto cfg e b chain)) \<and>
     y = scan_next uni (app_discovery e cfg) c x"

definition history ::
  "Config \<Rightarrow> (string \<Rightarrow> string) \<Rightarrow> ('a, 'b, 'd, 'peer, 'cell) hstate \<Rightarrow> ('a, 'b, 'd, 'peer, 'cell) hstate \<Rightarrow> bool" where
  "history cfg uni = interleaved scan_newer (scan_beside uni) (scan_admitted uni) AtLT (scan_call cfg uni) publishes"

text \<open>A key is accounted for when it is in the table or one of the runs has published it.\<close>

definition accounted :: "Config \<Rightarrow> (string \<Rightarrow> string) \<Rightarrow> ('a, 'b, 'd, 'peer, 'cell) hstate \<Rightarrow> string \<Rightarrow> bool" where
  "accounted cfg uni t pk \<longleftrightarrow> pk \<in> set (table_keys uni (h_world t)) \<or>
     (\<exists>(e, c, r) \<in> set (h_published t). pk \<in> PublicKey ` set (NewProviders r) \<and>
        (\<exists>d. e_marshal e (result_env (e_pub_now e) (app_publisher cfg) (JobIDFrom c) CycleScanMaster (PScanMaster r)) = Inr d \<and>
           (streamKey cfg ''result'' CycleScanMaster, d) \<in> set (results (h_world t))))"

text \<open>Everything on the chain between the first checkpoint and \<open>lt\<close> is accounted for.\<close>

definition done_upto :: "Config \<Rightarrow> (string \<Rightarrow> string) \<Rightarrow> u64 \<Rightarrow> ('a, 'b, 'd, 'peer, 'cell) hstate \<Rightarrow> u64 \<Rightarrow> bool" where
  "done_upto cfg uni lt0 t lt \<longleftrightarrow> (lt = lt0 \<or> lt \<in> Tx_LT ` set (h_chain t)) \<and>
     (\<forall>tx \<in> set (h_chain t). \<forall>pk. registration uni tx = Some pk \<longrightarrow> lt0 < Tx_LT tx \<longrightarrow> Tx_LT tx \<le> lt \<longrightarrow> accounted cfg uni t pk)"

section \<open>The invariant\<close>

definition pc_inv :: "Config \<Rightarrow> (string \<Rightarrow> string) \<Rightarrow> u64 \<Rightarrow> ('a, 'b, 'd, 'peer, 'cell) hstate \<Rightarrow> scan_pc \<Rightarrow> bool" where
  "pc_inv cfg uni lt0 t p =
     (case p of
        AtLT \<Rightarrow> True
      | AtKeys lt \<Rightarrow> done_upto cfg uni lt0 t lt
      | AtScan lt ks \<Rightarrow> done_upto cfg uni lt0 t lt \<and> ToLower uni ` set ks \<subseteq> set (table_keys uni (h_world t))
      | AtPublish lt r \<Rightarrow> done_upto cfg uni lt0 t lt \<and> (SM_LastLT r = lt \<or> SM_LastLT r \<in> Tx_LT ` set (h_chain t)) \<and>
          (\<forall>tx \<in> set (h_chain t). \<forall>pk. registration uni tx = Some pk \<longrightarrow> lt < Tx_LT tx \<longrightarrow> Tx_LT tx \<le> SM_LastLT r \<longrightarrow>
             pk \<in> set (table_keys uni (h_world t)) \<union> PublicKey ` set (NewProviders r))
      | AtStore lt l \<Rightarrow> done_upto cfg uni lt0 t l
      | Ended _ \<Rightarrow> True)"

text \<open>The stored checkpoint, and that of every published result.\<close>

definition stored_ok :: "Config \<Rightarrow> (string \<Rightarrow> string) \<Rightarrow> u64 \<Rightarrow> ('a, 'b, 'd, 'peer, 'cell) hstate \<Rightarrow> bool" where
  "stored_ok cfg uni lt0 t \<longleftrightarrow> (\<exists>lt. stored_lt (h_world t) = Inr lt \<and> done_upto cfg uni lt0 t lt) \<and>
     (\<forall>(e, c, r) \<in> set (h_published t). done_upto cfg uni lt0 t (SM_LastLT r))"

text \<open>What is accounted for stays so.\<close>

definition extends :: "(string \<Rightarrow> string) \<Rightarrow> ('a, 'b, 'd, 'peer, 'cell) hstate \<Rightarrow> ('a, 'b, 'd, 'peer, 'cell) hstate \<Rightarrow> bool" where
  "extends uni t t' \<longleftrightarrow> grows uni (h_world t) (h_world t') \<and> h_chain t' = h_chain t \<and> set (h_published t) \<subseteq> set (h_published t')"

lemma accounted_mono: "extends uni t t' \<Longrightarrow> accounted cfg uni t pk \<Longrightarrow> accounted cfg uni t' pk"
  unfolding accounted_def extends_def grows_def by blast

lemma done_upto_mono: "extends uni t t' \<Longrightarrow> done_upto cfg uni lt0 t lt \<Longrightarrow> done_upto cfg uni lt0 t' lt"
  using accounted_mono [of uni t t'] unfolding done_upto_def by (simp add: extends_def)

lemma pc_inv_mono:
  assumes "extends uni t t'" "pc_inv cfg uni lt0 t p"
  shows "pc_inv cfg uni lt0 t' p"
proof -
  have ext: "set (table_keys uni (h_world t)) \<subseteq> set (table_keys uni (h_world t'))" "h_chain t' = h_chain t"
    using assms(1) by (auto simp: extends_def grows_def)
  show ?thesis
  proof (cases p)
    case (AtScan lt ks)
    with assms(2) done_upto_mono [OF assms(1)] ext(1) show ?thesis by (auto simp: pc_inv_def)
  next
    case (AtPublish lt r)
    with assms(2) have "\<forall>tx \<in> set (h_chain t). \<forall>pk. registration uni tx = Some pk \<longrightarrow> lt < Tx_LT tx \<longrightarrow> Tx_LT tx \<le> SM_LastLT r \<longrightarrow>
        pk \<in> set (table_keys uni (h_world t')) \<union> PublicKey ` set (NewProviders r)"
      using ext(1) unfolding pc_inv_def by (simp, blast)
    with AtPublish assms(2) done_upto_mono [OF assms(1)] show ?thesis by (simp add: pc_inv_def ext(2))
  qed (use assms(2) done_upto_mono [OF assms(1)] in \<open>simp_all add: pc_inv_def\<close>)
qed

lemma done_upto_message:
  assumes "done_upto cfg uni lt0 t lt" "\<forall>x \<in> set (h_chain t). Tx_LT x < Tx_LT tx"
  shows "done_upto cfg uni lt0 (t\<lparr>h_chain := tx # h_chain t\<rparr>) lt"
proof -
  have "accounted cfg uni (t\<lparr>h_chain := tx # h_chain t\<rparr>) = accounted cfg uni t" by (simp add: accounted_def fun_eq_iff)
  moreover have "\<not> (lt0 < Tx_LT tx \<and> Tx_LT tx \<le> lt)" using assms by (auto simp: done_upto_def)
  ultimately show ?thesis using assms(1) by (auto simp: done_upto_def)
qed

lemma pc_inv_message:
  assumes "pc_inv cfg uni lt0 t p" "\<forall>x \<in> set (h_chain t). Tx_LT x < Tx_LT tx"
  shows "pc_inv cfg uni lt0 (t\<lparr>h_chain := tx # h_chain t\<rparr>) p"
  using assms(1) done_upto_message [OF _ assms(2)] assms(2)
  by (auto simp: pc_inv_def split: scan_pc.splits)

section \<open>One call keeps it\<close>

text \<open>The scan: what it returns covers the chain from the run's checkpoint to its new one.\<close>

lemma scan_covers:
  assumes scan: "masterScanner (app_discovery e cfg) (MasterAddr (d_cfg (app_discovery e cfg))) lt = Inr (ps, l)"
    and reads: "reads_upto cfg e b txs" and known: "ToLower (e_uni e) ` set ks \<subseteq> K"
  shows "l = lt \<or> l \<in> Tx_LT ` set txs"
    and "tx \<in> set txs \<Longrightarrow> registration (e_uni e) tx = Some pk \<Longrightarrow> lt < Tx_LT tx \<Longrightarrow> Tx_LT tx \<le> l \<Longrightarrow>
       pk \<in> K \<union> PublicKey ` set (new_loop (e_uni e) (known_keys (e_uni e) ks) ps)"
proof -
  have ms: "MasterScanner_Scan (e_uni e) (e_ord e) (ton_client e 0) (ton_MasterAddress (cfg_TON cfg)) lt = Inr (ps, l)"
    using scan by (simp add: app_discovery_def)
  then obtain otxs where cl: "cl_GetTransactions (ton_client e 0) (ton_MasterAddress (cfg_TON cfg)) lt = Inr otxs"
    and l: "l = max_LT lt (above lt otxs)" by (auto simp: MasterScanner_Scan_Inr)
  then have otxs: "set (above lt otxs) = {tx \<in> set txs. lt < Tx_LT tx \<and> Tx_LT tx \<le> b}"
    using reads by (simp add: reads_upto_def ton_client_def lite_client_def)
  have last: "l = lt \<or> (\<exists>x \<in> set txs. l = Tx_LT x \<and> l \<le> b)"
  proof -
    have "l = lt \<or> (\<exists>x \<in> set (above lt otxs). l = Tx_LT x)" unfolding l by (rule max_LT_from)
    moreover have "x \<in> set txs \<and> Tx_LT x \<le> b" if "x \<in> set (above lt otxs)" for x using that by (simp add: otxs)
    ultimately show ?thesis by blast
  qed
  then show "l = lt \<or> l \<in> Tx_LT ` set txs" by blast
  assume tx: "tx \<in> set txs" "registration (e_uni e) tx = Some pk" "lt < Tx_LT tx" "Tx_LT tx \<le> l"
  have "Tx_LT tx \<le> b" using last tx(3,4) by (meson leD order_trans)
  then have "tx \<in> set (above lt otxs)" using otxs tx by simp
  then have "map_of (registrations (e_uni e) (above lt otxs)) pk \<noteq> None"
    using registrations_covers [OF _ tx(2)] by (simp add: map_of_eq_None_iff)
  then obtain p where p: "map_of (registrations (e_uni e) (above lt otxs)) pk = Some p" by blast
  then have key: "PublicKey p = pk" by (auto dest!: map_of_SomeD dest: registrations_PublicKey)
  have "p \<in> set ps" using MasterScanner_Scan_set [OF ms cl] p by blast
  moreover have "ToLower (e_uni e) (PublicKey p) = PublicKey p" using ms.keys_lower [OF ms calculation] .
  ultimately have "p \<in> set (new_loop (e_uni e) (known_keys (e_uni e) ks) ps) \<or> PublicKey p \<in> ToLower (e_uni e) ` set ks"
    by (simp add: new_loop_filter)
  then show "pk \<in> K \<union> PublicKey ` set (new_loop (e_uni e) (known_keys (e_uni e) ks) ps)"
    using key known by blast
qed

lemma publish_keeps:
  assumes "d_PublishResult (app_discovery e cfg) st j cy pl v = (x, v')"
  shows "set (results v) \<subseteq> set (results v')" "w_db v' = w_db v"
proof -
  have run: "app_publish e cfg st j cy pl v = (x, v')" using assms by (simp add: app_discovery_def)
  then show "set (results v) \<subseteq> set (results v')"
    using app_pub.published [of e cfg st j cy pl v v'] app_pub.not_published [of e cfg st j cy pl v _ v'] by (cases x) auto
  show "w_db v' = w_db v" by (rule app_publish_dbD [OF run])
qed

lemma call_world:
  assumes "scan_next uni (app_discovery e cfg) c (p, w) = (p', w')"
  shows "grows uni' w w'" and "stored_lt w' = stored_lt w \<or> (\<exists>lt l. p = AtStore lt l \<and> stored_lt w' = Inr l)"
proof -
  have store: "table_keys uni' v' = table_keys uni' v \<and> results v' = results v \<and> (stored_lt v' = stored_lt v \<or> stored_lt v' = Inr l)"
    if "v' = snd (d_SetMasterWalletLT (app_discovery e cfg) l v)" for v v' l
  proof -
    obtain x db where db: "SetMasterWalletLT (e_set_err e) l (w_db v) = (x, db)" by (metis surj_pair)
    with that have v': "w_db v' = db" "results v' = results v" by (simp_all add: app_discovery_def on_db_def results_def)
    moreover have "providers_tbl db = providers_tbl (w_db v)" using db by (auto simp: SetMasterWalletLT_def split: option.splits)
    moreover have "stored_lt v' = stored_lt v \<or> stored_lt v' = Inr l"
      using db v'(1) by (cases x) (auto simp: stored_lt_def dest: master_lt.get_set master_lt.set_fails)
    ultimately show ?thesis by (simp add: table_keys_def)
  qed
  have pub: "table_keys uni' v' = table_keys uni' v \<and> set (results v) \<subseteq> set (results v') \<and> stored_lt v' = stored_lt v"
    if "d_PublishResult (app_discovery e cfg) st j cy pl v = (x, v')" for st j cy pl x v v'
    using publish_keeps [OF that] by (simp add: table_keys_def stored_lt_def)
  have "grows uni' w w' \<and> (stored_lt w' = stored_lt w \<or> (\<exists>lt l. p = AtStore lt l \<and> stored_lt w' = Inr l))"
  proof (cases p)
    case (AtPublish lt r)
    obtain x v where v: "d_PublishResult (app_discovery e cfg) (ScanMasterStream (d_cfg (app_discovery e cfg))) (JobIDFrom c) CycleScanMaster
        (PScanMaster r) w = (x, v)" by (metis surj_pair)
    with AtPublish assms have "w' = v" by (cases x) auto
    with pub [OF v] show ?thesis by (simp add: grows_def)
  next
    case (AtStore lt l)
    with assms store [OF refl, of l w] show ?thesis by (auto simp: grows_def)
  qed (use assms in \<open>auto simp: grows_def split: sum.splits\<close>)
  then show "grows uni' w w'" "stored_lt w' = stored_lt w \<or> (\<exists>lt l. p = AtStore lt l \<and> stored_lt w' = Inr l)" by blast+
qed

lemma call_result:
  assumes "scan_next uni (app_discovery e cfg) c (AtPublish lt r, w) = (AtStore lt' l, w')"
  shows "l = SM_LastLT r" "\<exists>d. e_marshal e (result_env (e_pub_now e) (app_publisher cfg) (JobIDFrom c) CycleScanMaster (PScanMaster r)) = Inr d \<and>
     (streamKey cfg ''result'' CycleScanMaster, d) \<in> set (results w')"
proof -
  have "app_publish e cfg (streamKey cfg ''result'' CycleScanMaster) (JobIDFrom c) CycleScanMaster (PScanMaster r) w = (None, w')"
    and "l = SM_LastLT r" using assms by (auto simp: app_discovery_def split: prod.splits option.splits)
  then show "l = SM_LastLT r" "\<exists>d. e_marshal e (result_env (e_pub_now e) (app_publisher cfg) (JobIDFrom c) CycleScanMaster (PScanMaster r)) = Inr d \<and>
     (streamKey cfg ''result'' CycleScanMaster, d) \<in> set (results w')"
    using app_pub.published by fastforce+
qed

text \<open>What a run has put on the stream is accounted for.\<close>

lemma published_done:
  assumes "pc_inv cfg (e_uni e) lt0 t (AtPublish lt r)" "(e, c, r) \<in> set (h_published t)"
    and call: "scan_next (e_uni e) (app_discovery e cfg) c (AtPublish lt r, w) = (AtStore lt (SM_LastLT r), h_world t)"
  shows "done_upto cfg (e_uni e) lt0 t (SM_LastLT r)"
proof -
  have inv: "done_upto cfg (e_uni e) lt0 t lt" "SM_LastLT r = lt \<or> SM_LastLT r \<in> Tx_LT ` set (h_chain t)"
    "\<forall>tx \<in> set (h_chain t). \<forall>pk. registration (e_uni e) tx = Some pk \<longrightarrow> lt < Tx_LT tx \<longrightarrow> Tx_LT tx \<le> SM_LastLT r \<longrightarrow>
      pk \<in> set (table_keys (e_uni e) (h_world t)) \<union> PublicKey ` set (NewProviders r)"
    using assms(1) by (simp_all add: pc_inv_def)
  have "accounted cfg (e_uni e) t pk" if "pk \<in> set (table_keys (e_uni e) (h_world t)) \<union> PublicKey ` set (NewProviders r)" for pk
    using that assms(2) call_result(2) [OF call] unfolding accounted_def by blast
  with inv show ?thesis unfolding done_upto_def by (metis not_le)
qed

text \<open>A call leaves the run in a state that fits what it has read and published.\<close>

lemma call_pc:
  assumes call: "scan_next (e_uni e) (app_discovery e cfg) c (p, h_world t) = (p', w')" and pc: "pc_inv cfg (e_uni e) lt0 t p"
    and stored: "stored_lt (h_world t) = Inr lt1" "done_upto cfg (e_uni e) lt0 t lt1"
    and reads: "(\<exists>lt ks. p = AtScan lt ks) \<longrightarrow> reads_upto cfg e b (h_chain t)"
    and t': "extends (e_uni e) t t'" "h_world t' = w'" "set (publishes e c p p') \<subseteq> set (h_published t')"
  shows "pc_inv cfg (e_uni e) lt0 t' p'"
proof (cases p)
  case AtLT
  have "lt = lt1" if "GetMasterWalletLT (e_q_lt e) (w_db (h_world t)) = Inr lt" for lt
    using GetMasterWalletLT_reliable [OF that, of source_order] stored(1) by (simp add: stored_lt_def)
  with AtLT call done_upto_mono [OF t'(1) stored(2)] show ?thesis
    by (auto simp: app_discovery_def pc_inv_def split: sum.splits)
next
  case (AtKeys lt)
  have "ToLower (e_uni e) ` set ks \<subseteq> set (table_keys (e_uni e) (h_world t'))" if "GetAllPubkeys (e_q_pubkeys e) (w_db (h_world t)) = Inr ks" for ks
    using GetAllPubkeys_stored [OF that] t'(1) by (fastforce simp: table_keys_def extends_def grows_def)
  with AtKeys call pc done_upto_mono [OF t'(1)] show ?thesis
    by (auto simp: app_discovery_def pc_inv_def split: sum.splits)
next
  case (AtScan lt ks)
  have rd: "reads_upto cfg e b (h_chain t')" using reads AtScan t'(1) by (auto simp: extends_def)
  have inv: "done_upto cfg (e_uni e) lt0 t' lt" "ToLower (e_uni e) ` set ks \<subseteq> set (table_keys (e_uni e) (h_world t'))"
    using pc_inv_mono [OF t'(1) pc] AtScan by (simp_all add: pc_inv_def)
  show ?thesis
  proof (cases "masterScanner (app_discovery e cfg) (MasterAddr (d_cfg (app_discovery e cfg))) lt")
    case (Inr x)
    then obtain ps l where scan: "masterScanner (app_discovery e cfg) (MasterAddr (d_cfg (app_discovery e cfg))) lt = Inr (ps, l)"
      by (metis surj_pair)
    with AtScan call have "p' = AtPublish lt \<lparr>NewProviders = new_loop (e_uni e) (known_keys (e_uni e) ks) ps, SM_LastLT = l, ScannedCount = length ps\<rparr>"
      by simp
    with inv(1) scan_covers [OF scan rd inv(2)] show ?thesis by (simp add: pc_inv_def)
  qed (use AtScan call in \<open>auto simp: pc_inv_def\<close>)
next
  case (AtPublish lt r)
  show ?thesis
  proof (cases "p' = AtStore lt (SM_LastLT r)")
    case True
    have "(e, c, r) \<in> set (h_published t')" using t'(3) AtPublish True by (simp add: publishes_def)
    from published_done [OF pc_inv_mono [OF t'(1) pc, unfolded AtPublish] this call [unfolded AtPublish True, folded t'(2)]] True
    show ?thesis by (simp add: pc_inv_def)
  next
    case False
    with AtPublish call show ?thesis by (auto simp: pc_inv_def split: prod.splits option.splits)
  qed
qed (use call in \<open>auto simp: pc_inv_def\<close>)

lemma stored_ok_extends:
  assumes "stored_ok cfg uni lt0 t" "extends uni t t'" "stored_lt (h_world t') = stored_lt (h_world t)" "h_published t' = h_published t"
  shows "stored_ok cfg uni lt0 t'"
  using assms(1) done_upto_mono [OF assms(2), of cfg lt0] unfolding stored_ok_def assms(3,4) by blast

lemma stored_ok_call:
  assumes ok: "stored_ok cfg uni lt0 t" and uni: "e_uni e = uni" and pc: "pc_inv cfg uni lt0 t p"
    and call: "scan_call cfg uni (h_chain t) e c (p, h_world t) (p', w')"
    and t': "t' = t\<lparr>h_world := w', h_runs := rs, h_published := h_published t @ publishes e c p p'\<rparr>"
  shows "extends uni t t' \<and> stored_ok cfg uni lt0 t' \<and> pc_inv cfg uni lt0 t' p'"
proof -
  obtain b where reads: "(\<exists>lt ks. p = AtScan lt ks) \<longrightarrow> reads_upto cfg e b (h_chain t)"
    and next_ok: "scan_next uni (app_discovery e cfg) c (p, h_world t) = (p', w')"
    using call by (auto simp: scan_call_def)
  obtain lt1 where stored: "stored_lt (h_world t) = Inr lt1" "done_upto cfg uni lt0 t lt1" using ok by (auto simp: stored_ok_def)
  have ext: "extends uni t t'" using call_world(1) [OF next_ok] by (simp add: extends_def t')
  have pc': "pc_inv cfg uni lt0 t' p'"
    using call_pc [of e cfg c p t p' w' lt0 lt1 b t'] next_ok pc stored reads ext uni by (simp add: t')
  have "\<exists>lt. stored_lt (h_world t') = Inr lt \<and> done_upto cfg uni lt0 t' lt"
    using call_world(2) [OF next_ok] stored pc_inv_mono [OF ext pc] done_upto_mono [OF ext] by (auto simp: pc_inv_def t')
  moreover have "done_upto cfg uni lt0 t' (SM_LastLT r)" if "(f, d, r) \<in> set (h_published t')" for f d r
  proof -
    from that consider "(f, d, r) \<in> set (h_published t)" | lt lt' l where "p = AtPublish lt r" "p' = AtStore lt' l"
      by (auto simp: publishes_def t' split: scan_pc.splits)
    then show ?thesis
    proof cases
      case 1
      with ok done_upto_mono [OF ext] show ?thesis unfolding stored_ok_def by blast
    next
      case 2
      with next_ok pc' show ?thesis using call_result(1) by (fastforce simp: pc_inv_def)
    qed
  qed
  ultimately show ?thesis using ext pc' unfolding stored_ok_def by blast
qed

lemma stored_ok_message:
  "scan_newer tx (h_chain t) \<Longrightarrow> stored_ok cfg uni lt0 t \<Longrightarrow> stored_ok cfg uni lt0 (t\<lparr>h_chain := tx # h_chain t\<rparr>)"
  using done_upto_message [of cfg uni lt0 t _ tx] by (auto simp: stored_ok_def scan_newer_def)

lemma stored_ok_beside:
  "scan_beside uni (h_world t) w \<Longrightarrow> stored_ok cfg uni lt0 t \<Longrightarrow> extends uni t (t\<lparr>h_world := w\<rparr>) \<and> stored_ok cfg uni lt0 (t\<lparr>h_world := w\<rparr>)"
  using stored_ok_extends [of cfg uni lt0 t "t\<lparr>h_world := w\<rparr>"] by (simp add: scan_beside_def extends_def)

lemma stored_ok_begin:
  "stored_ok cfg uni lt0 t \<Longrightarrow> extends uni t (t\<lparr>h_runs := rs\<rparr>) \<and> stored_ok cfg uni lt0 (t\<lparr>h_runs := rs\<rparr>)"
  using stored_ok_extends [of cfg uni lt0 t "t\<lparr>h_runs := rs\<rparr>"] by (simp add: extends_def grows_def)

interpretation scan_runs: interleaved_inv scan_newer "scan_beside uni" "scan_admitted uni" AtLT "scan_call cfg uni" publishes
    "stored_ok cfg uni lt0" "pc_inv cfg uni lt0" "extends uni" for cfg uni lt0
proof (unfold_locales, goal_cases)
  case 1 then show ?case by (rule pc_inv_mono)
next
  case 2 show ?case by (simp add: pc_inv_def)
next
  case 3 then show ?case by (rule stored_ok_message)
next
  case 4 then show ?case by (simp add: scan_newer_def pc_inv_message)
next
  case 5 then show ?case by (rule stored_ok_beside)
next
  case 6 then show ?case using stored_ok_begin by blast
next
  case 7 then show ?case unfolding scan_admitted_def by (intro stored_ok_call)
qed

lemma history_inv:
  assumes "history cfg uni (h_start w0 txs0) t" "stored_lt w0 = Inr lt0"
  shows "stored_ok cfg uni lt0 t"
proof -
  have "stored_ok cfg uni lt0 (h_start w0 txs0)" using assms(2) by (auto simp: stored_ok_def h_start_def done_upto_def)
  then show ?thesis using scan_runs.invariant [OF assms(1) [unfolded history_def]] by (metis h_start_def runs_state.select_convs(3))
qed

section \<open>A run alone is a history\<close>

lemma history_handler:
  assumes "history cfg (e_uni e) s t" "reads_upto cfg e b (h_chain t)"
    and "CollectNewProviders (e_uni e) (app_discovery e cfg) c (h_world t) = (r, w')"
  shows "\<exists>pub. history cfg (e_uni e) s (t\<lparr>h_world := w', h_runs := h_runs t @ [(e, c, Ended r)], h_published := h_published t @ pub\<rparr>)"
proof -
  have "history cfg (e_uni e) s (t\<lparr>h_runs := h_runs t @ [(e, c, AtLT)]\<rparr>)"
    using assms(1) unfolding history_def by (rule interleaved.begin_run) (simp add: scan_admitted_def)
  moreover have "scan_call cfg (e_uni e) (h_chain t) e c x (scan_next (e_uni e) (app_discovery e cfg) c x)" for x
    using assms(2) by (auto simp: scan_call_def)
  ultimately show ?thesis unfolding history_def
    using interleaved_calls [of _ _ _ _ _ _ _ _ "h_runs t" e c AtLT "scan_next (e_uni e) (app_discovery e cfg) c" 5 "Ended r" w']
      scan_next_alone [OF assms(3)] by fastforce
qed

section \<open>No registration is lost\<close>


lemma sample_scan_stores:
  assumes "CollectNewProviders (e_uni sample_env) (app_discovery sample_env sample_cfg) c w = (None, w')" "sample_like w"
  shows "stored_lt w' = Inr 30"
proof (rule app_CollectNewProviders_ok [OF assms(1)])
  fix fromLT known scanned lastLT w1
  assume "GetMasterWalletLT (e_q_lt sample_env) (w_db w) = Inr fromLT"
    and scan: "MasterScanner_Scan (e_uni sample_env) (e_ord sample_env) (ton_client sample_env 0) (ton_MasterAddress (cfg_TON sample_cfg)) fromLT = Inr (scanned, lastLT)"
    and w': "w' = (if fromLT < lastLT then snd (on_db (SetMasterWalletLT (e_set_err sample_env) lastLT) w1) else w1)"
  then have from10: "fromLT = 10" using assms(2) by (simp add: sample_checkpoint sample_like_def)
  have "cl_GetTransactions (ton_client sample_env 0) (ton_MasterAddress (cfg_TON sample_cfg)) 10 = Inr [Some (sample_registration 30)]"
    by (simp add: ton_client_def lite_client_def sample_transactions_def sample_cfg_def)
  with scan have "lastLT = 30"
    by (auto simp: MasterScanner_Scan_Inr from10 max_LT_def above_def map_filter_simps sample_registration_def max_def)
  with w' from10 show ?thesis
    by (simp add: stored_lt_def on_db_def SetMasterWalletLT_def master_lt.get_set [where flt = None])
qed


end
