(* ===== verification/Agent_Types.thy ===== *)
theory Agent_Types
  imports Sample_World
begin

text \<open>
  The types that the columns have beyond their Isabelle types, and that the agent keeps them: keys of
  \<open>system.params\<close> and of \<open>providers.providers\<close> are unique, the checkpoint of the master wallet is
  a decimal \<open>uint64\<close> or empty, logical times fit \<open>bigint\<close> and are not negative, and so are the
  sizes of the contracts.  On such a database no read of the agent fails to decode a row.
\<close>

definition lt_param_ok :: "string \<Rightarrow> bool" where
  "lt_param_ok v = (v = '''' \<or> (case ParseUint v of Inl e \<Rightarrow> False | Inr lt \<Rightarrow> True))"

definition row_typed :: "provider_row \<Rightarrow> bool" where
  "row_typed r = (0 \<le> c_last_tx_lt r \<and> c_last_tx_lt r < 2 ^ 63)"

definition well_typed :: "Db \<Rightarrow> bool" where
  "well_typed db \<longleftrightarrow> distinct (map fst (sys_params db)) \<and>
     (case map_of (sys_params db) lastLTKey of None \<Rightarrow> True | Some v \<Rightarrow> lt_param_ok v) \<and>
     distinct (map c_public_key (providers_tbl db)) \<and> list_all row_typed (providers_tbl db) \<and>
     list_all (\<lambda>sc. 0 \<le> sc_size sc) (contracts_tbl db)"

section \<open>Reads of a well-typed database\<close>

lemma scan_loop_all:
  "(\<forall>i. serr i = None) \<Longrightarrow> \<forall>r \<in> set rs. \<exists>x. dec r = Inr x \<Longrightarrow> \<exists>xs. scan_loop serr dec i rs = Inr xs"
proof (induction rs arbitrary: i)
  case (Cons r rs)
  then obtain x xs where "dec r = Inr x" "scan_loop serr dec (Suc i) rs = Inr xs" by (metis list.set_intros)
  with Cons.prems(1) [rule_format, of i] show ?case by simp
qed simp

lemma query_rows_all:
  assumes "pg_ok q" "\<forall>r \<in> set rs. \<exists>x. dec r = Inr x"
  shows "\<exists>xs. query_rows op q dec rs = Inr xs"
proof -
  from assms have "\<exists>xs. scan_loop (scan_err q) dec 0 (reorder (row_order q) rs) = Inr xs"
    by (intro scan_loop_all) (simp_all add: pg_ok_def)
  with assms(1) show ?thesis by (auto simp: query_rows_def pg_ok_def)
qed

lemma wallet_of_row_typed: "row_typed r \<Longrightarrow> \<exists>p. wallet_of_row r = Inr p"
  by (simp add: row_typed_def wallet_of_row_def scan_uint64_def)

lemma relation_of_row_typed: "0 \<le> sc_size (snd x) \<Longrightarrow> \<exists>r. relation_of_row x = Inr r"
  by (simp add: relation_of_row_def scan_uint64_def case_prod_beta)

lemma well_typed_reads:
  assumes "well_typed db" "pg_ok q_lt" "pg_ok q_wallets" "pg_ok q_relations"
  shows "(\<exists>lt. GetMasterWalletLT q_lt db = Inr lt) \<and> (\<exists>ps. GetAllWallets q_wallets db = Inr ps) \<and>
     (\<exists>rels. GetActiveRelations q_relations db = Inr rels)"
proof (intro conjI)
  show "\<exists>lt. GetMasterWalletLT q_lt db = Inr lt"
  proof (cases "map_of (sys_params db) lastLTKey")
    case (Some v)
    with assms(1) have "lt_param_ok v" by (simp add: well_typed_def)
    with Some assms(2) show ?thesis by (auto simp: GetMasterWalletLT_def lt_param_ok_def pg_ok_def split: sum.splits)
  qed (use assms(2) in \<open>simp add: GetMasterWalletLT_def pg_ok_def\<close>)
  show "\<exists>ps. GetAllWallets q_wallets db = Inr ps"
    unfolding GetAllWallets_def using assms(1,3)
    by (intro query_rows_all) (auto simp: well_typed_def list_all_iff intro: wallet_of_row_typed)
  show "\<exists>rels. GetActiveRelations q_relations db = Inr rels"
    unfolding GetActiveRelations_def using assms(1,4)
    by (intro query_rows_all) (auto simp: well_typed_def list_all_iff relation_rows_def intro!: relation_of_row_typed)
qed

section \<open>Writes keep the types\<close>

lemma SetMasterWalletLT_typed: "well_typed db \<Longrightarrow> well_typed (snd (SetMasterWalletLT err lt db))"
  by (cases err) (simp_all add: SetMasterWalletLT_def well_typed_def update_conv lt_param_ok_def ParseUint_FormatUint distinct_update)

text \<open>The server takes one of the values that match.\<close>

definition picks_one :: "(u64 list \<Rightarrow> u64) \<Rightarrow> bool" where
  "picks_one pick \<longleftrightarrow> (\<forall>ls. ls \<noteq> [] \<longrightarrow> pick ls \<in> set ls)"

lemma set_row_lt_typed:
  assumes "row_typed r" "picks_one pick" "\<forall>lt \<in> set (lt_matches loc ds r). unat lt < 2 ^ 63"
  shows "row_typed (set_row_lt loc pick ds r)"
proof (cases "lt_matches loc ds r")
  case (Cons l ls)
  then have "pick (l # ls) \<in> set (lt_matches loc ds r)" using assms(2) unfolding picks_one_def by (metis list.distinct(1))
  then have "unat (pick (l # ls)) < 2 ^ 63" using assms(3) by blast
  then have "int (unat (pick (l # ls))) < 2 ^ 63" by (metis of_nat_less_iff of_nat_numeral of_nat_power)
  with Cons show ?thesis by (simp add: set_row_lt_def row_typed_def)
qed (use assms(1) in \<open>simp add: set_row_lt_def\<close>)

lemma set_row_lt_key: "c_public_key (set_row_lt loc pick ds r) = c_public_key r"
  by (simp add: set_row_lt_def split: list.split)

lemma UpdateLT_typed:
  assumes "well_typed db" "picks_one pick"
  shows "well_typed (snd (UpdateLT loc pick err ps db))"
proof -
  let ?ds = "map (\<lambda>p. \<lparr>dto_PublicKey = PublicKey p, dto_LastTxLT = LT p\<rparr>) ps"
  have "list_all row_typed (map (set_row_lt loc pick ?ds) (providers_tbl db))" if "\<not> bigint_overflow loc ?ds (providers_tbl db)"
    using that assms by (auto simp: list_all_iff well_typed_def bigint_overflow_def list_ex_iff not_le intro!: set_row_lt_typed)
  with assms(1) have "well_typed (db\<lparr>providers_tbl := map (set_row_lt loc pick ?ds) (providers_tbl db)\<rparr>)"
    if "\<not> bigint_overflow loc ?ds (providers_tbl db)"
    using that by (simp add: well_typed_def set_row_lt_key comp_def)
  with assms(1) show ?thesis by (simp add: UpdateLT_def Let_def split: option.split)
qed

lemma app_write_typed:
  "well_typed (w_db w) \<Longrightarrow> well_typed (w_db (snd (d_SetMasterWalletLT (app_discovery e cfg) lt w)))"
  "well_typed (w_db w) \<Longrightarrow> picks_one (e_pick e) \<Longrightarrow> well_typed (w_db (snd (d_UpdateLT (app_discovery e cfg) ps w)))"
  using SetMasterWalletLT_typed [of "w_db w" "e_set_err e" lt] UpdateLT_typed [of "w_db w" "e_pick e" "e_loc e" "e_update_err e" ps]
  by (simp_all add: app_discovery_def on_db_def case_prod_beta)

lemma discovery_typed:
  "CollectNewProviders uni (app_discovery e cfg) c w = (x, w') \<Longrightarrow> well_typed (w_db w) \<Longrightarrow> well_typed (w_db w')"
  "CollectStorageContracts ord (app_discovery e cfg) c w = (x, w') \<Longrightarrow> picks_one (e_pick e) \<Longrightarrow> well_typed (w_db w) \<Longrightarrow> well_typed (w_db w')"
  by (auto simp: CollectNewProviders_def CollectStorageContracts_def Let_def
      split: sum.splits prod.splits option.splits if_splits dest: app_publish_dbD intro!: app_write_typed)

lemma reading_handlers:
  "ResolveEndpoints ord now (app_discovery e cfg) c w = (x, w') \<Longrightarrow> w_db w' = w_db w"
  "UpdateProviderRates pfin clk (app_poll e cfg) c w = (x, w') \<Longrightarrow> w_db w' = w_db w"
  "UpdateRejectedContracts ord clk' (app_poll e cfg) c w = (x, w') \<Longrightarrow> w_db w' = w_db w"
  "CheckStorageProofs ord qfin notice rnd clk'' (app_proof e cfg) c w = (x, w') \<Longrightarrow> w_db w' = w_db w"
  "UpdateIPInfo (app_update e cfg) c w = (x, w') \<Longrightarrow> w_db w' = w_db w"
  by (auto simp: ResolveEndpoints_def UpdateProviderRates_def UpdateRejectedContracts_def CheckStorageProofs_def UpdateIPInfo_def Let_def
      split: sum.splits prod.splits option.splits if_splits dest: app_publish_dbD)

lemma handlers_typed:
  assumes "b \<in> set (app_bindings e cfg)" "picks_one (e_pick e)" "well_typed (w_db w)"
  shows "well_typed (w_db (snd (b_handler b c w)))"
  using assms(1) unfolding app_bindings_def
  by (auto simp: discovery_typed(1) [OF surjective_pairing assms(3)] discovery_typed(2) [OF surjective_pairing assms(2,3)] reading_handlers [OF surjective_pairing] assms(3))

section \<open>The running agent keeps the types\<close>

lemma agent_redis_db:
  "w_db (snd (XReadGroup agent_redis args w)) = w_db w" "w_db (snd (XAck agent_redis s g i w)) = w_db w"
  "w_db (snd (XAutoClaim agent_redis cargs w)) = w_db w"
  by (simp_all add: agent_redis_def server_redis_def split: prod.split)

lemma agent_consumer_typed:
  assumes "b \<in> set (app_bindings e cfg)" "picks_one (e_pick e)"
  shows "consumer_keeps (\<lambda>w. well_typed (w_db w)) (NewConsumer agent_redis um (consumer_config cfg b) (b_handler b))"
  using handlers_typed [OF assms] by (simp add: consumer_keeps_def NewConsumer_def agent_redis_db)

lemma EnsureGroup_db: "EnsureGroup etext agent_group_create stream grp w = (r, w') \<Longrightarrow> w_db w' = w_db w"
  by (auto simp: EnsureGroup_def agent_group_create_def split: prod.splits option.splits if_splits)

lemma start_consumers_db:
  "start_consumers etext agent_group_create r um cfg bs w = (x, w') \<Longrightarrow> w_db w' = w_db w"
  by (induction bs arbitrary: w x) (auto split: if_splits prod.splits option.splits sum.splits dest!: EnsureGroup_db)

text \<open>
  C16.  The database stays well typed while the agent runs: from any well-typed database,
  in every state that the goroutines of all consumers reach in any interleaving, restarts included,
  with a backend that writes typed rows, the checkpoints are \<open>uint64\<close> decimals and \<open>bigint\<close>s that
  are not negative and the keys are unique; so the three reads whose columns are converted never
  fail on a value when the server answers.
\<close>

theorem agent_keeps_types:
  assumes "start_consumers etext agent_group_create agent_redis um cfg (app_bindings e cfg) w = (Inr cs, w1)"
    and "ts = concat (map Run_threads cs)" "run parent env ts (run_init ts \<lparr>world = w1, metrics = m\<rparr>) es s"
    and "picks_one (e_pick e)" "well_typed (w_db w)" "\<And>v v'. env v v' \<Longrightarrow> well_typed (w_db v) \<Longrightarrow> well_typed (w_db v')"
    and "pg_ok q_lt" "pg_ok q_wallets" "pg_ok q_relations"
  shows "well_typed (w_db (world (r_state s))) \<and> (\<exists>lt. GetMasterWalletLT q_lt (w_db (world (r_state s))) = Inr lt) \<and>
     (\<exists>ps. GetAllWallets q_wallets (w_db (world (r_state s))) = Inr ps) \<and>
     (\<exists>rels. GetActiveRelations q_relations (w_db (world (r_state s))) = Inr rels)"
proof -
  have "\<forall>c \<in> set cs. consumer_keeps (\<lambda>w. well_typed (w_db w)) c"
    using start_consumers_Inr [OF assms(1)] agent_consumer_typed [OF _ assms(4)] by auto
  then have "\<forall>x \<in> set ts \<union> set (r_threads (run_init ts \<lparr>world = w1, metrics = m\<rparr>)). consumer_keeps (\<lambda>w. well_typed (w_db w)) (fst x)"
    by (auto simp: assms(2) Run_threads_def run_init_def)
  moreover have "well_typed (w_db (world (r_state (run_init ts \<lparr>world = w1, metrics = m\<rparr>))))"
    using assms(5) start_consumers_db [OF assms(1)] by (simp add: run_init_def)
  ultimately have "well_typed (w_db (world (r_state s)))"
    using run_keeps_world [OF assms(3), of "\<lambda>w. well_typed (w_db w)"] assms(6) by blast
  with well_typed_reads assms(7-9) show ?thesis by blast
qed

lemma sample_typed: "well_typed (w_db sample_world)"
proof -
  have "lt_param_ok ''10''" by code_simp
  then show ?thesis by (simp add: well_typed_def row_a_def sample_row_def row_typed_def sample_contract_def)
qed

theorem agent_keeps_types_witness:
  "\<exists>cs w1 es s lt. start_consumers (\<lambda>e. ''BUSYGROUP'') agent_group_create agent_redis sample_unmarshal sample_cfg
       (app_bindings sample_env sample_cfg) sample_world = (Inr cs, w1) \<and>
     run sample_ctx (=) (concat (map Run_threads cs)) (run_init (concat (map Run_threads cs)) \<lparr>world = w1, metrics = Some NewMetrics\<rparr>) es s \<and>
     all_returned s \<and> well_typed (w_db (world (r_state s))) \<and> GetMasterWalletLT (reliable source_order) (w_db (world (r_state s))) = Inr lt"
proof -
  obtain cs w1 where st: "start_consumers (\<lambda>e. ''BUSYGROUP'') agent_group_create agent_redis sample_unmarshal sample_cfg
      (app_bindings sample_env sample_cfg) sample_world = (Inr cs, w1)" using sample_starts by blast
  let ?ts = "concat (map Run_threads cs)"
  from run_cancel_ends [OF sample_reaper [OF st]] obtain es s
    where run: "run sample_ctx (=) ?ts (run_init ?ts \<lparr>world = w1, metrics = Some NewMetrics\<rparr>) es s" "all_returned s" by blast
  have "picks_one (e_pick sample_env)" by (simp add: picks_one_def)
  from agent_keeps_types [OF st refl run(1) this sample_typed, of "reliable source_order" "reliable source_order" "reliable source_order"]
  show ?thesis using st run by auto
qed

end
