(* ===== verification/Wallet_History.thy ===== *)
theory Wallet_History
  imports Scan_History Agent_Types
begin

text \<open>
  Runs of \<open>scan_wallets\<close>, one after another or at the same time, while the wallets receive messages and
  the backend writes its tables.  \<open>wallets_next\<close> is \<open>CollectStorageContracts\<close>
  (\<open>internal/usecase/discovery/discovery.go\<close>) call by call on the database and the stream; the loop
  over the wallets, which only asks the liteserver, is one step, in which the liteserver may lag
  differently for each wallet.  Run alone it is the handler of \<open>Discovery_Cycle\<close>.
\<close>

section \<open>A run, call by call\<close>

datatype wallets_pc =
    AtWallets
  | AtLoop "Provider list"
  | AtResult ScanWalletsResult
  | AtUpdate "Provider list"
  | Finished "error option"

fun wallets_next :: "string iter_order \<Rightarrow> 'w Discovery \<Rightarrow> ctx \<Rightarrow> wallets_pc \<times> 'w \<Rightarrow> wallets_pc \<times> 'w" where
  "wallets_next ord d c (AtWallets, w) =
     (case d_GetAllWallets d w of Inl e \<Rightarrow> (Finished (Some e), w)
      | Inr wallets \<Rightarrow>
        (if wallets = [] then AtResult \<lparr>SW_Contracts = [], SW_Relations = [], UpdatedWallets = []\<rparr> else AtLoop wallets, w))"
| "wallets_next ord d c (AtLoop wallets, w) =
     (case wallets_loop d c 0 wallets ([], []) of Inl e \<Rightarrow> (Finished (Some e), w)
      | Inr (merged, updatedWallets) \<Rightarrow>
        (let contracts = map snd (map_range ord merged);
             relations = concat (map (contract_relations (addr_pubkeys wallets)) contracts) in
         (AtResult \<lparr>SW_Contracts = contracts, SW_Relations = relations, UpdatedWallets = updatedWallets\<rparr>, w)))"
| "wallets_next ord d c (AtResult result, w) =
     (case d_PublishResult d (ScanWalletsStream (d_cfg d)) (JobIDFrom c) CycleScanWallets (PScanWallets result) w of
        (Some e, w') \<Rightarrow> (Finished (Some e), w') | (None, w') \<Rightarrow> (AtUpdate (UpdatedWallets result), w'))"
| "wallets_next ord d c (AtUpdate updatedWallets, w) =
     (Finished None, if length updatedWallets > 0 then snd (d_UpdateLT d updatedWallets w) else w)"
| "wallets_next ord d c (Finished r, w) = (Finished r, w)"

lemma wallets_next_alone:
  assumes "CollectStorageContracts ord d c w = (r, w')"
  shows "(wallets_next ord d c ^^ 4) (AtWallets, w) = (Finished r, w')"
  using assms by (auto simp: eval_nat_numeral CollectStorageContracts_def Let_def split: sum.splits prod.splits option.splits if_splits)

lemma app_CollectStorageContracts_ok:
  assumes "CollectStorageContracts ord (app_discovery e cfg) c w = (None, w')"
    and "GetAllWallets (e_q_wallets e) (w_db w) = Inr wallets" "wallets \<noteq> []"
  obtains merged updated w1
  where "wallets_loop (app_discovery e cfg) c 0 wallets ([], []) = Inr (merged, updated)"
    "app_publish e cfg (streamKey cfg ''result'' CycleScanWallets) (JobIDFrom c) CycleScanWallets
       (PScanWallets \<lparr>SW_Contracts = map snd (map_range ord merged),
          SW_Relations = concat (map (contract_relations (addr_pubkeys wallets)) (map snd (map_range ord merged))),
          UpdatedWallets = updated\<rparr>) w = (None, w1)"
    "w' = (if length updated > 0 then snd (on_db (UpdateLT (e_loc e) (e_pick e) (e_update_err e) updated) w1) else w1)"
proof -
  have "d_GetAllWallets (app_discovery e cfg) w = Inr wallets" "d_UpdateLT (app_discovery e cfg) ps = on_db (UpdateLT (e_loc e) (e_pick e) (e_update_err e) ps)"
    for ps using assms(2) by (simp_all add: app_discovery_def)
  with assms(1,3) that show thesis
    by (auto simp: CollectStorageContracts_def Let_def split: sum.splits prod.splits option.splits if_splits)
qed

section \<open>Histories\<close>

text \<open>The information about a contract could not be had in a run: the address is invalid, the call
  failed, or there is no such contract.\<close>

definition info_missing :: "('a, 'b) LiteApi \<Rightarrow> string \<Rightarrow> bool" where
  "info_missing api q =
     (case GetMasterchainInfo api of Inl e \<Rightarrow> False
      | Inr block \<Rightarrow>
        (case ParseAddr api q of Inl e \<Rightarrow> True
         | Inr addr \<Rightarrow> (case GetStorageInfoV1 api block addr of Inl e \<Rightarrow> True | Inr i \<Rightarrow> i = None)))"

text \<open>The chain is the messages that wallets received.  The liteserver has seen the messages to wallet
  \<open>a\<close> up to \<open>b k a\<close> when the \<open>k\<close>-th wallet is scanned.\<close>

definition reads_wallets ::
  "('a, 'b, 'd, 'peer, 'cell) Env \<Rightarrow> (nat \<Rightarrow> string \<Rightarrow> u64) \<Rightarrow> (string \<times> Transaction) list \<Rightarrow> bool" where
  "reads_wallets e b chain \<longleftrightarrow>
     (\<forall>k a lt otxs. e_transactions e k a lt = Inr otxs \<longrightarrow>
        set (above lt otxs) = {tx. (a, tx) \<in> set chain \<and> lt < Tx_LT tx \<and> Tx_LT tx \<le> b k a})"

definition row_lt :: "provider_row \<Rightarrow> u64" where
  "row_lt row = word_of_int (c_last_tx_lt row)"

text \<open>Rows as the scanner writes and the backend stores them: typed, with a lower-case key, and each key
  with the address it was registered with.\<close>

definition rows_ok :: "(string \<Rightarrow> string) \<Rightarrow> (string \<Rightarrow> string) \<Rightarrow> World \<Rightarrow> bool" where
  "rows_ok loc addr_of w \<longleftrightarrow> (\<forall>row \<in> set (providers_tbl (w_db w)).
     row_typed row \<and> c_address row = addr_of (c_public_key row) \<and> ToLower loc (c_public_key row) = c_public_key row)"

text \<open>Beside the runs, results are appended, rows are removed or added, and a logical time that is
  written is not above the one that was there, or not above \<open>base\<close>.\<close>

definition rows_kept :: "(string \<Rightarrow> u64) \<Rightarrow> World \<Rightarrow> World \<Rightarrow> bool" where
  "rows_kept base w w' \<longleftrightarrow> (\<forall>row' \<in> set (providers_tbl (w_db w')). row_lt row' \<le> base (c_address row') \<or>
     (\<exists>row \<in> set (providers_tbl (w_db w)). c_address row = c_address row' \<and> row_lt row' \<le> row_lt row))"

type_synonym ('a, 'b, 'd, 'peer, 'cell) wstate =
  "(World, string \<times> Transaction, ('a, 'b, 'd, 'peer, 'cell) Env, wallets_pc, ScanWalletsResult) runs_state"

definition puts ::
  "('a, 'b, 'd, 'peer, 'cell) Env \<Rightarrow> ctx \<Rightarrow> wallets_pc \<Rightarrow> wallets_pc \<Rightarrow> (('a, 'b, 'd, 'peer, 'cell) Env \<times> ctx \<times> ScanWalletsResult) list" where
  "puts e c p p' = (case p of AtResult r \<Rightarrow> (case p' of AtUpdate _ \<Rightarrow> [(e, c, r)] | _ \<Rightarrow> []) | _ \<Rightarrow> [])"

definition wallets_newer :: "string \<times> Transaction \<Rightarrow> (string \<times> Transaction) list \<Rightarrow> bool" where
  "wallets_newer m chain \<longleftrightarrow> (\<forall>x. (fst m, x) \<in> set chain \<longrightarrow> Tx_LT x < Tx_LT (snd m))"

definition wallets_beside :: "(string \<Rightarrow> string) \<Rightarrow> (string \<Rightarrow> string) \<Rightarrow> (string \<Rightarrow> u64) \<Rightarrow> World \<Rightarrow> World \<Rightarrow> bool" where
  "wallets_beside loc addr_of base w w' \<longleftrightarrow> set (results w) \<subseteq> set (results w') \<and> rows_ok loc addr_of w' \<and> rows_kept base w w'"

definition wallets_admitted :: "(string \<Rightarrow> string) \<Rightarrow> ('a, 'b, 'd, 'peer, 'cell) Env \<Rightarrow> bool" where
  "wallets_admitted loc e \<longleftrightarrow> e_loc e = loc \<and> picks_one (e_pick e)"

definition wallets_call ::
  "Config \<Rightarrow> (string \<times> Transaction) list \<Rightarrow> ('a, 'b, 'd, 'peer, 'cell) Env \<Rightarrow> ctx \<Rightarrow> wallets_pc \<times> World \<Rightarrow> wallets_pc \<times> World \<Rightarrow> bool" where
  "wallets_call cfg chain e c x y \<longleftrightarrow> ((\<exists>ws. fst x = AtLoop ws) \<longrightarrow> (\<exists>b. reads_wallets e b chain)) \<and>
     (\<exists>ord. y = wallets_next ord (app_discovery e cfg) c x)"

definition whistory ::
  "Config \<Rightarrow> (string \<Rightarrow> string) \<Rightarrow> (string \<Rightarrow> string) \<Rightarrow> (string \<Rightarrow> u64) \<Rightarrow>
     ('a, 'b, 'd, 'peer, 'cell) wstate \<Rightarrow> ('a, 'b, 'd, 'peer, 'cell) wstate \<Rightarrow> bool" where
  "whistory cfg loc addr_of base =
     interleaved wallets_newer (wallets_beside loc addr_of base) (wallets_admitted loc) AtWallets (wallets_call cfg) puts"

text \<open>A contract is reported for a wallet when one of the published results has their relation, or it was
  not to be had in one of the runs.\<close>

definition relates :: "string \<Rightarrow> string \<Rightarrow> ScanWalletsResult \<Rightarrow> bool" where
  "relates q a r = list_ex (\<lambda>rel. ContractAddr rel = q \<and> ProviderAddress rel = a) (SW_Relations r)"

definition reported :: "Config \<Rightarrow> ('a, 'b, 'd, 'peer, 'cell) wstate \<Rightarrow> string \<Rightarrow> string \<Rightarrow> bool" where
  "reported cfg t q a \<longleftrightarrow>
     (\<exists>(e, c, r) \<in> set (h_published t). relates q a r \<and>
        (\<exists>d. e_marshal e (result_env (e_pub_now e) (app_publisher cfg) (JobIDFrom c) CycleScanWallets (PScanWallets r)) = Inr d \<and>
           (streamKey cfg ''result'' CycleScanWallets, d) \<in> set (results (h_world t))))"

definition skipped :: "('a, 'b, 'd, 'peer, 'cell) wstate \<Rightarrow> string \<Rightarrow> bool" where
  "skipped t q \<longleftrightarrow> (\<exists>(e, c, p) \<in> set (h_runs t). info_missing (e_api e) q)"

section \<open>The invariant\<close>

definition lt_seen :: "(string \<Rightarrow> u64) \<Rightarrow> ('a, 'b, 'd, 'peer, 'cell) wstate \<Rightarrow> string \<Rightarrow> u64 \<Rightarrow> bool" where
  "lt_seen base t a lt \<longleftrightarrow> lt \<le> base a \<or> (\<exists>tx. (a, tx) \<in> set (h_chain t) \<and> lt \<le> Tx_LT tx)"

text \<open>The withdrawals of wallet \<open>a\<close> between \<open>base\<close> and \<open>lt\<close>.\<close>

definition paid_by :: "(string \<Rightarrow> u64) \<Rightarrow> ('a, 'b, 'd, 'peer, 'cell) wstate \<Rightarrow> string \<Rightarrow> u64 \<Rightarrow> string set" where
  "paid_by base t a lt = {Tx_From tx | tx. (a, tx) \<in> set (h_chain t) \<and> Tx_Op tx = StorageRewardWithdrawalOpCode \<and>
     base a < Tx_LT tx \<and> Tx_LT tx \<le> lt}"

definition wallet_done ::
  "Config \<Rightarrow> (string \<Rightarrow> u64) \<Rightarrow> ('a, 'b, 'd, 'peer, 'cell) wstate \<Rightarrow> string \<Rightarrow> u64 \<Rightarrow> bool" where
  "wallet_done cfg base t a lt \<longleftrightarrow> lt_seen base t a lt \<and> (\<forall>q \<in> paid_by base t a lt. reported cfg t q a \<or> skipped t q)"

section \<open>What a scan of a wallet finds\<close>

lemma contracts_loop_missing:
  "q \<in> set addrs \<Longrightarrow> q \<notin> LC_Address ` set (contracts_loop api block addrs) \<Longrightarrow> GetMasterchainInfo api = Inr block \<Longrightarrow> info_missing api q"
  by (induction addrs) (auto simp: info_missing_def split: sum.splits option.splits)

lemma raise_distinct: "distinct (map fst m) \<Longrightarrow> distinct (map fst (fold raise_lt ws m))"
proof (induction ws arbitrary: m)
  case (Cons w ws)
  then have "distinct (map fst (raise_lt w m))" by (simp add: raise_lt_def distinct_update)
  from Cons.IH [OF this] show ?case by simp
qed simp

lemma Scanner_complete:
  assumes scan: "Scanner_Scan ord (lite_client tord api gt) wallet lt = Inr (cs, l)" and txs: "gt wallet lt = Inr txs"
    and tx: "tx \<in> set (withdrawals txs)" "0 < Tx_LT tx"
  shows "(\<exists>c \<in> set cs. SC_Address c = Tx_From tx) \<or> info_missing api (Tx_From tx)"
proof -
  let ?m = "fold raise_lt (withdrawals txs) []"
  have "Tx_LT tx \<le> max_LT 0 (filter (\<lambda>x. Tx_From x = Tx_From tx) (withdrawals txs))" using tx(1) by (intro max_LT_bound) simp
  then have "0 < max_LT 0 (filter (\<lambda>x. Tx_From x = Tx_From tx) (withdrawals txs))" using tx(2) by (rule less_le_trans [rotated])
  then have key: "map_of ?m (Tx_From tx) = Some (max_LT 0 (filter (\<lambda>x. Tx_From x = Tx_From tx) (withdrawals txs)))"
    by (simp add: raise_key)
  then have "?m \<noteq> []" by auto
  then obtain infos where infos: "GetStorageContractsInfo api (map fst (map_range ord ?m)) = Inr infos" "cs = enrich ?m wallet infos"
    using scan txs by (auto simp: Scanner_Scan_def lite_client_def scan_fold split: sum.splits if_splits)
  then obtain block where block: "GetMasterchainInfo api = Inr block" "infos = contracts_loop api block (map fst (map_range ord ?m))"
    by (auto simp: GetStorageContractsInfo_def split: sum.splits)
  have "distinct (map fst ?m)" by (rule raise_distinct) simp
  then have "Tx_From tx \<in> set (map fst (map_range ord ?m))"
    using map_of_SomeD [OF key] by (force simp: set_map_range)
  then consider "info_missing api (Tx_From tx)" | info where "info \<in> set infos" "LC_Address info = Tx_From tx"
    using contracts_loop_missing [of "Tx_From tx" "map fst (map_range ord ?m)" api block] block by (metis imageE)
  then show ?thesis
  proof cases
    case 2
    with key have "\<exists>c \<in> set (enrich ?m wallet infos). SC_Address c = Tx_From tx"
      by (force simp: enrich_def map_filter_def)
    with infos show ?thesis by blast
  qed simp
qed

lemma scan_relation:
  assumes "(w, cs, l) \<in> set (scans d 0 ws)" "sc \<in> set cs" "Address w \<in> set (Providers sc)"
    and "m = fold merge_contract (concat (map (fst \<circ> snd) (scans d 0 ws))) []"
  shows "\<exists>rel \<in> set (concat (map (contract_relations (addr_pubkeys ws)) (map snd (map_range ord m)))).
     ContractAddr rel = SC_Address sc \<and> ProviderAddress rel = Address w"
proof -
  have "sc \<in> set (concat (map (fst \<circ> snd) (scans d 0 ws)))" using assms(1,2) by force
  then obtain x where x: "(SC_Address sc, x) \<in> set m" "Address w \<in> set (Providers x)"
    using merged_providers [of "SC_Address sc" "concat (map (fst \<circ> snd) (scans d 0 ws))" "Address w"] assms(3,4) by blast
  then have addr: "SC_Address x = SC_Address sc" and mem: "x \<in> set (map snd (map_range ord m))"
    using merge_entry(1) contracts_of_merge [of ord] assms(4) by fastforce+
  have "w \<in> set ws" using scans_mem [OF assms(1)] by blast
  then have "Address w \<in> set (map fst (addr_pubkeys ws))"
    using gm.fold_put_keys [of Address PublicKey ws "[]"] by (simp add: addr_pubkeys_def)
  then obtain pk where "map_of (addr_pubkeys ws) (Address w) = Some pk"
    by (metis map_of_eq_None_iff not_None_eq list.set_map)
  with x(2) have "(SC_Address x, pk, Address w) \<in> triple ` set (contract_relations (addr_pubkeys ws) x)"
    by (auto simp: triples_of_contract)
  then obtain rel where "rel \<in> set (contract_relations (addr_pubkeys ws) x)" "ContractAddr rel = SC_Address sc" "ProviderAddress rel = Address w"
    by (auto simp: triple_def addr)
  with mem show ?thesis by auto
qed

section \<open>One call keeps the invariant\<close>

text \<open>A wallet as a run holds it, with what it has done so far.\<close>

definition wallet_row ::  "(string \<Rightarrow> string) \<Rightarrow> (string \<Rightarrow> string) \<Rightarrow> Provider \<Rightarrow> bool" where
  "wallet_row loc addr_of wl \<longleftrightarrow> Address wl = addr_of (PublicKey wl) \<and> ToLower loc (PublicKey wl) = PublicKey wl"

definition wpc_inv ::
  "Config \<Rightarrow> (string \<Rightarrow> string) \<Rightarrow> (string \<Rightarrow> string) \<Rightarrow> (string \<Rightarrow> u64) \<Rightarrow> ('a, 'b, 'd, 'peer, 'cell) wstate \<Rightarrow> wallets_pc \<Rightarrow> bool" where
  "wpc_inv cfg loc addr_of base t p =
     (case p of
        AtWallets \<Rightarrow> True
      | AtLoop ws \<Rightarrow> \<forall>wl \<in> set ws. wallet_row loc addr_of wl \<and> wallet_done cfg base t (Address wl) (LT wl)
      | AtResult r \<Rightarrow> \<forall>wl \<in> set (UpdatedWallets r). wallet_row loc addr_of wl \<and> lt_seen base t (Address wl) (LT wl) \<and>
          (\<forall>q \<in> paid_by base t (Address wl) (LT wl). relates q (Address wl) r \<or> reported cfg t q (Address wl) \<or> skipped t q)
      | AtUpdate ws \<Rightarrow> \<forall>wl \<in> set ws. wallet_row loc addr_of wl \<and> wallet_done cfg base t (Address wl) (LT wl)
      | Finished _ \<Rightarrow> True)"

definition wallets_ok ::
  "Config \<Rightarrow> (string \<Rightarrow> string) \<Rightarrow> (string \<Rightarrow> string) \<Rightarrow> (string \<Rightarrow> u64) \<Rightarrow> ('a, 'b, 'd, 'peer, 'cell) wstate \<Rightarrow> bool" where
  "wallets_ok cfg loc addr_of base t \<longleftrightarrow> rows_ok loc addr_of (h_world t) \<and>
     (\<forall>row \<in> set (providers_tbl (w_db (h_world t))). wallet_done cfg base t (c_address row) (row_lt row))"

definition wextends :: "('a, 'b, 'd, 'peer, 'cell) wstate \<Rightarrow> ('a, 'b, 'd, 'peer, 'cell) wstate \<Rightarrow> bool" where
  "wextends t t' \<longleftrightarrow> set (results (h_world t)) \<subseteq> set (results (h_world t')) \<and> h_chain t' = h_chain t \<and>
     set (h_published t) \<subseteq> set (h_published t') \<and> fst ` set (h_runs t) \<subseteq> fst ` set (h_runs t')"

lemma reported_mono: "wextends t t' \<Longrightarrow> reported cfg t q a \<Longrightarrow> reported cfg t' q a"
  unfolding reported_def wextends_def by blast

lemma skipped_iff: "skipped t q \<longleftrightarrow> (\<exists>e \<in> fst ` set (h_runs t). info_missing (e_api e) q)"
  by (force simp: skipped_def)

lemma skipped_mono: "wextends t t' \<Longrightarrow> skipped t q \<Longrightarrow> skipped t' q"
  unfolding skipped_iff wextends_def by blast

lemma seen_same: "wextends t t' \<Longrightarrow> lt_seen base t' = lt_seen base t" "wextends t t' \<Longrightarrow> paid_by base t' = paid_by base t"
  by (simp_all add: fun_eq_iff lt_seen_def paid_by_def wextends_def)

lemma wallet_done_mono: "wextends t t' \<Longrightarrow> wallet_done cfg base t a lt \<Longrightarrow> wallet_done cfg base t' a lt"
  using reported_mono [of t t' cfg] skipped_mono [of t t'] by (auto simp: wallet_done_def seen_same)

lemma wpc_inv_mono: "wextends t t' \<Longrightarrow> wpc_inv cfg loc addr_of base t p \<Longrightarrow> wpc_inv cfg loc addr_of base t' p"
  using wallet_done_mono [of t t' cfg base] reported_mono [of t t' cfg] skipped_mono [of t t']
  by (cases p) (fastforce simp: wpc_inv_def seen_same)+

lemma wallet_done_less:
  "wallet_done cfg base t a lt \<Longrightarrow> lt' \<le> lt \<Longrightarrow> wallet_done cfg base t a lt'"
  unfolding wallet_done_def lt_seen_def paid_by_def by (auto intro: order_trans)

text \<open>A new message is above what any run or row has seen of its wallet.\<close>

lemma message_seen:
  assumes "lt_seen base t a lt" "\<forall>x. (b, x) \<in> set (h_chain t) \<longrightarrow> Tx_LT x < Tx_LT tx"
  shows "lt_seen base (t\<lparr>h_chain := (b, tx) # h_chain t\<rparr>) a lt" "paid_by base (t\<lparr>h_chain := (b, tx) # h_chain t\<rparr>) a lt = paid_by base t a lt"
proof -
  show "lt_seen base (t\<lparr>h_chain := (b, tx) # h_chain t\<rparr>) a lt" using assms(1) by (auto simp: lt_seen_def)
  have "\<not> (a = b \<and> base a < Tx_LT tx \<and> Tx_LT tx \<le> lt)"
    using assms unfolding lt_seen_def by (meson leD le_less_trans less_le_trans order_trans)
  then show "paid_by base (t\<lparr>h_chain := (b, tx) # h_chain t\<rparr>) a lt = paid_by base t a lt" by (auto simp: paid_by_def)
qed

lemma message_same: "reported cfg (t\<lparr>h_chain := ch\<rparr>) = reported cfg t" "skipped (t\<lparr>h_chain := ch\<rparr>) = skipped t"
  by (simp_all add: fun_eq_iff reported_def skipped_def)

lemma wallet_done_message:
  assumes "\<forall>x. (b, x) \<in> set (h_chain t) \<longrightarrow> Tx_LT x < Tx_LT tx" "wallet_done cfg base t a lt"
  shows "wallet_done cfg base (t\<lparr>h_chain := (b, tx) # h_chain t\<rparr>) a lt"
  using assms(2) message_seen [OF _ assms(1)] by (simp add: wallet_done_def message_same)

lemma wpc_inv_message:
  assumes "\<forall>x. (b, x) \<in> set (h_chain t) \<longrightarrow> Tx_LT x < Tx_LT tx" "wpc_inv cfg loc addr_of base t p"
  shows "wpc_inv cfg loc addr_of base (t\<lparr>h_chain := (b, tx) # h_chain t\<rparr>) p"
  using assms(2) wallet_done_message [OF assms(1)] message_seen [OF _ assms(1)]
  by (cases p) (simp_all add: wpc_inv_def message_same)


text \<open>A scan that returns has read its wallet's withdrawals up to the logical time it returns.\<close>

lemma wallet_covers:
  assumes scan: "(wl, cs, l) \<in> set (scans (app_discovery e cfg) 0 ws)" and reads: "reads_wallets e b chain"
  shows "l = LT wl \<or> (\<exists>x. (Address wl, x) \<in> set chain \<and> l = Tx_LT x)"
    and "(Address wl, tx) \<in> set chain \<Longrightarrow> Tx_Op tx = StorageRewardWithdrawalOpCode \<Longrightarrow> LT wl < Tx_LT tx \<Longrightarrow> Tx_LT tx \<le> l \<Longrightarrow>
       (\<exists>sc \<in> set cs. SC_Address sc = Tx_From tx) \<or> info_missing (e_api e) (Tx_From tx)"
proof -
  obtain j where sc: "Scanner_Scan (e_scan_ord e j) (ton_client e j) (Address wl) (LT wl) = Inr (cs, l)"
    using scans_mem [OF scan] by (auto simp: app_discovery_def)
  then obtain otxs where otxs: "e_transactions e j (Address wl) (LT wl) = Inr otxs" and l: "l = max_LT (LT wl) (withdrawals otxs)"
    by (auto simp: ton_client_def lite_client_def elim: Scanner_Scan_Inr)
  have read: "set (above (LT wl) otxs) = {x. (Address wl, x) \<in> set chain \<and> LT wl < Tx_LT x \<and> Tx_LT x \<le> b j (Address wl)}"
    using reads otxs by (simp add: reads_wallets_def)
  have sub: "x \<in> set (withdrawals otxs) \<longleftrightarrow> x \<in> set (above (LT wl) otxs) \<and> Tx_Op x = StorageRewardWithdrawalOpCode"
    if "LT wl < Tx_LT x" for x using that by (auto simp: withdrawals_def above_def)
  have last: "l = LT wl \<or> (\<exists>x. (Address wl, x) \<in> set chain \<and> l = Tx_LT x \<and> l \<le> b j (Address wl))"
  proof (cases "l = LT wl")
    case False
    then obtain x where x: "x \<in> set (withdrawals otxs)" "l = Tx_LT x" using max_LT_from [of "LT wl" "withdrawals otxs"] l by metis
    moreover have "LT wl < Tx_LT x" using False max_LT_ge [of "LT wl" "withdrawals otxs"] x(2) l by simp
    ultimately show ?thesis using sub read by auto
  qed simp
  then show "l = LT wl \<or> (\<exists>x. (Address wl, x) \<in> set chain \<and> l = Tx_LT x)" by blast
  assume tx: "(Address wl, tx) \<in> set chain" "Tx_Op tx = StorageRewardWithdrawalOpCode" "LT wl < Tx_LT tx" "Tx_LT tx \<le> l"
  then have "Tx_LT tx \<le> b j (Address wl)" using last by (meson leD order_trans)
  with tx read sub have "tx \<in> set (withdrawals otxs)" by simp
  moreover have "0 < Tx_LT tx" using tx(3) by (metis word_gt_0 word_not_simps(1))
  ultimately show "(\<exists>sc \<in> set cs. SC_Address sc = Tx_From tx) \<or> info_missing (e_api e) (Tx_From tx)"
    using Scanner_complete [OF sc [unfolded ton_client_def] otxs] by blast
qed


lemma loop_result:
  assumes loop: "wallets_loop (app_discovery e cfg) c 0 ws ([], []) = Inr (m, u)" and reads: "reads_wallets e b (h_chain t)"
    and inv: "\<forall>wl \<in> set ws. wallet_row loc addr_of wl \<and> wallet_done cfg base t (Address wl) (LT wl)" and run: "e \<in> fst ` set (h_runs t)"
    and up: "up \<in> set u"
    and r: "SW_Relations r = concat (map (contract_relations (addr_pubkeys ws)) (map snd (map_range ord m)))"
  shows "wallet_row loc addr_of up" "lt_seen base t (Address up) (LT up)"
    and "q \<in> paid_by base t (Address up) (LT up) \<Longrightarrow> relates q (Address up) r \<or> reported cfg t q (Address up) \<or> skipped t q"
proof -
  let ?d = "app_discovery e cfg"
  have m: "m = fold merge_contract (concat (map (fst \<circ> snd) (scans ?d 0 ws))) []" "u = advanced (scans ?d 0 ws)"
    using wallets_loop_Inr [OF loop] by simp_all
  then obtain wl cs l where wl: "(wl, cs, l) \<in> set (scans ?d 0 ws)" "up = wl\<lparr>LT := l\<rparr>" using up by (auto simp: advanced_def)
  then have mem: "wl \<in> set ws" using scans_mem by blast
  then show "wallet_row loc addr_of up" using inv wl(2) by (simp add: wallet_row_def)
  have old: "lt_seen base t (Address wl) (LT wl)" "\<And>q. q \<in> paid_by base t (Address wl) (LT wl) \<Longrightarrow> reported cfg t q (Address wl) \<or> skipped t q"
    using inv mem by (auto simp: wallet_done_def)
  show "lt_seen base t (Address up) (LT up)" using wallet_covers(1) [OF wl(1) reads] old(1) wl(2) by (auto simp: lt_seen_def)
  assume "q \<in> paid_by base t (Address up) (LT up)"
  then obtain tx where tx: "(Address wl, tx) \<in> set (h_chain t)" "Tx_Op tx = StorageRewardWithdrawalOpCode" "base (Address wl) < Tx_LT tx"
      "Tx_LT tx \<le> l" "q = Tx_From tx" using wl(2) by (auto simp: paid_by_def)
  show "relates q (Address up) r \<or> reported cfg t q (Address up) \<or> skipped t q"
  proof (cases "Tx_LT tx \<le> LT wl")
    case True
    then have "q \<in> paid_by base t (Address wl) (LT wl)" using tx by (auto simp: paid_by_def)
    with old(2) wl(2) show ?thesis by simp
  next
    case False
    then consider sc where "sc \<in> set cs" "SC_Address sc = q" | "info_missing (e_api e) q"
      using wallet_covers(2) [OF wl(1) reads tx(1,2)] tx(4,5) by (auto simp: not_le)
    then show ?thesis
    proof cases
      case 1
      moreover have "Address wl \<in> set (Providers sc)"
        using scans_mem [OF wl(1)] ws.own_contracts 1(1) by (fastforce simp: app_discovery_def)
      ultimately show ?thesis using scan_relation [OF wl(1) _ _ m(1), of sc ord] r wl(2) by (auto simp: relates_def list_ex_iff)
    qed (use run in \<open>auto simp: skipped_iff\<close>)
  qed
qed

lemma wallets_read:
  assumes "GetAllWallets q db = Inr ws" "wl \<in> set ws"
  obtains row where "row \<in> set (providers_tbl db)" "PublicKey wl = c_public_key row" "Address wl = c_address row" "LT wl = row_lt row"
proof -
  from assms(1) consider "ws = []" | "list_all2 (\<lambda>r x. wallet_of_row r = Inr x) (reorder (row_order q) (providers_tbl db)) ws"
    by (auto simp: GetAllWallets_def query_rows_def dest: scan_loop_Inr split: option.splits sum.splits if_splits)
  then obtain row where "row \<in> set (reorder (row_order q) (providers_tbl db))" "wallet_of_row row = Inr wl"
  proof cases
    case 2
    obtain i where "i < length ws" "wl = ws ! i" using assms(2) by (auto simp: in_set_conv_nth)
    with 2 have "wallet_of_row (reorder (row_order q) (providers_tbl db) ! i) = Inr wl" "i < length (reorder (row_order q) (providers_tbl db))"
      by (simp_all add: list_all2_conv_all_nth)
    then show thesis using that nth_mem by blast
  qed (use assms(2) in simp)
  then show thesis using that by (auto simp: wallet_of_row_def scan_uint64_def row_lt_def split: sum.splits if_splits)
qed

lemma wallets_call_world:
  assumes "wallets_next ord (app_discovery e cfg) c (p, w) = (p', w')"
  shows "set (results w) \<subseteq> set (results w')"
    and "w_db w' = w_db w \<or> (\<exists>ws. p = AtUpdate ws \<and> w_db w' = snd (UpdateLT (e_loc e) (e_pick e) (e_update_err e) ws (w_db w)))"
proof -
  have "set (results w) \<subseteq> set (results w') \<and>
     (w_db w' = w_db w \<or> (\<exists>ws. p = AtUpdate ws \<and> w_db w' = snd (UpdateLT (e_loc e) (e_pick e) (e_update_err e) ws (w_db w))))"
  proof (cases p)
    case (AtResult r)
    obtain x v where v: "d_PublishResult (app_discovery e cfg) (ScanWalletsStream (d_cfg (app_discovery e cfg))) (JobIDFrom c) CycleScanWallets
        (PScanWallets r) w = (x, v)" by (metis surj_pair)
    with AtResult assms have "w' = v" by (cases x) auto
    with publish_keeps [OF v] show ?thesis by simp
  next
    case (AtUpdate ws)
    then have "w' = (if length ws > 0 then snd (d_UpdateLT (app_discovery e cfg) ws w) else w)" using assms by simp
    with AtUpdate show ?thesis by (auto simp: app_discovery_def on_db_def results_def case_prod_beta)
  qed (use assms in \<open>auto simp: Let_def split: sum.splits if_splits\<close>)
  then show "set (results w) \<subseteq> set (results w')"
    "w_db w' = w_db w \<or> (\<exists>ws. p = AtUpdate ws \<and> w_db w' = snd (UpdateLT (e_loc e) (e_pick e) (e_update_err e) ws (w_db w)))" by blast+
qed

lemma wallets_call_result:
  assumes "wallets_next ord (app_discovery e cfg) c (AtResult r, w) = (AtUpdate ws, w')"
  shows "ws = UpdatedWallets r" "\<exists>d. e_marshal e (result_env (e_pub_now e) (app_publisher cfg) (JobIDFrom c) CycleScanWallets (PScanWallets r)) = Inr d \<and>
     (streamKey cfg ''result'' CycleScanWallets, d) \<in> set (results w')"
proof -
  have "app_publish e cfg (streamKey cfg ''result'' CycleScanWallets) (JobIDFrom c) CycleScanWallets (PScanWallets r) w = (None, w')"
    and "ws = UpdatedWallets r" using assms by (auto simp: app_discovery_def split: prod.splits option.splits)
  then show "ws = UpdatedWallets r" "\<exists>d. e_marshal e (result_env (e_pub_now e) (app_publisher cfg) (JobIDFrom c) CycleScanWallets (PScanWallets r)) = Inr d \<and>
     (streamKey cfg ''result'' CycleScanWallets, d) \<in> set (results w')"
    using app_pub.published by fastforce+
qed

text \<open>A row after \<open>UpdateLT\<close> is a row from before, or carries the logical time of the wallet with its key.\<close>

lemma UpdateLT_row:
  assumes "row' \<in> set (providers_tbl (snd (UpdateLT loc pick err ws db)))" "picks_one pick"
    and "\<forall>wl \<in> set ws. ToLower loc (PublicKey wl) = PublicKey wl"
  obtains row where "row \<in> set (providers_tbl db)" "row' = row"
    | row wl where "row \<in> set (providers_tbl db)" "wl \<in> set ws" "c_public_key row = PublicKey wl" "unat (LT wl) < 2 ^ 63"
        "row' = row\<lparr>c_last_tx_lt := int (unat (LT wl))\<rparr>"
proof -
  let ?ds = "map (\<lambda>p. \<lparr>dto_PublicKey = PublicKey p, dto_LastTxLT = LT p\<rparr>) ws"
  consider "row' \<in> set (providers_tbl db)"
    | row where "row \<in> set (providers_tbl db)" "row' = set_row_lt loc pick ?ds row" "\<not> bigint_overflow loc ?ds (providers_tbl db)"
    using assms(1) by (auto simp: UpdateLT_def Let_def split: option.splits if_splits)
  then show thesis
  proof cases
    case 2
    show thesis
    proof (cases "lt_matches loc ?ds row")
      case (Cons l ls)
      then have "pick (l # ls) \<in> set (lt_matches loc ?ds row)" using assms(2) unfolding picks_one_def by (metis list.distinct(1))
      moreover from this 2 have "unat (pick (l # ls)) < 2 ^ 63" by (auto simp: bigint_overflow_def list_ex_iff not_le)
      ultimately obtain wl where "wl \<in> set ws" "c_public_key row = PublicKey wl" "pick (l # ls) = LT wl" "unat (LT wl) < 2 ^ 63"
        using assms(3) by (auto simp: lt_matches_def)
      with that(2) 2 Cons show thesis by (simp add: set_row_lt_def)
    qed (use that(1) 2 in \<open>simp add: set_row_lt_def\<close>)
  qed (rule that(1), simp_all)
qed


lemma wallets_ok_extends:
  assumes "wallets_ok cfg loc addr_of base t" "wextends t t'" "row \<in> set (providers_tbl (w_db (h_world t)))"
  shows "wallet_done cfg base t' (c_address row) (row_lt row)"
  using assms wallet_done_mono [OF assms(2), of cfg base] unfolding wallets_ok_def by blast

lemma wallets_published_done:
  assumes "wpc_inv cfg loc addr_of base t (AtResult r)" "(e, c, r) \<in> set (h_published t)" "wl \<in> set (UpdatedWallets r)"
    and call: "wallets_next ord (app_discovery e cfg) c (AtResult r, w) = (AtUpdate (UpdatedWallets r), h_world t)"
  shows "wallet_row loc addr_of wl \<and> wallet_done cfg base t (Address wl) (LT wl)"
proof -
  have pc: "wallet_row loc addr_of wl" "lt_seen base t (Address wl) (LT wl)"
    "\<forall>q \<in> paid_by base t (Address wl) (LT wl). relates q (Address wl) r \<or> reported cfg t q (Address wl) \<or> skipped t q"
    using assms(1,3) by (simp_all add: wpc_inv_def)
  have "reported cfg t q a" if "relates q a r" for q a
    using that assms(2) wallets_call_result(2) [OF call] unfolding reported_def by blast
  with pc show ?thesis unfolding wallet_done_def by blast
qed

lemma wallets_call_pc:
  assumes call: "wallets_next ord (app_discovery e cfg) c (p, h_world t) = (p', w')" and inv: "wallets_ok cfg loc addr_of base t"
    and run: "(e, c, p) \<in> set (h_runs t)" and pc_ok: "wpc_inv cfg loc addr_of base t p"
    and reads: "(\<exists>ws. p = AtLoop ws) \<longrightarrow> reads_wallets e b (h_chain t)"
    and t': "wextends t t'" "h_world t' = w'" "set (puts e c p p') \<subseteq> set (h_published t')"
  shows "wpc_inv cfg loc addr_of base t' p'"
proof (cases p)
  case AtWallets
  have "wallet_row loc addr_of wl \<and> wallet_done cfg base t' (Address wl) (LT wl)"
    if "GetAllWallets (e_q_wallets e) (w_db (h_world t)) = Inr ws" "wl \<in> set ws" for ws wl
  proof (rule wallets_read [OF that])
    fix row
    assume "row \<in> set (providers_tbl (w_db (h_world t)))" "PublicKey wl = c_public_key row" "Address wl = c_address row" "LT wl = row_lt row"
    moreover have "rows_ok loc addr_of (h_world t)" using inv by (simp add: wallets_ok_def)
    ultimately show ?thesis using wallets_ok_extends [OF inv t'(1)] by (auto simp: rows_ok_def wallet_row_def)
  qed
  with AtWallets call show ?thesis by (auto simp: app_discovery_def wpc_inv_def split: sum.splits if_splits)
next
  case (AtLoop ws)
  have rd: "reads_wallets e b (h_chain t')" using reads AtLoop t'(1) by (auto simp: wextends_def)
  have env: "e \<in> fst ` set (h_runs t')" using run t'(1) by (force simp: wextends_def)
  have pc: "\<forall>wl \<in> set ws. wallet_row loc addr_of wl \<and> wallet_done cfg base t' (Address wl) (LT wl)"
    using wpc_inv_mono [OF t'(1) pc_ok] AtLoop by (simp add: wpc_inv_def)
  show ?thesis
  proof (cases "wallets_loop (app_discovery e cfg) c 0 ws ([], [])")
    case (Inr x)
    then obtain m u where loop: "wallets_loop (app_discovery e cfg) c 0 ws ([], []) = Inr (m, u)" by (metis surj_pair)
    obtain r where r: "p' = AtResult r" "UpdatedWallets r = u"
        "SW_Relations r = concat (map (contract_relations (addr_pubkeys ws)) (map snd (map_range ord m)))"
      using AtLoop call loop by (auto simp: Let_def)
    with loop_result [OF loop rd pc env _ r(3)] show ?thesis by (simp add: wpc_inv_def)
  qed (use AtLoop call in \<open>auto simp: wpc_inv_def\<close>)
next
  case (AtResult r)
  show ?thesis
  proof (cases "p' = AtUpdate (UpdatedWallets r)")
    case True
    have "(e, c, r) \<in> set (h_published t')" using t'(3) AtResult True by (simp add: puts_def)
    from wallets_published_done [OF wpc_inv_mono [OF t'(1) pc_ok, unfolded AtResult] this _ call [unfolded AtResult True, folded t'(2)]] True
    show ?thesis by (simp add: wpc_inv_def)
  next
    case False
    with AtResult call show ?thesis by (auto simp: wpc_inv_def split: prod.splits option.splits)
  qed
qed (use call in \<open>auto simp: wpc_inv_def\<close>)

lemma wallets_call_rows:
  assumes call: "wallets_next ord (app_discovery e cfg) c (p, h_world t) = (p', w')" and inv: "wallets_ok cfg loc addr_of base t"
    and e: "e_loc e = loc" "picks_one (e_pick e)" and pc_ok: "wpc_inv cfg loc addr_of base t p" and t': "wextends t t'"
  shows "rows_ok loc addr_of w'" and "row' \<in> set (providers_tbl (w_db w')) \<Longrightarrow> wallet_done cfg base t' (c_address row') (row_lt row')"
proof -
  have ok: "rows_ok loc addr_of (h_world t)" using inv by (simp add: wallets_ok_def)
  note old = wallets_ok_extends [OF inv t']
  have row: "row_typed x \<and> c_address x = addr_of (c_public_key x) \<and> ToLower loc (c_public_key x) = c_public_key x \<and>
      wallet_done cfg base t' (c_address x) (row_lt x)" if x: "x \<in> set (providers_tbl (w_db w'))" for x
  proof (cases "w_db w' = w_db (h_world t)")
    case False
    then obtain ws where ws: "p = AtUpdate ws" "w_db w' = snd (UpdateLT (e_loc e) (e_pick e) (e_update_err e) ws (w_db (h_world t)))"
      using wallets_call_world(2) [OF call] by blast
    with wpc_inv_mono [OF t' pc_ok] have pc: "\<forall>wl \<in> set ws. wallet_row loc addr_of wl \<and> wallet_done cfg base t' (Address wl) (LT wl)"
      by (simp add: wpc_inv_def)
    then have low: "\<forall>wl \<in> set ws. ToLower (e_loc e) (PublicKey wl) = PublicKey wl" by (simp add: wallet_row_def e(1))
    show ?thesis
    proof (rule UpdateLT_row [OF x [unfolded ws(2)] e(2) low])
      fix r
      assume "r \<in> set (providers_tbl (w_db (h_world t)))" "x = r"
      with ok old show ?thesis by (simp add: rows_ok_def)
    next
      fix r wl
      assume r: "r \<in> set (providers_tbl (w_db (h_world t)))" and wl: "wl \<in> set ws" "c_public_key r = PublicKey wl" "unat (LT wl) < 2 ^ 63"
        and x: "x = r\<lparr>c_last_tx_lt := int (unat (LT wl))\<rparr>"
      have "c_address r = addr_of (c_public_key r)" "ToLower loc (c_public_key r) = c_public_key r" using ok r by (simp_all add: rows_ok_def)
      moreover have "wallet_row loc addr_of wl" "wallet_done cfg base t' (Address wl) (LT wl)" using pc wl(1) by blast+
      moreover have "int (unat (LT wl)) < 2 ^ 63" using wl(3) by (metis of_nat_less_iff of_nat_numeral of_nat_power)
      ultimately show ?thesis using wl(2) by (simp add: x row_typed_def wallet_row_def row_lt_def)
    qed
  qed (use x ok old in \<open>simp add: rows_ok_def\<close>)
  then show "rows_ok loc addr_of w'" unfolding rows_ok_def by blast
  show "row' \<in> set (providers_tbl (w_db w')) \<Longrightarrow> wallet_done cfg base t' (c_address row') (row_lt row')" using row by blast
qed


lemma wallets_ok_call:
  assumes ok: "wallets_ok cfg loc addr_of base t" and e: "wallets_admitted loc e" and i: "i < length (h_runs t)" "h_runs t ! i = (e, c, p)"
    and pc: "wpc_inv cfg loc addr_of base t p" and call: "wallets_call cfg (h_chain t) e c (p, h_world t) (p', w')"
    and t': "t' = t\<lparr>h_world := w', h_runs := (h_runs t)[i := (e, c, p')], h_published := h_published t @ puts e c p p'\<rparr>"
  shows "wextends t t' \<and> wallets_ok cfg loc addr_of base t' \<and> wpc_inv cfg loc addr_of base t' p'"
proof -
  obtain b ord where reads: "(\<exists>ws. p = AtLoop ws) \<longrightarrow> reads_wallets e b (h_chain t)"
    and next_ok: "wallets_next ord (app_discovery e cfg) c (p, h_world t) = (p', w')"
    using call unfolding wallets_call_def by (metis fst_conv)
  have run: "(e, c, p) \<in> set (h_runs t)" using i nth_mem by fastforce
  have "map fst ((h_runs t)[i := (e, c, p')]) = map fst (h_runs t)" using i by (simp add: list_eq_iff_nth_eq nth_list_update)
  then have "fst ` set ((h_runs t)[i := (e, c, p')]) = fst ` set (h_runs t)" by (metis list.set_map)
  then have ext: "wextends t t'" using wallets_call_world(1) [OF next_ok] by (simp add: wextends_def t')
  have "wpc_inv cfg loc addr_of base t' p'" using wallets_call_pc [OF next_ok ok run pc reads ext] by (simp add: t')
  moreover have "wallets_ok cfg loc addr_of base t'"
    using wallets_call_rows [OF next_ok ok _ _ pc ext] e by (auto simp: wallets_ok_def wallets_admitted_def t')
  ultimately show ?thesis using ext by blast
qed

lemma wallets_ok_beside:
  assumes ok: "wallets_ok cfg loc addr_of base t" and w: "wallets_beside loc addr_of base (h_world t) w"
  shows "wextends t (t\<lparr>h_world := w\<rparr>) \<and> wallets_ok cfg loc addr_of base (t\<lparr>h_world := w\<rparr>)"
proof -
  have ext: "wextends t (t\<lparr>h_world := w\<rparr>)" using w by (simp add: wextends_def wallets_beside_def)
  have "wallet_done cfg base (t\<lparr>h_world := w\<rparr>) (c_address r) (row_lt r)" if "r \<in> set (providers_tbl (w_db w))" for r
  proof (cases "row_lt r \<le> base (c_address r)")
    case True
    then show ?thesis by (auto simp: wallet_done_def lt_seen_def paid_by_def)
  next
    case False
    with that w obtain x where x: "x \<in> set (providers_tbl (w_db (h_world t)))" "c_address x = c_address r" "row_lt r \<le> row_lt x"
      unfolding wallets_beside_def rows_kept_def by blast
    with wallets_ok_extends [OF ok ext x(1)] show ?thesis using wallet_done_less by simp
  qed
  with ext w show ?thesis by (simp add: wallets_ok_def wallets_beside_def)
qed

lemma wallets_ok_begin:
  assumes "wallets_ok cfg loc addr_of base t"
  shows "wextends t (t\<lparr>h_runs := h_runs t @ rs\<rparr>) \<and> wallets_ok cfg loc addr_of base (t\<lparr>h_runs := h_runs t @ rs\<rparr>)"
proof -
  have ext: "wextends t (t\<lparr>h_runs := h_runs t @ rs\<rparr>)" by (auto simp: wextends_def)
  with assms wallets_ok_extends [OF assms ext] show ?thesis by (simp add: wallets_ok_def)
qed

interpretation wallet_runs: interleaved_inv wallets_newer "wallets_beside loc addr_of base" "wallets_admitted loc" AtWallets "wallets_call cfg" puts
    "wallets_ok cfg loc addr_of base" "wpc_inv cfg loc addr_of base" wextends for cfg loc addr_of base
proof (unfold_locales, goal_cases)
  case 1 then show ?case by (rule wpc_inv_mono)
next
  case 2 show ?case by (simp add: wpc_inv_def)
next
  case 3 then show ?case using wallet_done_message by (fastforce simp: wallets_ok_def wallets_newer_def)
next
  case 4 then show ?case using wpc_inv_message by (fastforce simp: wallets_newer_def)
next
  case 5 then show ?case by (intro wallets_ok_beside)
next
  case 6 then show ?case by (intro wallets_ok_begin)
next
  case 7 then show ?case by (intro wallets_ok_call)
qed

lemma whistory_inv:
  assumes "whistory cfg loc addr_of base (h_start w0 chain0) t" "rows_ok loc addr_of w0"
    and "\<forall>row \<in> set (providers_tbl (w_db w0)). row_lt row \<le> base (c_address row)"
  shows "wallets_ok cfg loc addr_of base t"
proof -
  have "wallets_ok cfg loc addr_of base (h_start w0 chain0)"
    using assms(2,3) by (auto simp: wallets_ok_def h_start_def wallet_done_def lt_seen_def paid_by_def)
  then show ?thesis using wallet_runs.invariant [OF assms(1) [unfolded whistory_def]] by (metis h_start_def runs_state.select_convs(3))
qed

section \<open>A run alone is a history\<close>

lemma whistory_handler:
  assumes "whistory cfg (e_loc e) addr_of base s t" "picks_one (e_pick e)" "reads_wallets e b (h_chain t)"
    and "CollectStorageContracts ord (app_discovery e cfg) c (h_world t) = (r, w')"
  shows "\<exists>pub. whistory cfg (e_loc e) addr_of base s
    (t\<lparr>h_world := w', h_runs := h_runs t @ [(e, c, Finished r)], h_published := h_published t @ pub\<rparr>)"
proof -
  have "whistory cfg (e_loc e) addr_of base s (t\<lparr>h_runs := h_runs t @ [(e, c, AtWallets)]\<rparr>)"
    using assms(1) unfolding whistory_def by (rule interleaved.begin_run) (simp add: wallets_admitted_def assms(2))
  moreover have "wallets_call cfg (h_chain t) e c x (wallets_next ord (app_discovery e cfg) c x)" for x
    using assms(3) by (auto simp: wallets_call_def)
  ultimately show ?thesis unfolding whistory_def
    using interleaved_calls [of _ _ _ _ _ _ _ _ "h_runs t" e c AtWallets "wallets_next ord (app_discovery e cfg) c" 4 "Finished r" w']
      wallets_next_alone [OF assms(4)] by fastforce
qed

section \<open>No withdrawal is lost\<close>



lemma sample_wallet_stores:
  assumes "CollectStorageContracts source_order (app_discovery sample_env sample_cfg) sample_ctx sample_world = (None, w')"
  shows "providers_tbl (w_db w') = [row_a\<lparr>c_last_tx_lt := 40\<rparr>]"
proof (rule app_CollectStorageContracts_ok [OF assms])
  show "GetAllWallets (e_q_wallets sample_env) (w_db sample_world) = Inr [wallet_a_provider]" by (simp add: sample_wallets)
  fix m u w1
  assume loop: "wallets_loop (app_discovery sample_env sample_cfg) sample_ctx 0 [wallet_a_provider] ([], []) = Inr (m, u)"
    and pub: "app_publish sample_env sample_cfg (streamKey sample_cfg ''result'' CycleScanWallets) (JobIDFrom sample_ctx) CycleScanWallets
       (PScanWallets \<lparr>SW_Contracts = map snd (map_range source_order m),
          SW_Relations = concat (map (contract_relations (addr_pubkeys [wallet_a_provider])) (map snd (map_range source_order m))),
          UpdatedWallets = u\<rparr>) sample_world = (None, w1)"
    and w': "w' = (if length u > 0 then snd (on_db (UpdateLT (e_loc sample_env) (e_pick sample_env) (e_update_err sample_env) u) w1) else w1)"
  have u: "u = [wallet_a_provider\<lparr>LT := 40\<rparr>]" using wallets_loop_Inr [OF loop] unfolding sample_scans
    by (simp add: advanced_def wallet_a_provider_def)
  have "providers_tbl (w_db w1) = [row_a]" using app_publish_dbD [OF pub] by simp
  moreover have "c_public_key row_a = sample_key" "ToLower (\<lambda>s. s) sample_key = sample_key" by (simp_all add: row_a_def sample_row_def) code_simp
  ultimately show ?thesis
    by (simp add: w' u on_db_def UpdateLT_def Let_def case_prod_beta bigint_overflow_def lt_matches_def set_row_lt_def wallet_a_provider_def)
qed simp

definition sample_withdrawal :: Transaction where
  "sample_withdrawal = (sample_registration 40)\<lparr>Tx_From := ''EQc'', Tx_Op := StorageRewardWithdrawalOpCode\<rparr>"

lemma sample_reads_wallets:
  "reads_wallets sample_env (\<lambda>_ _. 40) [(''EQm'', sample_registration 30), (wallet_a, sample_withdrawal)]"
proof -
  have "wallet_a \<noteq> ''EQm''" by (simp add: wallet_a_def sample_address_def)
  then show ?thesis
    by (auto simp: reads_wallets_def sample_transactions_def above_def map_filter_simps sample_registration_def sample_withdrawal_def)
qed

lemma sample_row_a: "c_address row_a = wallet_a" "c_last_tx_lt row_a = 7" "c_public_key row_a = sample_key"
  "ToLower (\<lambda>s. s) sample_key = sample_key"
  by (simp_all add: row_a_def sample_row_def) code_simp

lemma sample_rows_ok: "rows_ok (\<lambda>s. s) (\<lambda>_. wallet_a) sample_world"
  by (simp add: rows_ok_def row_typed_def sample_row_a)



section \<open>What a failed call for a contract costs\<close>

lemma contracts_loop_skips:
  "ParseAddr api q = Inr addr \<Longrightarrow> GetStorageInfoV1 api block addr = Inl err \<Longrightarrow> q \<notin> LC_Address ` set (contracts_loop api block addrs)"
  by (induction addrs) (auto split: sum.splits option.splits)

lemma Scanner_only_withdrawals:
  assumes "Scanner_Scan ord (lite_client tord api gt) wallet lt = Inr (cs, l)" "gt wallet lt = Inr txs" "\<forall>x \<in> set (withdrawals txs). Tx_From x \<noteq> q"
  shows "q \<notin> SC_Address ` set cs"
proof
  assume "q \<in> SC_Address ` set cs"
  then obtain sc where "sc \<in> set cs" "SC_Address sc = q" by blast
  with assms(1,2) have "map_of (fold raise_lt (withdrawals txs) []) q = Some (LastLT sc)"
    by (auto simp: lite_client_def elim: Scanner_Scan_Inr)
  then have "LastLT sc = max_LT 0 (filter (\<lambda>x. Tx_From x = q) (withdrawals txs))" "0 < LastLT sc" unfolding raise_key by blast+
  moreover have "filter (\<lambda>x. Tx_From x = q) (withdrawals txs) = []" using assms(3) by (simp add: filter_empty_conv)
  ultimately show False by (simp add: max_LT_def)
qed



end
