(* ===== verification/Agent_History.thy ===== *)
theory Agent_History
  imports Wallet_History
begin

text \<open>
  The running agent refines the histories of \<open>Scan_History\<close> and \<open>Wallet_History\<close>.  \<open>fleet\<close> is any
  sequence of processes of the agent, each with its own environment and its consumers interleaved as in
  \<open>Consumer_Run\<close>, beside other agents that run their handlers at any moment, stopped after any number
  of steps; between processes the wallets receive messages, and at any time the backend writes its
  tables.  In every world it reaches, both kinds of history are at that world,
  so what they lose nothing of, the agent loses nothing of.
\<close>

section \<open>Processes of the agent\<close>

text \<open>What happens beside a process: the backend adds and changes providers and answers on
  streams of its own, and leaves the checkpoints to the agent.\<close>

definition backend ::
  "(string \<Rightarrow> string) \<Rightarrow> (string \<Rightarrow> string) \<Rightarrow> (string \<Rightarrow> string) \<Rightarrow> (string \<Rightarrow> u64) \<Rightarrow> World \<Rightarrow> World \<Rightarrow> bool" where
  "backend uni loc addr_of base w w' \<longleftrightarrow> scan_beside uni w w' \<and> wallets_beside loc addr_of base w w'"

text \<open>An environment that a process may have: its tables of lower-case letters are the given ones, the
  server of the database picks one of the matching values, and the liteserver answers from the chain.\<close>

definition agent_env ::
  "(string \<Rightarrow> string) \<Rightarrow> (string \<Rightarrow> string) \<Rightarrow> (string \<times> Transaction) list \<Rightarrow> ('a, 'b, 'd, 'peer, 'cell) Env \<Rightarrow> bool" where
  "agent_env uni loc chain e \<longleftrightarrow> e_uni e = uni \<and> e_loc e = loc \<and> picks_one (e_pick e) \<and> (\<exists>b. reads_wallets e b chain)"

text \<open>Between two steps of a process, the backend writes or another agent runs one of its handlers.\<close>

definition others ::
  "Config \<Rightarrow> (string \<Rightarrow> string) \<Rightarrow> (string \<Rightarrow> string) \<Rightarrow> (string \<Rightarrow> string) \<Rightarrow> (string \<Rightarrow> u64) \<Rightarrow> ('a, 'b, 'd, 'peer, 'cell) Env list \<Rightarrow>
     World \<Rightarrow> World \<Rightarrow> bool" where
  "others cfg uni loc addr_of base fs w w' \<longleftrightarrow>
     backend uni loc addr_of base w w' \<or> (\<exists>f \<in> set fs. \<exists>b \<in> set (app_bindings f cfg). \<exists>c. w' = snd (b_handler b c w))"

inductive fleet ::
  "Config \<Rightarrow> (string \<Rightarrow> string) \<Rightarrow> (string \<Rightarrow> string) \<Rightarrow> (string \<Rightarrow> string) \<Rightarrow> (string \<Rightarrow> u64) \<Rightarrow> World \<Rightarrow> (string \<times> Transaction) list \<Rightarrow>
     ('a, 'b, 'd, 'peer, 'cell) Env list \<Rightarrow> World \<Rightarrow> (string \<times> Transaction) list \<Rightarrow> bool"
  for cfg :: Config and uni :: "string \<Rightarrow> string" and loc :: "string \<Rightarrow> string" and addr_of :: "string \<Rightarrow> string" and base :: "string \<Rightarrow> u64"
    and w0 :: World and chain0 :: "(string \<times> Transaction) list" where
  start: "fleet cfg uni loc addr_of base w0 chain0 [] w0 chain0"
| message: "fleet cfg uni loc addr_of base w0 chain0 es w chain \<Longrightarrow> wallets_newer m chain \<Longrightarrow>
     fleet cfg uni loc addr_of base w0 chain0 es w (m # chain)"
| idle: "fleet cfg uni loc addr_of base w0 chain0 es w chain \<Longrightarrow> backend uni loc addr_of base w w' \<Longrightarrow>
     fleet cfg uni loc addr_of base w0 chain0 es w' chain"
| no_start: "fleet cfg uni loc addr_of base w0 chain0 es w chain \<Longrightarrow>
     start_consumers etext agent_group_create agent_redis um cfg (app_bindings (e :: ('a, 'b, 'd, 'peer, 'cell) Env) cfg) w = (Inl x, w1) \<Longrightarrow>
     fleet cfg uni loc addr_of base w0 chain0 es w1 chain"
| process: "fleet cfg uni loc addr_of base w0 chain0 es w chain \<Longrightarrow>
     \<forall>f \<in> set (e # fs). agent_env uni loc chain f \<Longrightarrow>
     start_consumers etext agent_group_create agent_redis um cfg (app_bindings e cfg) w = (Inr cs, w1) \<Longrightarrow>
     ts = concat (map Run_threads cs) \<Longrightarrow>
     run parent (others cfg uni loc addr_of base fs) ts (run_init ts \<lparr>world = w1, metrics = Some NewMetrics\<rparr>) evs s \<Longrightarrow>
     fleet cfg uni loc addr_of base w0 chain0 (es @ e # fs) (world (r_state s)) chain"

text \<open>The messages to one wallet.\<close>

definition inbox :: "string \<Rightarrow> (string \<times> Transaction) list \<Rightarrow> Transaction list" where
  "inbox a chain = map snd (filter (\<lambda>m. fst m = a) chain)"

lemma set_inbox [simp]: "set (inbox a chain) = {tx. (a, tx) \<in> set chain}"
  by (force simp: inbox_def)

lemma inbox_newer: "wallets_newer (a, tx) chain \<Longrightarrow> scan_newer tx (inbox a chain)"
  by (simp add: wallets_newer_def scan_newer_def)

lemma reads_master: "reads_wallets e b chain \<Longrightarrow> reads_upto cfg e (b 0 (ton_MasterAddress (cfg_TON cfg))) (inbox (ton_MasterAddress (cfg_TON cfg)) chain)"
  by (simp add: reads_upto_def reads_wallets_def)

section \<open>What the handlers write\<close>

lemma storage_contracts_db:
  assumes "CollectStorageContracts ord (app_discovery e cfg) c w = (x, w')"
  shows "\<exists>ps. w_db w' = snd (UpdateLT (e_loc e) (e_pick e) (e_update_err e) ps (w_db w))"
proof -
  have none: "w_db w = snd (UpdateLT (e_loc e) (e_pick e) (e_update_err e) [] (w_db w))" by (simp add: UpdateLT_def)
  have up: "w_db (snd (d_UpdateLT (app_discovery e cfg) ps v)) = snd (UpdateLT (e_loc e) (e_pick e) (e_update_err e) ps (w_db v))" for ps v
    by (simp add: app_discovery_def on_db_def case_prod_beta)
  from assms consider "w_db w' = w_db w" | ps v where "w_db v = w_db w" "w' = snd (d_UpdateLT (app_discovery e cfg) ps v)"
    by (auto simp: CollectStorageContracts_def Let_def split: sum.splits prod.splits option.splits if_splits dest: app_publish_dbD)
  then show ?thesis by cases (use none up in metis)+
qed

lemma new_providers_db:
  assumes "CollectNewProviders uni (app_discovery e cfg) c w = (x, w')"
  shows "providers_tbl (w_db w') = providers_tbl (w_db w)"
proof -
  have "providers_tbl (w_db (snd (d_SetMasterWalletLT (app_discovery e cfg) lt v))) = providers_tbl (w_db v)" for lt v
    by (simp add: app_discovery_def on_db_def SetMasterWalletLT_def case_prod_beta split: option.split)
  with assms show ?thesis
    by (auto simp: CollectNewProviders_def Let_def split: sum.splits prod.splits option.splits if_splits dest: app_publish_dbD)
qed

lemma UpdateLT_beside:
  "map c_public_key (providers_tbl (snd (UpdateLT loc pick err ps db))) = map c_public_key (providers_tbl db)"
  "sys_params (snd (UpdateLT loc pick err ps db)) = sys_params db"
  by (simp_all add: UpdateLT_def Let_def set_row_lt_key comp_def split: option.split)

lemma scan_beside_db:
  assumes "map c_public_key (providers_tbl (w_db w')) = map c_public_key (providers_tbl (w_db w))" "sys_params (w_db w') = sys_params (w_db w)"
    and "set (results w) \<subseteq> set (results w')"
  shows "scan_beside uni w w'"
proof -
  have "table_keys uni v = map (ToLower uni) (map c_public_key (providers_tbl (w_db v)))" for v by (simp add: table_keys_def)
  then have "table_keys uni w' = table_keys uni w" by (simp only: assms(1))
  with assms(2,3) show ?thesis by (simp add: scan_beside_def grows_def stored_lt_def GetMasterWalletLT_def)
qed

lemma wallets_beside_db:
  assumes "providers_tbl (w_db w') = providers_tbl (w_db w)" "set (results w) \<subseteq> set (results w')" "rows_ok loc addr_of w"
  shows "wallets_beside loc addr_of base w w'"
  using assms by (auto simp: wallets_beside_def rows_ok_def rows_kept_def)

lemma binding_results:
  assumes "b \<in> set (app_bindings e cfg)"
  shows "set (results w) \<subseteq> set (results (snd (b_handler b c w)))"
proof -
  obtain x w' where x: "b_handler b c w = (x, w')" by (metis surj_pair)
  with cycle_handler.one_result [OF binding_is_handler [OF assms], of c w w'] cycle_handler.no_result [OF binding_is_handler [OF assms], of c w _ w']
  show ?thesis by (cases x) auto
qed

lemma binding_run:
  assumes "b \<in> set (app_bindings e cfg)" "b_handler b c w = (x, w')"
  shows "CollectNewProviders (e_uni e) (app_discovery e cfg) c w = (x, w') \<or> CollectStorageContracts (e_ord e) (app_discovery e cfg) c w = (x, w') \<or>
     w_db w' = w_db w"
  using assms unfolding app_bindings_def by (auto dest: reading_handlers)

section \<open>The agent refines the histories\<close>

text \<open>The worlds at which a history of either kind can be, with the runs of the environments in \<open>E\<close>.\<close>

definition scan_at ::
  "Config \<Rightarrow> (string \<Rightarrow> string) \<Rightarrow> World \<Rightarrow> (string \<times> Transaction) list \<Rightarrow> ('a, 'b, 'd, 'peer, 'cell) Env set \<Rightarrow>
     (string \<times> Transaction) list \<Rightarrow> World \<Rightarrow> bool" where
  "scan_at cfg uni w0 chain0 E chain =
     reached scan_newer (scan_beside uni) (scan_admitted uni) AtLT (scan_call cfg uni) publishes
       (h_start w0 (inbox (ton_MasterAddress (cfg_TON cfg)) chain0)) E (inbox (ton_MasterAddress (cfg_TON cfg)) chain)"

definition wallets_at ::
  "Config \<Rightarrow> (string \<Rightarrow> string) \<Rightarrow> (string \<Rightarrow> string) \<Rightarrow> (string \<Rightarrow> u64) \<Rightarrow> World \<Rightarrow> (string \<times> Transaction) list \<Rightarrow>
     ('a, 'b, 'd, 'peer, 'cell) Env set \<Rightarrow> (string \<times> Transaction) list \<Rightarrow> World \<Rightarrow> bool" where
  "wallets_at cfg loc addr_of base w0 chain0 =
     reached wallets_newer (wallets_beside loc addr_of base) (wallets_admitted loc) AtWallets (wallets_call cfg) puts (h_start w0 chain0)"

lemma scan_at_handler:
  assumes "scan_at cfg uni w0 chain0 E chain w" "b \<in> set (app_bindings e cfg)" "e_uni e = uni" "e \<in> E" "reads_wallets e bd chain"
  shows "scan_at cfg uni w0 chain0 E chain (snd (b_handler b c w))"
proof -
  obtain x w' where x: "b_handler b c w = (x, w')" by (metis surj_pair)
  have res: "set (results w) \<subseteq> set (results w')" using binding_results [OF assms(2), of w c] x by simp
  consider "CollectNewProviders (e_uni e) (app_discovery e cfg) c w = (x, w')"
    | ps where "w_db w' = snd (UpdateLT (e_loc e) (e_pick e) (e_update_err e) ps (w_db w))" | "w_db w' = w_db w"
    using binding_run [OF assms(2) x] storage_contracts_db [of "e_ord e" e cfg c w x w'] by blast
  then show ?thesis
  proof cases
    case 1
    have "scan_call cfg uni (inbox (ton_MasterAddress (cfg_TON cfg)) chain) e c y (scan_next uni (app_discovery e cfg) c y)" for y
      using reads_master [OF assms(5), of cfg] by (auto simp: scan_call_def)
    with reached_handler [OF assms(1) [unfolded scan_at_def], of e c "scan_next uni (app_discovery e cfg) c" 5 "Ended x" w']
    show ?thesis using scan_next_alone [OF 1] assms(3,4) x by (simp add: scan_at_def scan_admitted_def)
  next
    case 2
    then have "scan_beside uni w w'" by (intro scan_beside_db) (simp_all add: UpdateLT_beside res)
    then show ?thesis using reached_beside assms(1) x unfolding scan_at_def by (metis snd_conv)
  next
    case 3
    then have "scan_beside uni w w'" by (intro scan_beside_db) (simp_all add: res)
    then show ?thesis using reached_beside assms(1) x unfolding scan_at_def by (metis snd_conv)
  qed
qed

text \<open>The logical times of the rows are where the account begins.\<close>

definition settled :: "(string \<Rightarrow> string) \<Rightarrow> (string \<Rightarrow> string) \<Rightarrow> (string \<Rightarrow> u64) \<Rightarrow> World \<Rightarrow> bool" where
  "settled loc addr_of base w \<longleftrightarrow> rows_ok loc addr_of w \<and> (\<forall>row \<in> set (providers_tbl (w_db w)). row_lt row \<le> base (c_address row))"

lemma wallets_at_rows:
  assumes "wallets_at cfg loc addr_of base w0 chain0 E chain w" "settled loc addr_of base w0"
  shows "rows_ok loc addr_of w"
proof -
  obtain t where "whistory cfg loc addr_of base (h_start w0 chain0) t" "h_world t = w" "fst ` set (h_runs t) \<subseteq> E"
    using assms(1) unfolding wallets_at_def reached_def whistory_def by blast
  with whistory_inv [of cfg loc addr_of base w0 chain0 t] assms(2) show ?thesis by (simp add: settled_def wallets_ok_def)
qed

lemma wallets_at_handler:
  assumes at: "wallets_at cfg loc addr_of base w0 chain0 E chain w" "settled loc addr_of base w0" and b: "b \<in> set (app_bindings e cfg)"
    and e: "e_loc e = loc" "picks_one (e_pick e)" "e \<in> E" "reads_wallets e bd chain"
  shows "wallets_at cfg loc addr_of base w0 chain0 E chain (snd (b_handler b c w))"
proof -
  obtain x w' where x: "b_handler b c w = (x, w')" by (metis surj_pair)
  consider "CollectStorageContracts (e_ord e) (app_discovery e cfg) c w = (x, w')" | "providers_tbl (w_db w') = providers_tbl (w_db w)"
    using binding_run [OF b x] new_providers_db [of "e_uni e" e cfg c w x w'] by auto
  then show ?thesis
  proof cases
    case 1
    have "wallets_call cfg chain e c y (wallets_next (e_ord e) (app_discovery e cfg) c y)" for y
      using e(4) by (auto simp: wallets_call_def)
    with reached_handler [OF at(1) [unfolded wallets_at_def], of e c "wallets_next (e_ord e) (app_discovery e cfg) c" 4 "Finished x" w']
    show ?thesis using wallets_next_alone [OF 1] e(1-3) x by (simp add: wallets_at_def wallets_admitted_def)
  next
    case 2
    have "set (results w) \<subseteq> set (results w')" using binding_results [OF b, of w c] x by simp
    with 2 wallets_at_rows [OF at] have "wallets_beside loc addr_of base w w'" by (intro wallets_beside_db)
    then show ?thesis using reached_beside at(1) x unfolding wallets_at_def by (metis snd_conv)
  qed
qed

definition agent_at ::
  "Config \<Rightarrow> (string \<Rightarrow> string) \<Rightarrow> (string \<Rightarrow> string) \<Rightarrow> (string \<Rightarrow> string) \<Rightarrow> (string \<Rightarrow> u64) \<Rightarrow> World \<Rightarrow> (string \<times> Transaction) list \<Rightarrow>
     ('a, 'b, 'd, 'peer, 'cell) Env set \<Rightarrow> (string \<times> Transaction) list \<Rightarrow> World \<Rightarrow> bool" where
  "agent_at cfg uni loc addr_of base w0 chain0 E chain w \<longleftrightarrow>
     scan_at cfg uni w0 chain0 E chain w \<and> wallets_at cfg loc addr_of base w0 chain0 E chain w"

lemma agent_at_beside:
  "agent_at cfg uni loc addr_of base w0 chain0 E chain w \<Longrightarrow> backend uni loc addr_of base w w' \<Longrightarrow> agent_at cfg uni loc addr_of base w0 chain0 E chain w'"
  unfolding agent_at_def backend_def scan_at_def wallets_at_def by (blast intro: reached_beside)

lemma agent_at_same:
  assumes "agent_at cfg uni loc addr_of base w0 chain0 E chain w" "settled loc addr_of base w0" "w_db w' = w_db w" "results w' = results w"
  shows "agent_at cfg uni loc addr_of base w0 chain0 E chain w'"
proof -
  have "rows_ok loc addr_of w" using assms(1,2) wallets_at_rows unfolding agent_at_def by blast
  with assms(3,4) have "backend uni loc addr_of base w w'"
    unfolding backend_def by (intro conjI scan_beside_db wallets_beside_db) simp_all
  with assms(1) show ?thesis by (rule agent_at_beside)
qed

lemma agent_at_handler:
  assumes "agent_at cfg uni loc addr_of base w0 chain0 E chain w" "settled loc addr_of base w0"
    and "b \<in> set (app_bindings e cfg)" "agent_env uni loc chain e" "e \<in> E"
  shows "agent_at cfg uni loc addr_of base w0 chain0 E chain (snd (b_handler b c w))"
proof -
  obtain bd where e: "e_uni e = uni" "e_loc e = loc" "picks_one (e_pick e)" "reads_wallets e bd chain"
    using assms(4) by (auto simp: agent_env_def)
  show ?thesis
    using assms(1) scan_at_handler [OF _ assms(3) e(1) assms(5) e(4)] wallets_at_handler [OF _ assms(2,3) e(2,3) assms(5) e(4)]
    unfolding agent_at_def by blast
qed

lemma agent_at_others:
  assumes "agent_at cfg uni loc addr_of base w0 chain0 E chain w" "settled loc addr_of base w0"
    and "\<forall>f \<in> set fs. agent_env uni loc chain f" "set fs \<subseteq> E" "others cfg uni loc addr_of base fs w w'"
  shows "agent_at cfg uni loc addr_of base w0 chain0 E chain w'"
  using assms(5) unfolding others_def
proof (elim disjE bexE exE)
  show ?thesis if "backend uni loc addr_of base w w'" using assms(1) that by (rule agent_at_beside)
  show ?thesis if "f \<in> set fs" "b \<in> set (app_bindings f cfg)" "w' = snd (b_handler b c w)" for f b c
    using agent_at_handler [OF assms(1,2) that(2)] assms(3,4) that by blast
qed

lemma agent_at_consumer:
  assumes "b \<in> set (app_bindings e cfg)" "settled loc addr_of base w0" "agent_env uni loc chain e" "e \<in> E"
  shows "consumer_keeps (agent_at cfg uni loc addr_of base w0 chain0 E chain) (NewConsumer agent_redis um (consumer_config cfg b) (b_handler b))"
proof -
  note same = agent_at_same [OF _ assms(2)] and handled = agent_at_handler [OF _ assms(2,1,3,4)]
  have "results (snd (XReadGroup agent_redis args w)) = results w" "results (snd (XAck agent_redis s g i w)) = results w"
    "results (snd (XAutoClaim agent_redis cargs w)) = results w" for args s g i cargs w
    by (rule agent_redis_results [OF surjective_pairing])+
  then show ?thesis by (auto simp: consumer_keeps_def NewConsumer_def agent_redis_db intro: same handled)
qed

lemma start_consumers_results:
  "start_consumers etext agent_group_create r um cfg bs w = (x, w') \<Longrightarrow> results w' = results w"
proof (induction bs arbitrary: w x)
  case (Cons b bs)
  have "results v' = results v" if "EnsureGroup etext agent_group_create stream grp v = (y, v')" for stream grp v y v'
    using that by (auto simp: EnsureGroup_def agent_group_create_def split: prod.splits option.splits if_splits)
  with Cons show ?case by (fastforce split: if_splits prod.splits option.splits sum.splits)
qed simp

lemma fleet_at:
  assumes "fleet cfg uni loc addr_of base w0 chain0 es w chain" "settled loc addr_of base w0"
  shows "agent_at cfg uni loc addr_of base w0 chain0 (set es) chain w"
  using assms(1)
proof (induction rule: fleet.induct)
  case start
  show ?case unfolding agent_at_def scan_at_def wallets_at_def by (simp add: reached_start)
next
  case (message es w chain m)
  obtain a tx where m: "m = (a, tx)" by (cases m)
  have "scan_at cfg uni w0 chain0 (set es) (m # chain) w"
  proof (cases "a = ton_MasterAddress (cfg_TON cfg)")
    case True
    then have "inbox (ton_MasterAddress (cfg_TON cfg)) (m # chain) = tx # inbox (ton_MasterAddress (cfg_TON cfg)) chain"
      "scan_newer tx (inbox (ton_MasterAddress (cfg_TON cfg)) chain)" using inbox_newer message.hyps(2) m by (simp_all add: inbox_def)
    then show ?thesis using message.IH reached_message unfolding agent_at_def scan_at_def by metis
  next
    case False
    then have "inbox (ton_MasterAddress (cfg_TON cfg)) (m # chain) = inbox (ton_MasterAddress (cfg_TON cfg)) chain" by (simp add: inbox_def m)
    then show ?thesis using message.IH by (simp add: agent_at_def scan_at_def)
  qed
  moreover have "wallets_at cfg loc addr_of base w0 chain0 (set es) (m # chain) w"
    using message.IH message.hyps(2) unfolding agent_at_def wallets_at_def by (blast intro: reached_message)
  ultimately show ?case by (simp add: agent_at_def)
next
  case (idle es w chain w')
  then show ?case by (blast intro: agent_at_beside)
next
  case (no_start es w chain etext um e x w1)
  then show ?case using agent_at_same [OF _ assms(2)] start_consumers_db start_consumers_results by metis
next
  case (process es w chain e fs etext um cs w1 ts parent evs s)
  let ?E = "set (es @ e # fs)"
  let ?P = "agent_at cfg uni loc addr_of base w0 chain0 ?E chain"
  have env: "agent_env uni loc chain e" "\<forall>f \<in> set fs. agent_env uni loc chain f" using process.hyps(2) by simp_all
  have "?P w" using process.IH unfolding agent_at_def scan_at_def wallets_at_def by (auto intro: reached_more)
  then have "?P (world (r_state (run_init ts \<lparr>world = w1, metrics = Some NewMetrics\<rparr>)))"
    using agent_at_same [OF _ assms(2)] start_consumers_db [OF process.hyps(3)] start_consumers_results [OF process.hyps(3)]
    by (simp add: run_init_def)
  moreover have "\<forall>c \<in> set cs. consumer_keeps ?P c"
    using start_consumers_Inr [OF process.hyps(3)] agent_at_consumer [OF _ assms(2) env(1), of _ cfg ?E] by auto
  then have "\<forall>x \<in> set ts \<union> set (r_threads (run_init ts \<lparr>world = w1, metrics = Some NewMetrics\<rparr>)). consumer_keeps ?P (fst x)"
    by (auto simp: process.hyps(4) Run_threads_def run_init_def)
  moreover have "?P v'" if "others cfg uni loc addr_of base fs v v'" "?P v" for v v'
    by (rule agent_at_others [OF that(2) assms(2) env(2) _ that(1)]) auto
  ultimately show ?case using run_keeps_world [OF process.hyps(5), of ?P] by blast
qed

section \<open>The agent loses nothing\<close>

text \<open>A payload that a process with environment \<open>e\<close> put on the result stream of a cycle.\<close>

definition on_stream :: "Config \<Rightarrow> ('a, 'b, 'd, 'peer, 'cell) Env \<Rightarrow> string \<Rightarrow> Payload \<Rightarrow> World \<Rightarrow> bool" where
  "on_stream cfg e cy pl w \<longleftrightarrow> (\<exists>j d. e_marshal e (result_env (e_pub_now e) (app_publisher cfg) j cy pl) = Inr d \<and>
     (streamKey cfg ''result'' cy, d) \<in> set (results w))"

lemma scan_at_accounts:
  assumes "scan_at cfg uni w0 chain0 E chain w" "stored_lt w0 = Inr lt0" "(ton_MasterAddress (cfg_TON cfg), tx) \<in> set chain"
    and "registration uni tx = Some pk" "lt0 < Tx_LT tx" "stored_lt w = Inr lt" "Tx_LT tx \<le> lt"
  shows "pk \<in> set (table_keys uni w) \<or> (\<exists>e \<in> E. \<exists>r. pk \<in> PublicKey ` set (NewProviders r) \<and> on_stream cfg e CycleScanMaster (PScanMaster r) w)"
proof -
  let ?m = "ton_MasterAddress (cfg_TON cfg)"
  obtain t where t: "history cfg uni (h_start w0 (inbox ?m chain0)) t" "h_world t = w" "h_chain t = inbox ?m chain" "fst ` set (h_runs t) \<subseteq> E"
    using assms(1) unfolding scan_at_def reached_def history_def by blast
  have "fst ` set (h_published t) \<subseteq> fst ` set (h_runs t)"
    by (rule interleaved_published [OF t(1) [unfolded history_def]]) (auto simp: publishes_def h_start_def split: scan_pc.splits)
  moreover have "done_upto cfg uni lt0 t lt"
    using history_inv [OF t(1) assms(2)] t(2) assms(6) by (simp add: stored_ok_def)
  then have "accounted cfg uni t pk" using assms(3-5,7) t(3) by (simp add: done_upto_def)
  ultimately show ?thesis using t(2,4) unfolding accounted_def on_stream_def by fastforce
qed

lemma wallets_at_accounts:
  assumes "wallets_at cfg loc addr_of base w0 chain0 E chain w" "settled loc addr_of base w0"
    and "row \<in> set (providers_tbl (w_db w))" "(c_address row, tx) \<in> set chain" "Tx_Op tx = StorageRewardWithdrawalOpCode"
    and "base (c_address row) < Tx_LT tx" "Tx_LT tx \<le> row_lt row"
  shows "\<exists>e \<in> E. info_missing (e_api e) (Tx_From tx) \<or> (\<exists>r. relates (Tx_From tx) (c_address row) r \<and> on_stream cfg e CycleScanWallets (PScanWallets r) w)"
proof -
  obtain t where t: "whistory cfg loc addr_of base (h_start w0 chain0) t" "h_world t = w" "h_chain t = chain" "fst ` set (h_runs t) \<subseteq> E"
    using assms(1) unfolding wallets_at_def reached_def whistory_def by blast
  have "fst ` set (h_published t) \<subseteq> fst ` set (h_runs t)"
    by (rule interleaved_published [OF t(1) [unfolded whistory_def]]) (auto simp: puts_def h_start_def split: wallets_pc.splits)
  moreover have "wallet_done cfg base t (c_address row) (row_lt row)"
    using whistory_inv [OF t(1)] t(2) assms(2,3) by (simp add: wallets_ok_def settled_def)
  then have "reported cfg t (Tx_From tx) (c_address row) \<or> skipped t (Tx_From tx)"
    using assms(4-7) t(3) by (auto simp: wallet_done_def paid_by_def)
  ultimately show ?thesis using t(2,4) unfolding reported_def skipped_iff on_stream_def by fastforce
qed



text \<open>On the sample, the worker of \<open>scan_master\<close> takes its trigger and runs the handler.\<close>

lemma sample_start_server:
  assumes "start_consumers (\<lambda>e. ''BUSYGROUP'') agent_group_create agent_redis sample_unmarshal cfg bs w = (Inr cs, w1)"
    and "\<forall>k. srv_groups (w_server w) k \<noteq> None" "srv_fault (w_server w) = (\<lambda>_. None)"
  shows "\<exists>n. w1 = w\<lparr>w_server := (w_server w)\<lparr>srv_calls := n\<rparr>\<rparr>"
  using assms
proof (induction bs arbitrary: w cs)
  case Nil
  then show ?case by (intro exI [of _ "srv_calls (w_server w)"]) simp
next
  case (Cons b bs)
  have "contains ''BUSYGROUP'' ''BUSYGROUP''" by code_simp
  then have group: "EnsureGroup (\<lambda>e. ''BUSYGROUP'') agent_group_create stream grp w = (None, w\<lparr>w_server := called (w_server w)\<rparr>)" for stream grp
    using Cons.prems(2,3) by (auto simp: EnsureGroup_def agent_group_create_def srv_group_create_def put_server_def)
  show ?case
  proof (cases "Enabled (b_usecase b)")
    case True
    with Cons.prems(1) group obtain cs' where "start_consumers (\<lambda>e. ''BUSYGROUP'') agent_group_create agent_redis sample_unmarshal cfg bs
        (w\<lparr>w_server := called (w_server w)\<rparr>) = (Inr cs', w1)" by (auto split: prod.splits sum.splits)
    from Cons.IH [OF this] Cons.prems(2,3) show ?thesis by (simp add: called_def)
  qed (use Cons in auto)
qed

definition sample_scanner :: "World Consumer" where
  "sample_scanner = NewConsumer agent_redis sample_unmarshal (consumer_config sample_cfg (hd (app_bindings sample_env sample_cfg)))
     (CollectNewProviders (\<lambda>s. s) (app_discovery sample_env sample_cfg))"

lemma sample_reads:
  assumes "w = sample_world\<lparr>w_server := sample_server\<lparr>srv_calls := n\<rparr>\<rparr>"
  shows "\<exists>w'. XReadGroup (rdb sample_scanner) (read_args sample_scanner) w = (Inr [[\<lparr>X_ID = ''1-0'', X_Values = []\<rparr>]], w') \<and> sample_like w'"
  by (simp add: assms sample_scanner_def NewConsumer_def agent_redis_def server_redis_def srv_read_def sample_server_def sample_like_def
      put_server_def read_args_def sample_world_def Let_def)

lemma sample_scans_once:
  assumes "w = sample_world\<lparr>w_server := sample_server\<lparr>srv_calls := n\<rparr>\<rparr>" "world st = w"
  shows "\<exists>st'. go_run sample_ctx sample_scanner False (WTop, st, h) [Read, Begin, Handle]
      (Acking ToWorker \<lparr>X_ID = ''1-0'', X_Values = []\<rparr> [], st', h @ [(key_of sample_scanner, ''1-0'')]) \<and> stored_lt (world st') = Inr 30 \<and>
     providers_tbl (w_db (world st')) = [row_a]"
proof -
  let ?m = "\<lparr>X_ID = ''1-0'', X_Values = []\<rparr>" and ?c = "sample_scanner"
  let ?hctx = "handler_ctx (None, Canceled) sample_ctx (decodeJobID ?c ?m)"
  obtain w1 where read: "XReadGroup (rdb ?c) (read_args ?c) (world st) = (Inr [[?m]], w1)" and like: "sample_like w1"
    using sample_reads [OF assms(1)] assms(2) by blast
  let ?st = "with_metrics (add_inflight (cc_CycleType (conf ?c)) 1) (st\<lparr>world := w1\<rparr>)"
  obtain w2 where w2: "CollectNewProviders (\<lambda>s. s) (app_discovery sample_env sample_cfg) ?hctx w1 = (None, w2)"
    using sample_scan_like [OF like] by blast
  obtain err w3 where run: "runHandler ?c ?hctx (world ?st) = (err, w3)" by fastforce
  then have "w3 = w2" using runHandler_world [of ?c ?hctx "world ?st"] w2 by (simp add: with_metrics_def sample_scanner_def NewConsumer_def)
  then have lt: "stored_lt w3 = Inr 30" "providers_tbl (w_db w3) = [row_a]"
    using sample_scan_stores [of ?hctx w1 w2] new_providers_db [OF w2] w2 like by (simp_all add: sample_like_def)
  have "go_run sample_ctx ?c False (WTop, st, h) [Read, Begin] (Handling ToWorker ?m [], ?st, h)"
    using go_step.read [of False, OF _ read, of sample_ctx h] begin_msg [of sample_ctx ?c False ToWorker ?m "[]" "st\<lparr>world := w1\<rparr>" h]
    by (auto intro: go_Cons go_run_one)
  from go_run_append [OF this go_run_one [OF go_step.handle [OF run]]] show ?thesis
    by (auto simp: with_metrics_def lt)
qed


lemma sample_process:
  "\<exists>cs w1 evs s. start_consumers (\<lambda>e. ''BUSYGROUP'') agent_group_create agent_redis sample_unmarshal sample_cfg
       (app_bindings sample_env sample_cfg) sample_world = (Inr cs, w1) \<and>
     run sample_ctx env (concat (map Run_threads cs)) (run_init (concat (map Run_threads cs)) \<lparr>world = w1, metrics = Some NewMetrics\<rparr>) evs s \<and>
     stored_lt (world (r_state s)) = Inr 30 \<and> providers_tbl (w_db (world (r_state s))) = [row_a]"
proof -
  obtain cs w1 where st: "start_consumers (\<lambda>e. ''BUSYGROUP'') agent_group_create agent_redis sample_unmarshal sample_cfg
      (app_bindings sample_env sample_cfg) sample_world = (Inr cs, w1)" using sample_starts by blast
  have "w_server sample_world = sample_server" by (simp add: sample_world_def)
  then obtain n where w1: "w1 = sample_world\<lparr>w_server := sample_server\<lparr>srv_calls := n\<rparr>\<rparr>"
    using sample_start_server [OF st] by (auto simp: sample_server_def)
  obtain cs' where cs: "cs = sample_scanner # cs'"
    using start_consumers_Inr [OF st] by (simp add: app_bindings_def sample_cfg_def sample_usecase_def sample_scanner_def)
  have "cc_Pool (conf sample_scanner) = 1"
    by (simp add: sample_scanner_def NewConsumer_def consumer_defaults_def consumer_config_def Let_def app_bindings_def sample_cfg_def sample_usecase_def)
  then have threads: "concat (map Run_threads cs) = (sample_scanner, RStart) # (sample_scanner, WTop) # concat (map Run_threads cs')"
    by (simp add: cs Run_threads_def)
  let ?ts = "concat (map Run_threads cs)"
  let ?s = "run_init ?ts \<lparr>world = w1, metrics = Some NewMetrics\<rparr>"
  have alive: "alive ?s" by (auto simp: alive_def run_init_def Run_threads_def)
  obtain st' p h where go: "go_run sample_ctx sample_scanner False (WTop, r_state ?s, r_log ?s) [Read, Begin, Handle] (p, st', h)"
    and lt: "stored_lt (world st') = Inr 30" "providers_tbl (w_db (world st')) = [row_a]"
    using sample_scans_once [OF w1, of "r_state ?s" "r_log ?s"] by (auto simp: run_init_def)
  have "run sample_ctx env ?ts ?s (map (Go 1) [Read, Begin, Handle]) (at_thread ?s 1 (p, st', h))"
    by (rule go_run_lift [OF go]) (use alive in \<open>simp_all add: run_init_def threads\<close>)
  moreover have "stored_lt (world (r_state (at_thread ?s 1 (p, st', h)))) = Inr 30" "providers_tbl (w_db (world (r_state (at_thread ?s 1 (p, st', h))))) = [row_a]"
    using lt by simp_all
  ultimately show ?thesis using st by blast
qed


end
