(* ===== verification/Agent_Metrics.thy ===== *)
theory Agent_Metrics
  imports Consumer
begin

text \<open>
  The collectors and the endpoint of \<open>pkg/metrics/metrics.go\<close> and the attribute of
  \<open>internal/lib/sl/sl.go\<close>.  The Prometheus registry is a parameter: a state and the operation
  \<open>register\<close>, which is \<open>MustRegister\<close> as \<open>promauto\<close> calls it and panics with an error.  What the
  agent counts with these collectors is in \<open>Consumer\<close>.
\<close>

section \<open>New\<close>

datatype MetricKind = KCounterVec | KHistogramVec | KGaugeVec | KCounter

record MetricOpts =
  mo_kind :: MetricKind
  mo_Namespace :: string
  mo_Subsystem :: string
  mo_Name :: string
  mo_Help :: string
  mo_Buckets :: "((nat \<times> nat) \<times> nat \<times> nat) option"
  mo_labels :: "string list"

text \<open>The histogram has the arguments of \<open>ExponentialBuckets\<close>, the first as a fraction.  The collectors are in the order in
  which the fields of the struct literal are evaluated.\<close>

definition metric_opts :: "string \<Rightarrow> string \<Rightarrow> MetricOpts list" where
  "metric_opts namespace subsystem =
     [\<lparr>mo_kind = KCounterVec, mo_Namespace = namespace, mo_Subsystem = subsystem, mo_Name = ''cycles_total'',
        mo_Help = ''Total cycles processed by type and status.'', mo_Buckets = None, mo_labels = [''cycle'', ''status'']\<rparr>,
      \<lparr>mo_kind = KHistogramVec, mo_Namespace = namespace, mo_Subsystem = subsystem, mo_Name = ''cycle_duration_seconds'',
        mo_Help = ''Cycle handler execution time in seconds.'', mo_Buckets = Some ((5, 100), 2, 14), mo_labels = [''cycle'']\<rparr>,
      \<lparr>mo_kind = KGaugeVec, mo_Namespace = namespace, mo_Subsystem = subsystem, mo_Name = ''cycles_inflight'',
        mo_Help = ''Currently in-flight cycle invocations.'', mo_Buckets = None, mo_labels = [''cycle'']\<rparr>,
      \<lparr>mo_kind = KCounter, mo_Namespace = namespace, mo_Subsystem = subsystem, mo_Name = ''redis_errors_total'',
        mo_Help = ''Redis operation errors (XREADGROUP/XACK/XADD).'', mo_Buckets = None, mo_labels = []\<rparr>,
      \<lparr>mo_kind = KCounter, mo_Namespace = namespace, mo_Subsystem = subsystem, mo_Name = ''publish_errors_total'',
        mo_Help = ''Failed result publishes.'', mo_Buckets = None, mo_labels = []\<rparr>]"

fun register_all :: "(MetricOpts \<Rightarrow> 'r \<Rightarrow> error option \<times> 'r) \<Rightarrow> MetricOpts list \<Rightarrow> 'r \<Rightarrow> error option \<times> 'r" where
  "register_all register [] r = (None, r)"
| "register_all register (o1 # os) r =
     (case register o1 r of (Some e, r') \<Rightarrow> (Some e, r') | (None, r') \<Rightarrow> register_all register os r')"

definition metrics_New ::
  "(MetricOpts \<Rightarrow> 'r \<Rightarrow> error option \<times> 'r) \<Rightarrow> string \<Rightarrow> string \<Rightarrow> 'r \<Rightarrow> Metrics res \<times> 'r" where
  "metrics_New register namespace subsystem r =
     (case register_all register (metric_opts namespace subsystem) r of
        (Some e, r') \<Rightarrow> (Inl e, r') | (None, r') \<Rightarrow> (Inr NewMetrics, r'))"

section \<open>Registering\<close>

text \<open>A registry as it is documented: it holds descriptors, takes one that is new, and refuses with a
  panic one that it holds, by the three parts of its name.\<close>

definition mo_name :: "MetricOpts \<Rightarrow> string \<times> string \<times> string" where
  "mo_name x = (mo_Namespace x, mo_Subsystem x, mo_Name x)"

definition keeps_names :: "(MetricOpts \<Rightarrow> 'r \<Rightarrow> error option \<times> 'r) \<Rightarrow> ('r \<Rightarrow> (string \<times> string \<times> string) set) \<Rightarrow> bool" where
  "keeps_names register names \<longleftrightarrow> (\<forall>x r.
     (mo_name x \<notin> names r \<longrightarrow> (\<exists>r'. register x r = (None, r') \<and> names r' = insert (mo_name x) (names r))) \<and>
     (mo_name x \<in> names r \<longrightarrow> (\<exists>e. register x r = (Some e, r) \<and> is_panic e)))"

lemma register_all_fresh:
  assumes "keeps_names register names" "distinct (map mo_name os)" "set (map mo_name os) \<inter> names r = {}"
  shows "\<exists>r'. register_all register os r = (None, r') \<and> names r' = set (map mo_name os) \<union> names r"
  using assms(2,3)
proof (induction os arbitrary: r)
  case (Cons x xs)
  then have "mo_name x \<notin> names r" by auto
  then obtain r1 where r1: "register x r = (None, r1)" "names r1 = insert (mo_name x) (names r)"
    using assms(1) unfolding keeps_names_def by blast
  with Cons.prems have "set (map mo_name xs) \<inter> names r1 = {}" by auto
  with Cons.IH [of r1] Cons.prems(1) r1 show ?case by auto
qed simp

text \<open>The five names differ, so \<open>New\<close> succeeds on a registry that holds none of them, and its
  collectors start at zero; a second \<open>New\<close> with the same names panics.  The application calls it once.\<close>

lemma metrics_New_once:
  assumes "keeps_names register names" "\<forall>n. (namespace, subsystem, n) \<notin> names r"
  obtains r' e where "metrics_New register namespace subsystem r = (Inr NewMetrics, r')"
    "metrics_New register namespace subsystem r' = (Inl e, r')" "is_panic e"
proof -
  let ?os = "metric_opts namespace subsystem"
  have "distinct (map mo_name ?os)" by (simp add: metric_opts_def mo_name_def)
  moreover have "set (map mo_name ?os) \<inter> names r = {}" using assms(2) by (simp add: metric_opts_def mo_name_def)
  ultimately obtain r' where r': "register_all register ?os r = (None, r')" "names r' = set (map mo_name ?os) \<union> names r"
    using register_all_fresh [OF assms(1)] by blast
  obtain x xs where os: "?os = x # xs" by (auto simp: metric_opts_def)
  then have "mo_name x \<in> names r'" using r'(2) by simp
  then obtain e where "register x r' = (Some e, r')" "is_panic e" using assms(1) unfolding keeps_names_def by blast
  with r' os that show thesis by (simp add: metrics_New_def)
qed

section \<open>Serve\<close>

type_synonym Attr = "string \<times> string"

definition sl_Err :: "(error \<Rightarrow> string) \<Rightarrow> error \<Rightarrow> Attr" where
  "sl_Err etext err = (''error'', etext err)"

definition ErrServerClosed :: error where
  "ErrServerClosed = Err ''http: Server closed''"

record HttpServer =
  hs_Addr :: string
  hs_routes :: "string list"
  hs_ReadHeaderTimeout :: duration

definition metrics_server :: "string \<Rightarrow> HttpServer" where
  "metrics_server port = \<lparr>hs_Addr = '':'' @ port, hs_routes = [''/metrics''], hs_ReadHeaderTimeout = 5 * second\<rparr>"

text \<open>What \<open>Serve\<close> logs.  \<open>listen srv stopped\<close> is the error with which \<open>ListenAndServe\<close> ends;
  \<open>stopped\<close> says that the goroutine called \<open>Shutdown\<close>, which it does when the context is cancelled.\<close>

definition Serve ::
  "(error \<Rightarrow> string) \<Rightarrow> (HttpServer \<Rightarrow> bool \<Rightarrow> error option) \<Rightarrow> string \<Rightarrow> bool \<Rightarrow> (string \<times> Attr) list" where
  "Serve etext listen port cancelled =
     (let srv = metrics_server port in
      (''metrics server starting'', (''addr'', hs_Addr srv)) #
      (case listen srv cancelled of
         None \<Rightarrow> []
       | Some err \<Rightarrow> if errors_Is err ErrServerClosed then [] else [(''metrics server'', sl_Err etext err)]))"

text \<open>A shutdown is no error; a port that cannot be bound is logged once and nothing else follows from it.\<close>

lemma Serve_logs:
  assumes "\<And>srv. listen srv True = Some ErrServerClosed"
  shows "Serve etext listen port True = [(''metrics server starting'', (''addr'', '':'' @ port))]"
    and "listen (metrics_server port) c = Some err \<Longrightarrow> \<not> errors_Is err ErrServerClosed \<Longrightarrow>
       (''metrics server'', ''error'', etext err) \<in> set (Serve etext listen port c)"
  using assms by (simp_all add: Serve_def metrics_server_def sl_Err_def)


lemma keeps_names_set:
  "keeps_names (\<lambda>x r. if mo_name x \<in> r then (Some (RuntimePanic ''duplicate metrics collector registration attempted''), r)
     else (None, insert (mo_name x) r)) (\<lambda>r. r)"
  by (simp add: keeps_names_def)

end
