(* ===== verification/Load_Test.thy ===== *)
theory Load_Test
  imports Consumer Redis_Publisher
begin

text \<open>
  The tool \<open>cmd/loadtest/main.go\<close>: it adds \<open>count\<close> triggers to the stream of a cycle, reads the
  result stream until each trigger has its result or the time is up, and tells by its exit code what
  it saw.  The redis client, the clock, \<open>uuid.NewString\<close> and JSON are a record of functions over
  the state \<open>'w\<close> of the outside; parsed flags are a record.  The receiving loop is a
  \<open>partial_function (option)\<close>, and that it returns is shown.
\<close>

section \<open>State\<close>

record LTFlags =
  lt_prefix :: string
  lt_cycle :: string
  lt_count :: int
  lt_timeout :: duration

record XReadArgs =
  XR_Stream :: string
  XR_ID :: string
  XR_Count :: int
  XR_Block :: duration
  XR_Timeout :: duration

text \<open>\<open>XR_Timeout\<close> is the timeout of the context of the call.\<close>

record 'w Tool =
  Ping :: "'w \<Rightarrow> error option \<times> 'w"
  Tool_XAdd :: "'w xadd"
  XRead :: "XReadArgs \<Rightarrow> 'w \<Rightarrow> XMessage list list res \<times> 'w"
  NewString :: "'w \<Rightarrow> string \<times> 'w"
  Now :: "'w \<Rightarrow> time \<times> 'w"
  marshal_trigger :: "TriggerEnvelope \<Rightarrow> string res"
  unmarshal_result :: "string \<Rightarrow> ResultEnvelope res"

record Tally =
  jobIDs :: "(string, bool) gomap"
  gotOK :: nat
  gotErr :: nat
  lastID :: string

text \<open>\<open>log.Fatal\<close> ends the process with code 1; the other ends have printed the tally.\<close>

datatype outcome = Fatal error | Report Tally int

section \<open>Sending\<close>

fun send_loop :: "'w Tool \<Rightarrow> string \<Rightarrow> string \<Rightarrow> nat \<Rightarrow> (string, bool) gomap \<Rightarrow> 'w \<Rightarrow> (string, bool) gomap res \<times> 'w" where
  "send_loop cl stream cycle 0 ids w = (Inr ids, w)"
| "send_loop cl stream cycle (Suc n) ids w =
     (case NewString cl w of (jid, w) \<Rightarrow>
      case Now cl w of (now, w) \<Rightarrow>
        (case marshal_trigger cl \<lparr>TE_JobID = jid, TE_Type = cycle, Hint = '''', EnqueuedAt = now\<rparr> of
           Inl e \<Rightarrow> (Inl (Wrapped ''marshal'' e), w)
         | Inr data \<Rightarrow>
           (case Tool_XAdd cl \<lparr>XA_Stream = stream, XA_Values = [(''data'', data)], XA_MaxLen = 0, XA_Approx = False\<rparr> w of
              (Some e, w) \<Rightarrow> (Inl (Wrapped ''xadd'' e), w)
            | (None, w) \<Rightarrow> send_loop cl stream cycle n (AList.update jid True ids) w)))"

section \<open>Receiving\<close>

definition result_of :: "(string \<Rightarrow> ResultEnvelope res) \<Rightarrow> XMessage \<Rightarrow> ResultEnvelope option" where
  "result_of um msg =
     (case um (case map_of (X_Values msg) ''data'' of Some (VString s) \<Rightarrow> s | _ \<Rightarrow> '''') of
        Inl e \<Rightarrow> None | Inr env \<Rightarrow> Some env)"

definition read_msg :: "(string \<Rightarrow> ResultEnvelope res) \<Rightarrow> XMessage \<Rightarrow> Tally \<Rightarrow> Tally" where
  "read_msg um msg t =
     (let t = t\<lparr>lastID := X_ID msg\<rparr> in
      case result_of um msg of
        None \<Rightarrow> t
      | Some env \<Rightarrow>
        if map_of (jobIDs t) (JobID env) \<noteq> Some True then t
        else (let t = t\<lparr>jobIDs := AList.delete (JobID env) (jobIDs t)\<rparr> in
              if Status env = StatusOK then t\<lparr>gotOK := Suc (gotOK t)\<rparr> else t\<lparr>gotErr := Suc (gotErr t)\<rparr>))"

partial_function (option) recv_loop :: "'w Tool \<Rightarrow> string \<Rightarrow> int \<Rightarrow> time \<Rightarrow> Tally \<Rightarrow> 'w \<Rightarrow> (Tally \<times> 'w) option" where
  "recv_loop cl stream cnt deadline t w =
     (if jobIDs t = [] then Some (t, w)
      else (case Now cl w of (now, w) \<Rightarrow>
        if \<not> now < deadline then Some (t, w)
        else (case Now cl w of (now, w) \<Rightarrow>
          (case XRead cl \<lparr>XR_Stream = stream, XR_ID = lastID t, XR_Count = cnt, XR_Block = 2 * second,
                 XR_Timeout = time_Sub deadline now\<rparr> w of
             (Inl e, w) \<Rightarrow> recv_loop cl stream cnt deadline t w
           | (Inr streams, w) \<Rightarrow>
               recv_loop cl stream cnt deadline (fold (read_msg (unmarshal_result cl)) (concat streams) t) w))))"

section \<open>main\<close>

definition exit_code :: "Tally \<Rightarrow> int" where
  "exit_code t = (if jobIDs t \<noteq> [] then 1 else if gotErr t > 0 then 2 else 0)"

text \<open>The product of durations is one of \<open>int64\<close>.\<close>

definition total_wait :: "LTFlags \<Rightarrow> duration" where
  "total_wait f = sint (word_of_int (lt_timeout f * lt_count f) :: i64)"

definition loadtest_main :: "'w Tool \<Rightarrow> LTFlags \<Rightarrow> 'w \<Rightarrow> (outcome \<times> 'w) option" where
  "loadtest_main cl f w =
     (if lt_cycle f = '''' then Some (Fatal (Err ''cycle is required''), w)
      else (case Ping cl w of
        (Some e, w) \<Rightarrow> Some (Fatal (Wrapped ''redis ping'' e), w)
      | (None, w) \<Rightarrow>
        (case Now cl w of (sendStart, w) \<Rightarrow>
          (case send_loop cl (lt_prefix f @ '':cycle:'' @ lt_cycle f) (lt_cycle f) (nat (lt_count f)) [] w of
             (Inl e, w) \<Rightarrow> Some (Fatal e, w)
           | (Inr ids, w) \<Rightarrow>
             (case Now cl w of (sendEnd, w) \<Rightarrow>
              case Now cl w of (now, w) \<Rightarrow>
                (case recv_loop cl (lt_prefix f @ '':result:'' @ lt_cycle f) (lt_count f) (now + total_wait f)
                        \<lparr>jobIDs = ids, gotOK = 0, gotErr = 0, lastID = ''$''\<rparr> w of
                   None \<Rightarrow> None
                 | Some (t, w) \<Rightarrow> Some (Report t (exit_code t), w)))))))"

section \<open>The tally of the messages read\<close>

text \<open>The reference: what the first result for a job says.\<close>

definition answer :: "(string \<Rightarrow> ResultEnvelope res) \<Rightarrow> XMessage list \<Rightarrow> string \<Rightarrow> string option" where
  "answer um msgs jid = map_option Status (find (\<lambda>env. JobID env = jid) (List.map_filter (result_of um) msgs))"

definition wf_ids :: "(string, bool) gomap \<Rightarrow> bool" where
  "wf_ids ids \<longleftrightarrow> distinct (map fst ids) \<and> (\<forall>x \<in> set ids. snd x)"

lemma answer_simps:
  "answer um [] jid = None"
  "answer um (m # ms) jid =
     (case result_of um m of Some env \<Rightarrow> if JobID env = jid then Some (Status env) else answer um ms jid | None \<Rightarrow> answer um ms jid)"
  by (simp_all add: answer_def map_filter_simps split: option.split)

lemma wf_ids_update: "wf_ids ids \<Longrightarrow> wf_ids (AList.update jid True ids)"
  by (induction ids) (auto simp: wf_ids_def dom_update split: if_splits)

lemma wf_ids_delete: "wf_ids ids \<Longrightarrow> wf_ids (AList.delete jid ids)"
  by (auto simp: wf_ids_def AList.delete_eq distinct_map_filter)

lemma wf_ids_find: "wf_ids ids \<Longrightarrow> map_of ids jid = Some True \<longleftrightarrow> jid \<in> set (map fst ids)"
  by (force simp: wf_ids_def map_of_eq_Some_iff image_iff)

lemma keys_delete: "map fst (AList.delete jid ids) = filter (\<lambda>k. k \<noteq> jid) (map fst ids)"
  by (induction ids) (auto simp: AList.delete_eq)

lemma send_loop_wf: "send_loop cl s cy n ids w = (Inr ids', w') \<Longrightarrow> wf_ids ids \<Longrightarrow> wf_ids ids'"
  by (induction n arbitrary: ids w) (auto split: prod.splits sum.splits option.splits intro: wf_ids_update)

lemma length_filter_remove:
  "distinct ks \<Longrightarrow> k \<in> set ks \<Longrightarrow>
     length (filter P ks) = (if P k then 1 else 0) + length (filter P (filter (\<lambda>j. j \<noteq> k) ks))"
proof (induction ks)
  case (Cons j ks)
  have "filter (\<lambda>i. i \<noteq> k) ks = ks" if "k \<notin> set ks" for ks using that by (auto simp: filter_id_conv)
  with Cons show ?case by (cases "j = k") auto
qed simp

definition failed_answer :: "string option \<Rightarrow> bool" where
  "failed_answer a \<longleftrightarrow> a \<noteq> None \<and> a \<noteq> Some StatusOK"

lemma tally_fold:
  assumes "wf_ids (jobIDs t)"
  defines "ks \<equiv> map fst (jobIDs t)"
  shows "wf_ids (jobIDs (fold (read_msg um) msgs t)) \<and>
    map fst (jobIDs (fold (read_msg um) msgs t)) = filter (\<lambda>j. answer um msgs j = None) ks \<and>
    gotOK (fold (read_msg um) msgs t) = gotOK t + length (filter (\<lambda>j. answer um msgs j = Some StatusOK) ks) \<and>
    gotErr (fold (read_msg um) msgs t) = gotErr t + length (filter (\<lambda>j. failed_answer (answer um msgs j)) ks)"
  using assms(1) unfolding ks_def
proof (induction msgs arbitrary: t)
  case Nil
  then show ?case by (simp add: answer_simps failed_answer_def)
next
  case (Cons m msgs)
  let ?ks = "map fst (jobIDs t)"
  show ?case
  proof (cases "\<exists>env. result_of um m = Some env \<and> JobID env \<in> set ?ks")
    case False
    then have r: "read_msg um m t = t\<lparr>lastID := X_ID m\<rparr>"
      using wf_ids_find [OF Cons.prems] by (auto simp: read_msg_def Let_def split: option.split)
    have "answer um (m # msgs) j = answer um msgs j" if "j \<in> set ?ks" for j
      using False that by (auto simp: answer_simps split: option.split)
    then have f: "filter (\<lambda>j. P (answer um (m # msgs) j)) ?ks = filter (\<lambda>j. P (answer um msgs j)) ?ks" for P
      by (metis (mono_tags, lifting) filter_cong)
    show ?thesis
      unfolding fold_simps r f [of "\<lambda>a. a = None"] f [of "\<lambda>a. a = Some StatusOK"] f [of failed_answer]
      using Cons.IH [of "t\<lparr>lastID := X_ID m\<rparr>"] Cons.prems by simp
  next
    case True
    then obtain env where env: "result_of um m = Some env" "JobID env \<in> set ?ks" by blast
    let ?t = "read_msg um m t"
    have t: "jobIDs ?t = AList.delete (JobID env) (jobIDs t)"
        "gotOK ?t = gotOK t + (if Status env = StatusOK then 1 else 0)" "gotErr ?t = gotErr t + (if Status env = StatusOK then 0 else 1)"
      using env wf_ids_find [OF Cons.prems, of "JobID env"] by (auto simp: read_msg_def Let_def)
    have wf: "wf_ids (jobIDs ?t)" using t(1) Cons.prems by (simp add: wf_ids_delete)
    have ks: "map fst (jobIDs ?t) = filter (\<lambda>j. j \<noteq> JobID env) ?ks" by (simp only: t(1) keys_delete)
    have ans: "answer um (m # msgs) j = (if j = JobID env then Some (Status env) else answer um msgs j)" for j
      using env(1) by (simp add: answer_simps)
    have d: "distinct ?ks" using Cons.prems by (simp add: wf_ids_def)
    have len: "length (filter (\<lambda>j. P (answer um (m # msgs) j)) ?ks) =
        (if P (Some (Status env)) then 1 else 0) + length (filter (\<lambda>j. P (answer um msgs j)) (map fst (jobIDs ?t)))" for P
      unfolding length_filter_remove [OF d env(2), of "\<lambda>j. P (answer um (m # msgs) j)"] ks by (simp add: ans cong: filter_cong conj_cong)
    have none: "filter (\<lambda>j. answer um (m # msgs) j = None) ?ks = filter (\<lambda>j. answer um msgs j = None) (map fst (jobIDs ?t))"
      unfolding ks by (simp add: ans cong: filter_cong conj_cong)
    show ?thesis
      unfolding fold_simps none len [of "\<lambda>a. a = Some StatusOK"] len [of failed_answer]
      using Cons.IH [OF wf] t(2,3) by (simp add: failed_answer_def)
  qed
qed

section \<open>The receiving loop\<close>

text \<open>A message that \<open>XRead\<close> returned from the stream.\<close>

definition was_read :: "'w Tool \<Rightarrow> string \<Rightarrow> XMessage \<Rightarrow> bool" where
  "was_read cl stream m \<longleftrightarrow> (\<exists>args v ss v'. XRead cl args v = (Inr ss, v') \<and> XR_Stream args = stream \<and> m \<in> set (concat ss))"

text \<open>The clock does not go back, and a read takes time.\<close>

definition clock_advances :: "'w Tool \<Rightarrow> ('w \<Rightarrow> time) \<Rightarrow> bool" where
  "clock_advances cl clk \<longleftrightarrow>
     (\<forall>w now w'. Now cl w = (now, w') \<longrightarrow> clk w \<le> now \<and> now \<le> clk w') \<and>
     (\<forall>args w r w'. XRead cl args w = (r, w') \<longrightarrow> clk w < clk w')"

lemma recv_loop_returns:
  assumes "clock_advances cl clk"
  shows "\<exists>msgs w'. recv_loop cl stream cnt deadline t w = Some (fold (read_msg (unmarshal_result cl)) msgs t, w') \<and>
     (\<forall>m \<in> set msgs. was_read cl stream m) \<and>
     (jobIDs (fold (read_msg (unmarshal_result cl)) msgs t) = [] \<or> (\<exists>v now v'. Now cl v = (now, v') \<and> deadline \<le> now))"
proof (induction "nat (deadline - clk w)" arbitrary: t w rule: less_induct)
  case less
  obtain now1 w1 where n1: "Now cl w = (now1, w1)" by (metis surj_pair)
  obtain now2 w2 where n2: "Now cl w1 = (now2, w2)" by (metis surj_pair)
  show ?case
  proof (cases "jobIDs t = [] \<or> deadline \<le> now1")
    case True
    then have "recv_loop cl stream cnt deadline t w = Some (fold (read_msg (unmarshal_result cl)) [] t, if jobIDs t = [] then w else w1)"
      by (auto simp: recv_loop.simps [of cl stream cnt deadline t w] n1)
    moreover have "jobIDs t = [] \<or> (\<exists>v now v'. Now cl v = (now, v') \<and> deadline \<le> now)" using True n1 by blast
    ultimately show ?thesis by (metis empty_iff fold_simps(1) list.set(1))
  next
    case False
    let ?args = "\<lparr>XR_Stream = stream, XR_ID = lastID t, XR_Count = cnt, XR_Block = 2 * second, XR_Timeout = time_Sub deadline now2\<rparr>"
    obtain r w3 where x: "XRead cl ?args w2 = (r, w3)" by (metis surj_pair)
    have "clk w < clk w3" and "clk w < deadline"
      using assms n1 n2 x False unfolding clock_advances_def by (meson le_less_trans less_le_trans order_trans not_le)+
    then have fewer: "nat (deadline - clk w3) < nat (deadline - clk w)" by simp
    let ?new = "case r of Inl e \<Rightarrow> [] | Inr ss \<Rightarrow> concat ss"
    have step: "recv_loop cl stream cnt deadline t w = recv_loop cl stream cnt deadline (fold (read_msg (unmarshal_result cl)) ?new t) w3"
      using False by (simp add: recv_loop.simps [of cl stream cnt deadline t w] n1 n2 x split: sum.split)
    have "\<forall>m \<in> set ?new. was_read cl stream m" using x unfolding was_read_def by (cases r) fastforce+
    with less [OF fewer, of "fold (read_msg (unmarshal_result cl)) ?new t"] show ?thesis unfolding step
      by (metis (no_types, lifting) UnE fold_append comp_apply set_append)
  qed
qed

lemma exit_code_answers:
  assumes "map fst (jobIDs t) = filter P ks" "gotErr t = length (filter Q ks)"
  shows "exit_code t = (if \<exists>j \<in> set ks. P j then 1 else if \<exists>j \<in> set ks. Q j then 2 else 0)"
proof -
  have "jobIDs t = [] \<longleftrightarrow> filter P ks = []" by (metis assms(1) map_is_Nil_conv)
  then show ?thesis by (auto simp: exit_code_def assms(2) filter_empty_conv)
qed


section \<open>Results that are there before the first read\<close>

text \<open>
  A server with the result stream of one cycle and an agent that answers each trigger: at once, or,
  when \<open>st_late\<close> is set, while the tool blocks in its next read.  As documented for \<open>XREAD\<close>,
  the id \<open>$\<close> stands for the last entry at the time of the call, so only entries that arrive while
  the call blocks are returned.
\<close>

record Stage =
  st_clock :: time
  st_next :: nat
  st_late :: bool
  st_results :: "XMessage list"
  st_queue :: "XMessage list"

definition entries_after :: "string \<Rightarrow> XMessage list \<Rightarrow> XMessage list" where
  "entries_after i ms = (if i = ''$'' then [] else drop 1 (dropWhile (\<lambda>m. X_ID m \<noteq> i) ms))"

definition stage_add :: "(string \<Rightarrow> XMessage) \<Rightarrow> Stage xadd" where
  "stage_add agent args w =
     (let m = agent (case map_of (XA_Values args) ''data'' of Some d \<Rightarrow> d | None \<Rightarrow> '''') in
      (None, if st_late w then w\<lparr>st_queue := st_queue w @ [m]\<rparr> else w\<lparr>st_results := st_results w @ [m]\<rparr>))"

definition stage_read :: "XReadArgs \<Rightarrow> Stage \<Rightarrow> XMessage list list res \<times> Stage" where
  "stage_read args w =
     (let ms = entries_after (XR_ID args) (st_results w) in
      if ms \<noteq> [] then (Inr [ms], w\<lparr>st_clock := st_clock w + 1\<rparr>)
      else (let w' = w\<lparr>st_clock := st_clock w + 2 * second, st_results := st_results w @ st_queue w, st_queue := []\<rparr> in
            if st_queue w = [] then (Inl RedisNil, w') else (Inr [st_queue w], w')))"

definition stage_tool ::
  "(TriggerEnvelope \<Rightarrow> string) \<Rightarrow> (string \<Rightarrow> ResultEnvelope res) \<Rightarrow> (string \<Rightarrow> XMessage) \<Rightarrow> (nat \<Rightarrow> string) \<Rightarrow> Stage Tool" where
  "stage_tool mt um agent uuid =
     \<lparr>Ping = (\<lambda>w. (None, w)), Tool_XAdd = stage_add agent, XRead = stage_read,
      NewString = (\<lambda>w. (uuid (st_next w), w\<lparr>st_next := Suc (st_next w)\<rparr>)), Now = (\<lambda>w. (st_clock w, w)),
      marshal_trigger = (\<lambda>env. Inr (mt env)), unmarshal_result = um\<rparr>"

lemma stage_tool_sel [simp]:
  "Ping (stage_tool mt um agent uuid) w = (None, w)" "Tool_XAdd (stage_tool mt um agent uuid) = stage_add agent"
  "XRead (stage_tool mt um agent uuid) = stage_read" "Now (stage_tool mt um agent uuid) w = (st_clock w, w)"
  "NewString (stage_tool mt um agent uuid) w = (uuid (st_next w), w\<lparr>st_next := Suc (st_next w)\<rparr>)"
  "marshal_trigger (stage_tool mt um agent uuid) env = Inr (mt env)" "unmarshal_result (stage_tool mt um agent uuid) = um"
  by (simp_all add: stage_tool_def)

lemma stage_clock: "clock_advances (stage_tool mt um agent uuid) st_clock"
  by (auto simp: clock_advances_def stage_read_def Let_def second_def split: if_splits)

text \<open>The answer to a trigger of the job is in the result stream.\<close>

definition answered_in :: "(TriggerEnvelope \<Rightarrow> string) \<Rightarrow> (string \<Rightarrow> XMessage) \<Rightarrow> string \<Rightarrow> Stage \<Rightarrow> string \<Rightarrow> bool" where
  "answered_in mt agent cycle w j \<longleftrightarrow>
     (\<exists>now. agent (mt \<lparr>TE_JobID = j, TE_Type = cycle, Hint = '''', EnqueuedAt = now\<rparr>) \<in> set (st_results w))"

lemma send_quick:
  assumes "\<not> st_late w" "\<forall>j \<in> set (map fst ids). answered_in mt agent cycle w j"
  shows "\<exists>ids' w'. send_loop (stage_tool mt um agent uuid) stream cycle n ids w = (Inr ids', w') \<and> \<not> st_late w' \<and>
     st_queue w' = st_queue w \<and> (\<forall>j \<in> set (map fst ids'). answered_in mt agent cycle w' j) \<and>
     (0 < n \<or> ids \<noteq> [] \<longrightarrow> ids' \<noteq> [])"
  using assms
proof (induction n arbitrary: ids w)
  case (Suc n)
  let ?m = "agent (mt \<lparr>TE_JobID = uuid (st_next w), TE_Type = cycle, Hint = '''', EnqueuedAt = st_clock w\<rparr>)"
  let ?w = "w\<lparr>st_next := Suc (st_next w), st_results := st_results w @ [?m]\<rparr>"
  let ?ids = "AList.update (uuid (st_next w)) True ids"
  have "\<forall>j \<in> set (map fst ?ids). answered_in mt agent cycle ?w j"
    using Suc.prems(2) by (auto simp: answered_in_def dom_update)
  moreover have "?ids \<noteq> []" by (cases ids) auto
  ultimately show ?case
    using Suc.IH [of ?w ?ids] Suc.prems(1) by (simp add: stage_add_def)
qed auto

lemma recv_nothing:
  assumes "lastID t = ''$''" "st_queue w = []"
  shows "\<exists>w'. recv_loop (stage_tool mt um agent uuid) stream cnt deadline t w = Some (t, w') \<and> st_results w' = st_results w"
  using assms(2)
proof (induction "nat (deadline - st_clock w)" arbitrary: w rule: less_induct)
  case less
  let ?w = "w\<lparr>st_clock := st_clock w + 2 * second, st_queue := []\<rparr>"
  have "recv_loop (stage_tool mt um agent uuid) stream cnt deadline t w =
      (if jobIDs t = [] \<or> deadline \<le> st_clock w then Some (t, w) else recv_loop (stage_tool mt um agent uuid) stream cnt deadline t ?w)"
    using assms(1) less.prems
    by (auto simp: recv_loop.simps [of _ stream cnt deadline t w] stage_read_def entries_after_def)
  moreover have "nat (deadline - st_clock ?w) < nat (deadline - st_clock w)" if "\<not> deadline \<le> st_clock w"
    using that by (simp add: second_def)
  ultimately show ?case using less.hyps [of ?w] less.prems by auto
qed

text \<open>
  C40.  The load test reports answered triggers as missing: when the agent is quick
  and every result is in the stream before the first \<open>XREAD\<close>, the tool reads none of them, ends with
  exit code 1, and counts every trigger as missing although its answer is in the stream.
\<close>

theorem early_results_missed:
  assumes "lt_cycle f \<noteq> ''''" "0 < lt_count f" "\<not> st_late w" "st_queue w = []"
  shows "\<exists>t w'. loadtest_main (stage_tool mt um agent uuid) f w = Some (Report t 1, w') \<and> gotOK t = 0 \<and> gotErr t = 0 \<and>
     jobIDs t \<noteq> [] \<and> (\<forall>j \<in> set (map fst (jobIDs t)). answered_in mt agent (lt_cycle f) w' j)"
proof -
  let ?cl = "stage_tool mt um agent uuid"
  obtain ids w1 where send: "send_loop ?cl (lt_prefix f @ '':cycle:'' @ lt_cycle f) (lt_cycle f) (nat (lt_count f)) [] w = (Inr ids, w1)"
    and w1: "st_queue w1 = []" "\<forall>j \<in> set (map fst ids). answered_in mt agent (lt_cycle f) w1 j" "ids \<noteq> []"
    using send_quick [of w "[]" mt agent "lt_cycle f" um uuid "lt_prefix f @ '':cycle:'' @ lt_cycle f" "nat (lt_count f)"] assms by auto
  let ?init = "\<lparr>jobIDs = ids, gotOK = 0, gotErr = 0, lastID = ''$''\<rparr>"
  obtain w' where "recv_loop ?cl (lt_prefix f @ '':result:'' @ lt_cycle f) (lt_count f) (st_clock w1 + total_wait f) ?init w1 = Some (?init, w')"
      "st_results w' = st_results w1"
    using recv_nothing [of ?init w1] w1(1) by (metis Tally.select_convs(4))
  with send assms(1) w1(2,3) have "loadtest_main ?cl f w = Some (Report ?init 1, w')"
      "\<forall>j \<in> set (map fst ids). answered_in mt agent (lt_cycle f) w' j"
    by (simp_all add: loadtest_main_def exit_code_def answered_in_def)
  with w1(3) show ?thesis by (intro exI [of _ ?init] exI [of _ w']) simp
qed

definition sample_flags :: LTFlags where
  "sample_flags = \<lparr>lt_prefix = ''mtpa'', lt_cycle = CycleScanMaster, lt_count = 1, lt_timeout = 60 * second\<rparr>"

definition sample_tool :: "Stage Tool" where
  "sample_tool = stage_tool TE_JobID (\<lambda>s. Inr \<lparr>JobID = s, Type = CycleScanMaster, Status = StatusOK, Error = '''', RPayload = None, ProcessedAt = 0, AgentID = ''a''\<rparr>)
     (\<lambda>d. \<lparr>X_ID = ''5-0'', X_Values = [(''data'', VString d)]\<rparr>) (\<lambda>n. replicate (Suc n) (CHR ''j''))"

definition sample_stage :: "bool \<Rightarrow> Stage" where
  "sample_stage late = \<lparr>st_clock = 0, st_next = 0, st_late = late, st_results = [], st_queue = []\<rparr>"

theorem early_results_missed_witness:
  "\<exists>t w'. loadtest_main sample_tool sample_flags (sample_stage False) = Some (Report t 1, w') \<and> gotOK t = 0 \<and> jobIDs t \<noteq> [] \<and> st_results w' \<noteq> []"
proof -
  let ?agent = "\<lambda>d. \<lparr>X_ID = ''5-0'', X_Values = [(''data'', VString d)]\<rparr>"
  have "lt_cycle sample_flags \<noteq> ''''" "0 < lt_count sample_flags" "\<not> st_late (sample_stage False)" "st_queue (sample_stage False) = []"
    by (simp_all add: sample_flags_def sample_stage_def CycleScanMaster_def)
  from early_results_missed [OF this] obtain t w' where
    "loadtest_main sample_tool sample_flags (sample_stage False) = Some (Report t 1, w')" "gotOK t = 0" "jobIDs t \<noteq> []"
    and ans: "\<forall>j \<in> set (map fst (jobIDs t)). answered_in TE_JobID ?agent (lt_cycle sample_flags) w' j"
    unfolding sample_tool_def by blast
  moreover have "st_results w' \<noteq> []" using ans \<open>jobIDs t \<noteq> []\<close> by (cases "jobIDs t") (auto simp: answered_in_def)
  ultimately show ?thesis by blast
qed

text \<open>With an agent that answers while the tool waits, the same run ends with 0.\<close>

lemma late_results_read:
  "\<exists>w'. loadtest_main sample_tool sample_flags (sample_stage True) = Some (Report \<lparr>jobIDs = [], gotOK = 1, gotErr = 0, lastID = ''5-0''\<rparr> 0, w')"
proof -
  have "total_wait sample_flags = 60 * second"
    by (simp add: total_wait_def sample_flags_def second_def)
  then show ?thesis
    by (simp add: loadtest_main_def sample_tool_def sample_flags_def sample_stage_def CycleScanMaster_def stage_add_def
        recv_loop.simps stage_read_def entries_after_def second_def read_msg_def result_of_def exit_code_def StatusOK_def)
qed


end
