(* ===== verification/Spec2Isabelle.thy ===== *)
theory Spec2Isabelle
  imports Agent_History Agent_Metrics Load_Test
begin

text \<open>
  \<^bold>\<open>Verification of the mytonprovider agent.\<close>

  \<^bold>\<open>The program.\<close>  The agent (Go, \<open>src/\<close>) watches storage providers of the TON network.
  A backend writes triggers to redis streams \<open>prefix:cycle:type\<close>; for each of seven cycle types
  the agent runs consumers (\<open>internal/adapters/inbound/redisstream\<close>) that read a trigger, run
  the handler of the cycle under a timeout, and acknowledge the message.  A handler is a method of
  one of four use cases (\<open>internal/usecase\<close>): it reads what it needs from the database
  (\<open>internal/adapters/outbound/postgres\<close>), asks the network through an adapter
  (\<open>ton\<close>, \<open>dht\<close>, \<open>directprovider\<close>, \<open>ipconfig\<close>), and publishes one
  result to \<open>prefix:result:type\<close> (\<open>internal/adapters/outbound/redisstream\<close>).  The state that
  survives a cycle is the database: the agent itself writes only the logical times up to which the
  master wallet and the providers' wallets have been scanned.  \<open>internal/app\<close> wires the parts.

  \<^bold>\<open>Theories and sources.\<close>
    \<^item> \<open>Agent_Prelude\<close>: machine integers, errors as values (\<open>error\<close>, with panics kept apart
      from errors), contexts with the moment they are done, Go maps as association lists with
      distinct keys (locale \<open>key_value_map\<close>), the order of \<open>range\<close> as a parameter,
      time.
    \<^item> \<open>Go_Std\<close>: what is used of \<open>strings\<close>, \<open>encoding/hex\<close>, \<open>strconv\<close>
      (locale \<open>codec\<close>, interpreted for both), \<open>math/big\<close>, \<open>math/rand.Shuffle\<close>, and
      \<open>internal/lib/utils\<close>.
    \<^item> \<open>Agent_Domain\<close>: the structs of \<open>internal/domain\<close> and \<open>internal/jobs\<close>.
    \<^item> \<open>Worker_Pool\<close>: the pattern of semaphore, wait group and mutex as a step relation; locale
      \<open>worker_pool\<close>, interpreted for \<open>UpdateProviderRates\<close>, \<open>CheckStorageProofs\<close> and
      \<open>GetProvidersInfo\<close>.
    \<^item> \<open>Postgres\<close>: the repositories over a record of tables; each SQL statement is a function
      on rows, and \<open>pg_reply\<close> is what the server may add (errors at the query, at a row or at
      the end, the order of rows); locale \<open>checkpoint\<close>.
    \<^item> \<open>Liteclient\<close>: \<open>ton/liteclient/client.go\<close>, with tonutils-go as the record
      \<open>LiteApi\<close>.
    \<^item> \<open>Ton_Scanners\<close>: \<open>MasterScanner.Scan\<close>, \<open>Scanner.Scan\<close>,
      \<open>Inspector.InspectProviders\<close>; locales \<open>master_scanner\<close>, \<open>wallet_scanner\<close>,
      \<open>contract_inspector\<close>.
    \<^item> \<open>Redis_Publisher\<close>: \<open>publisher.go\<close>; locale \<open>result_publisher\<close>.
    \<^item> \<open>Discovery_Cycle\<close>, \<open>Poll_Cycle\<close>, \<open>Proof_Cycle\<close>, \<open>Update_Cycle\<close>: the
      use cases.  The Go interfaces of \<open>ports.go\<close> are fields of a record (\<open>Discovery\<close>,
      \<open>Poll\<close>, \<open>Proof\<close>, \<open>Update\<close>) over the type \<open>'w\<close> of the world; a
      handler is a function \<open>ctx \<Rightarrow> 'w \<Rightarrow> error option \<times> 'w\<close> with the guards, loops and early
      returns of the method of the same name.  \<open>Update_Cycle\<close> holds \<open>ipconfig/client.go\<close>
      too.
    \<^item> \<open>Direct_Provider\<close>, \<open>Dht_Resolver\<close>: the adapters of those names; interpretations of
      \<open>rates_probe\<close>, \<open>bag_prover\<close> and \<open>endpoint_resolver\<close>.
    \<^item> \<open>Consumer\<close>: \<open>consumer.go\<close>, \<open>groups.go\<close>, \<open>reaper.go\<close> and the counters of
      \<open>pkg/metrics\<close>, one worker or reaper at a time; locale \<open>cycle_handler\<close>, the contract
      between a consumer and a handler.
    \<^item> \<open>Consumer_Run\<close>: \<open>Consumer.Run\<close>, the same code as goroutines.  \<open>go_step\<close> is one
      effect of a worker or a reaper, \<open>run_step\<close> interleaves the goroutines of any number of
      consumers with cancellation, a restart of the process, and changes from outside.  Locale
      \<open>stream_group\<close> is what the consumers rely on of redis.
    \<^item> \<open>Redis_Group\<close>: a redis server as documented (streams, consumer groups, the list of pending
      entries, \<open>XREADGROUP\<close>, \<open>XACK\<close>, \<open>XAUTOCLAIM\<close>), which interprets \<open>stream_group\<close>.
    \<^item> \<open>Agent_App\<close>: \<open>internal/config\<close> and \<open>internal/app\<close>: \<open>MustLoad\<close>, \<open>New\<close>,
      the bindings, the loop of \<open>MustRun\<close>, \<open>Close\<close>; \<open>pkg/telemetry\<close> and the unused
      \<open>adnlclients\<close>.  \<open>World\<close> is the database, the result streams and the redis server with
      the triggers; \<open>Env\<close> collects what the outside decides (liteserver, DHT, providers,
      SQL replies, clocks, random numbers, finishing orders of goroutines).  All seven handlers
      are interpreted as \<open>cycle_handler\<close> here.
    \<^item> \<open>Agent_Run\<close>: the agent on its redis server, \<open>MustRun\<close> to its end, and \<open>run\<close> of
      \<open>cmd/app\<close> from the configuration to the exit code.
    \<^item> \<open>Agent_Types\<close>: the types of the columns and that the running agent keeps them.
    \<^item> \<open>Interleaved_Runs\<close>: runs of a cycle whose calls interleave, while the world changes and the
      chain grows; locale \<open>interleaved_inv\<close>, interpreted for the next two.
    \<^item> \<open>Scan_History\<close>: runs of \<open>scan_master\<close> over a growing chain, call by call and interleaved.
    \<^item> \<open>Wallet_History\<close>: the same for \<open>scan_wallets\<close>, over the messages of all wallets.
    \<^item> \<open>Agent_History\<close>: any sequence of processes of the agent, and that it refines the histories of
      both scans.
    \<^item> \<open>Agent_Metrics\<close>: \<open>New\<close> and \<open>Serve\<close> of \<open>pkg/metrics\<close>, and \<open>lib/sl\<close>.
    \<^item> \<open>Load_Test\<close>: \<open>cmd/loadtest\<close>.
    \<^item> \<open>Sample_World\<close>: a configuration and an environment on which the hypotheses of the
      properties hold.
    \<^item> This theory: the properties of the wired agent, which span several components.

  \<^bold>\<open>What is shown.\<close>  C1 to C7 are the discovery cycles end to end: what is published in terms
  of the transactions the liteserver returned and the rows of the database, that a checkpoint moves
  only after its result was published and never back, that over any number of interleaved runs no
  registration and no withdrawal is lost, as long as the contract could be asked, and that the running
  agent refines those runs.  C8 to C10 are the life of a trigger: it is answered and acknowledged, it
  is never lost in any interleaving of workers, reapers and restarts, and a pending one is claimed.
  C11 and C12 say that the gauge and the counter tell the truth, C13 and C14 when shutdown ends and
  when it does not, C15 that a long cycle runs twice, C16 that the database stays well typed, C17 how
  the process ends.  C18 to C24 are the remaining cycles: every provider or relation is accounted for
  once, a relation is rejected exactly by the rule, and, as the wiring stands, no proof can be valid.
  C25 to C29 are the scanners: termination and completeness of the backward walk, the exact set of
  providers, and what a failed call and a deadline lose.  C30 to C32 are rules inside the cycles
  (giving up on a provider, low balance, the pool of goroutines in every interleaving, with
  \<open>proof_pool_refines\<close> and \<open>providers_pool_refines\<close> for the other two pools), C33 relates the
  worker's loop to the interleaved goroutines, C34 to C36 are the verification of a bag, C37 and C38
  the repositories, C39 and C40 the load test.

  \<^bold>\<open>Conventions and bounds.\<close>  \<open>uint64\<close>, \<open>uint32\<close>, \<open>int32\<close> and \<open>byte\<close> are
  words; \<open>int\<close> counters that cannot leave their range on a machine are \<open>nat\<close> or
  \<open>int\<close>; times are \<open>int\<close> nanoseconds, with the saturation of \<open>time.Sub\<close> and the
  wrap-around of \<open>int64\<close> written out where the code computes with them.  Loops over data are
  structural.  The loops \<open>for\<close> without a condition (\<open>list_loop\<close>, \<open>worker_loop\<close>,
  \<open>claim_loop\<close>, \<open>reaper_loop\<close>, \<open>recv_loop\<close>) are partial functions into \<open>option\<close>,
  no fuel is used, and where they return it is a theorem (C10, C26, C39, \<open>runWorker_returns\<close>), as is
  where one does not (\<open>claimPending_hangs\<close>, C14).
  \<open>float32(n) * 0.20\<close> is computed on the significand with rounding to even; \<open>threshold_fifth\<close>
  covers \<open>n < 2 ^ 24\<close>, beyond which \<open>float32(n)\<close> itself is rounded.  Whether a context is done is
  decided at each observation (\<open>ctx.Err()\<close> or a \<open>select\<close>), by the \<open>Env\<close>.
  \<open>time.Sleep\<close> and logging leave the state alone; tracing spans are not represented.

  \<^bold>\<open>Outside the model.\<close>  The libraries (pgx, go-redis, tonutils-go, adnl, rldp, JSON, HTTP)
  are parameters, with the behaviour a property relies on as its hypothesis, instantiated in its
  witness.  A step of the goroutines is one call of redis or one handler: a handler is one step there,
  so cycles of different goroutines that read and write the database at the same time are ordered by
  their handlers (\<open>Scan_History\<close> and \<open>Wallet_History\<close> interleave the calls of the two that write
  it; there the loop over the wallets, which neither reads nor writes it, is one step); inside a
  handler, the goroutines of a pool are interleaved (\<open>Worker_Pool\<close>).
  Not modelled: log output other than that of \<open>Serve\<close>, printing in \<open>cmd/loadtest\<close>, tracing
  spans, timeouts that are only passed to a library, and the commented-out methods of
  \<open>postgres/provider.go\<close>.  The constructors that store a pool, a client or a logger have no
  definition of their own.  A process of \<open>Agent_History\<close> has one environment, so its liteserver answers
  from one state of the chain; the handlers of other agents are single steps beside it, while the
  histories interleave the calls of runs of any number of agents.
\<close>

section \<open>scan_master\<close>

text \<open>
  C1.  \<open>scan_master\<close> on the wired agent.  A run that succeeds has put exactly one result on
  the result stream of the cycle, under the job id of its trigger.  Its new providers are, one per
  key, the first registrations above the stored checkpoint whose key is not in the table of
  providers in any case of its letters, and its checkpoint is the highest logical time seen.
\<close>

theorem scan_master_publishes_new:
  assumes "CollectNewProviders (e_uni e) (app_discovery e cfg) c w = (None, w')"
    and "GetMasterWalletLT (e_q_lt e) (w_db w) = Inr fromLT" "pg_ok (e_q_pubkeys e)"
    and "e_transactions e 0 (ton_MasterAddress (cfg_TON cfg)) fromLT = Inr txs"
  shows "\<exists>r d. e_marshal e (result_env (e_pub_now e) (app_publisher cfg) (JobIDFrom c) CycleScanMaster (PScanMaster r)) = Inr d \<and>
     results w' = results w @ [(streamKey cfg ''result'' CycleScanMaster, d)] \<and>
     set (NewProviders r) = {p. (\<exists>k. map_of (registrations (e_uni e) (above fromLT txs)) k = Some p) \<and>
        PublicKey p \<notin> (\<lambda>row. ToLower (e_uni e) (c_public_key row)) ` set (providers_tbl (w_db w))} \<and>
     distinct (map PublicKey (NewProviders r)) \<and> SM_LastLT r = fold max (map Tx_LT (above fromLT txs)) fromLT"
proof -
  obtain known scanned lastLT w1 where k: "GetAllPubkeys (e_q_pubkeys e) (w_db w) = Inr known"
    and scan: "MasterScanner_Scan (e_uni e) (e_ord e) (ton_client e 0) (ton_MasterAddress (cfg_TON cfg)) fromLT = Inr (scanned, lastLT)"
    and pub: "app_publish e cfg (streamKey cfg ''result'' CycleScanMaster) (JobIDFrom c) CycleScanMaster
       (PScanMaster \<lparr>NewProviders = new_loop (e_uni e) (known_keys (e_uni e) known) scanned, SM_LastLT = lastLT,
          ScannedCount = length scanned\<rparr>) w = (None, w1)"
    and w': "w' = (if fromLT < lastLT then snd (on_db (SetMasterWalletLT (e_set_err e) lastLT) w1) else w1)"
    using app_CollectNewProviders_ok [OF assms(1)] assms(2) by (metis sum.inject(2))
  let ?r = "\<lparr>NewProviders = new_loop (e_uni e) (known_keys (e_uni e) known) scanned, SM_LastLT = lastLT, ScannedCount = length scanned\<rparr>"
  have known: "set known = c_public_key ` set (providers_tbl (w_db w))"
    using k assms(3) by (auto simp: GetAllPubkeys_def query_rows_ok)
  have txs: "cl_GetTransactions (ton_client e 0) (ton_MasterAddress (cfg_TON cfg)) fromLT = Inr txs"
    using assms(4) by (simp add: ton_client_def lite_client_def)
  have lower: "ToLower (e_uni e) (PublicKey p) = PublicKey p" if "p \<in> set scanned" for p
    using ms.keys_lower [OF scan that] .
  have "set (NewProviders ?r) = {p \<in> set scanned. PublicKey p \<notin> ToLower (e_uni e) ` set known}"
    by (simp add: new_loop_filter lower cong: conj_cong)
  moreover have "distinct (map PublicKey (NewProviders ?r))"
    using ms.keys_distinct [OF scan] by (simp add: new_loop_filter distinct_map_filter)
  moreover obtain d where "e_marshal e (result_env (e_pub_now e) (app_publisher cfg) (JobIDFrom c) CycleScanMaster (PScanMaster ?r)) = Inr d"
      "results w1 = results w @ [(streamKey cfg ''result'' CycleScanMaster, d)]"
    using app_pub.published [OF pub] by blast
  moreover have "results w' = results w1" by (simp add: w')
  moreover have "lastLT = fold max (map Tx_LT (above fromLT txs)) fromLT"
    using scan txs by (simp add: MasterScanner_Scan_Inr max_LT_def)
  ultimately show ?thesis
    using MasterScanner_Scan_set [OF scan txs]
    by (intro exI [of _ ?r] exI [of _ d]) (auto simp: known image_image)
qed

theorem scan_master_publishes_new_witness:
  "\<exists>r w'. CollectNewProviders (e_uni sample_env) (app_discovery sample_env sample_cfg) sample_ctx sample_world = (None, w') \<and>
     results w' = [(streamKey sample_cfg ''result'' CycleScanMaster, ''job-1'')] \<and>
     set (NewProviders (r :: ScanMasterResult)) = {provider_of (replicate 64 (CHR ''b'')) (sample_registration 30)} \<and> SM_LastLT r = 30"
proof -
  obtain w' where w': "CollectNewProviders (e_uni sample_env) (app_discovery sample_env sample_cfg) sample_ctx sample_world = (None, w')"
    using sample_scan_master by auto
  have txs: "e_transactions sample_env 0 (ton_MasterAddress (cfg_TON sample_cfg)) 10 = Inr [Some (sample_registration 30)]"
    by (simp add: sample_transactions_def sample_cfg_def)
  have above: "above 10 [Some (sample_registration 30)] = [sample_registration 30]"
    by (simp add: above_def map_filter_simps sample_registration_def)
  have "map_of (registrations (\<lambda>s. s) [sample_registration 30]) k = Some p \<longleftrightarrow>
      k = replicate 64 (CHR ''b'') \<and> p = provider_of (replicate 64 (CHR ''b'')) (sample_registration 30)" for k p
    by (auto simp: registrations_def map_filter_simps sample_registered)
  moreover have "replicate 64 (CHR ''b'') \<noteq> ToLower (\<lambda>s. s) (c_public_key row_a)"
    by (simp add: row_a_def sample_row_def) code_simp
  moreover have "PublicKey (provider_of k tx) = k" "Tx_LT (sample_registration 30) = 30" for k tx
    by (simp_all add: provider_of_def sample_registration_def)
  moreover obtain r :: ScanMasterResult
    where "results w' = [(streamKey sample_cfg ''result'' CycleScanMaster, ''job-1'')]"
      "set (NewProviders r) = {p. (\<exists>k. map_of (registrations (\<lambda>s. s) [sample_registration 30]) k = Some p) \<and>
         PublicKey p \<noteq> ToLower (\<lambda>s. s) (c_public_key row_a)}"
      "SM_LastLT r = fold max (map Tx_LT [sample_registration 30]) 10"
    using scan_master_publishes_new [OF w' _ _ txs] unfolding above
    by (auto simp: sample_checkpoint result_env_def sample_ctx_live)
  ultimately show ?thesis using w' by (intro exI [of _ r] exI [of _ w']) auto
qed

text \<open>
  C2.  Publish first, then move the checkpoint: after any run of \<open>scan_master\<close> the stored logical
  time is not lower than before; a run that fails leaves the database as it was, and one that
  changes the database has published its result.
\<close>

theorem scan_master_checkpoint:
  assumes "CollectNewProviders uni (app_discovery e cfg) c w = (r, w')" "e_q_lt e = reliable ord"
    and "GetMasterWalletLT (reliable ord) (w_db w) = Inr fromLT"
  shows "(\<exists>lt. GetMasterWalletLT (reliable ord) (w_db w') = Inr lt \<and> fromLT \<le> lt) \<and>
     (r \<noteq> None \<longrightarrow> w_db w' = w_db w) \<and> (w_db w' \<noteq> w_db w \<longrightarrow> (\<exists>x. results w' = results w @ [x]))"
proof (cases r)
  case None
  note ok = assms(1) [unfolded None]
  obtain lastLT w1 where w1: "w_db w1 = w_db w"
    and w': "w' = (if fromLT < lastLT then snd (on_db (SetMasterWalletLT (e_set_err e) lastLT) w1) else w1)"
  proof (rule app_CollectNewProviders_ok [OF ok])
    fix lt known scanned l w1
    assume lt: "GetMasterWalletLT (e_q_lt e) (w_db w) = Inr lt"
      and pub: "app_publish e cfg (streamKey cfg ''result'' CycleScanMaster) (JobIDFrom c) CycleScanMaster
         (PScanMaster \<lparr>NewProviders = new_loop uni (known_keys uni known) scanned, SM_LastLT = l, ScannedCount = length scanned\<rparr>) w = (None, w1)"
      and w': "w' = (if lt < l then snd (on_db (SetMasterWalletLT (e_set_err e) l) w1) else w1)"
    have "lt = fromLT" using lt assms(2,3) by simp
    with w' app_publish_dbD [OF pub] show thesis by (intro that [of w1 l]) simp_all
  qed
  obtain x db where upd: "(if fromLT < lastLT then SetMasterWalletLT (e_set_err e) lastLT (w_db w) else (None, w_db w)) = (x, db)"
    by (metis surj_pair)
  then have "w_db w' = db" by (auto simp: w' w1 on_db_def split: prod.split if_splits)
  with master_lt.advance_never_back [OF assms(3) upd]
  have "\<exists>lt. GetMasterWalletLT (reliable ord) (w_db w') = Inr lt \<and> fromLT \<le> lt" by simp
  with None h_scan_master.one_result [OF ok] show ?thesis by blast
next
  case (Some x)
  then have "w_db w' = w_db w" using assms(1) by (auto dest: app_CollectNewProviders_fails)
  with assms(3) Some show ?thesis by auto
qed

theorem scan_master_checkpoint_witness:
  "\<exists>w' lt. CollectNewProviders (\<lambda>s. s) (app_discovery sample_env sample_cfg) sample_ctx sample_world = (None, w') \<and>
     GetMasterWalletLT (reliable source_order) (w_db w') = Inr lt \<and> 10 \<le> lt"
proof -
  obtain w' where w': "CollectNewProviders (\<lambda>s. s) (app_discovery sample_env sample_cfg) sample_ctx sample_world = (None, w')"
    using sample_scan_master by auto
  with scan_master_checkpoint [OF w' _ sample_checkpoint, of source_order] show ?thesis by auto
qed


section \<open>scan_wallets\<close>

lemma app_scan_law:
  "(w, cs, l) \<in> set (scans (app_discovery e cfg) k wallets) \<Longrightarrow>
     LT w \<le> l \<and> (\<forall>c \<in> set cs. Providers c = [Address w] \<and> LastLT c \<le> l)"
proof -
  assume "(w, cs, l) \<in> set (scans (app_discovery e cfg) k wallets)"
  then obtain j where "Scanner_Scan (e_scan_ord e j) (ton_client e j) (Address w) (LT w) = Inr (cs, l)"
    using scans_mem by (fastforce simp: app_discovery_def)
  then show ?thesis using ws.wallet_lt_grows ws.own_contracts ws.covered by blast
qed

lemma app_CollectStorageContracts_fails:
  "CollectStorageContracts ord (app_discovery e cfg) c w = (Some x, w') \<Longrightarrow> w_db w' = w_db w"
  by (auto simp: CollectStorageContracts_def Let_def split: sum.splits prod.splits option.splits if_splits dest: app_publish_dbD)

lemma app_CollectStorageContracts_changes:
  assumes "CollectStorageContracts ord (app_discovery e cfg) c w = (None, w')" "w_db w' \<noteq> w_db w"
  shows "\<exists>wallets updated w1. GetAllWallets (e_q_wallets e) (w_db w) = Inr wallets \<and>
     updated = advanced (scans (app_discovery e cfg) 0 wallets) \<and> w_db w1 = w_db w \<and>
     w' = snd (on_db (UpdateLT (e_loc e) (e_pick e) (e_update_err e) updated) w1)"
proof -
  have d: "d_GetAllWallets (app_discovery e cfg) w = GetAllWallets (e_q_wallets e) (w_db w)" by (simp add: app_discovery_def)
  obtain wallets where wl: "GetAllWallets (e_q_wallets e) (w_db w) = Inr wallets"
    using assms(1) d by (auto simp: CollectStorageContracts_def split: sum.splits)
  have ne: "wallets \<noteq> []"
  proof
    assume "wallets = []"
    with assms wl d show False by (auto simp: CollectStorageContracts_def dest: app_publish_dbD)
  qed
  obtain merged updated w1 where loop: "wallets_loop (app_discovery e cfg) c 0 wallets ([], []) = Inr (merged, updated)"
    and db: "w_db w1 = w_db w"
    and w': "w' = (if length updated > 0 then snd (on_db (UpdateLT (e_loc e) (e_pick e) (e_update_err e) updated) w1) else w1)"
    by (rule app_CollectStorageContracts_ok [OF assms(1) wl ne]) (blast dest: app_publish_dbD)
  moreover have "updated = advanced (scans (app_discovery e cfg) 0 wallets)" using wallets_loop_Inr [OF loop] by simp
  moreover have "length updated > 0" using assms(2) db w' by (auto split: if_splits)
  ultimately show ?thesis using wl by auto
qed

lemma subseq_scans: "subseq (map fst (scans d k ws)) ws"
  by (induction ws arbitrary: k) (auto split: sum.splits intro: list_emb_Cons)

lemma wallet_rows:
  assumes "GetAllWallets (reliable q) db = Inr wallets"
  shows "list_all2 (\<lambda>row p. wallet_of_row row = Inr p) (reorder q (providers_tbl db)) wallets"
  using assms by (auto simp: GetAllWallets_def query_rows_def dest: scan_loop_Inr split: sum.splits)

lemma wallet_row_lt:
  assumes "list_all2 (\<lambda>row p. wallet_of_row row = Inr p) rows wallets" "wl \<in> set wallets" "distinct (map c_public_key rows)"
    and "row \<in> set rows" "c_public_key row = PublicKey wl" "c_last_tx_lt row < 2 ^ 63"
  shows "int (unat (LT wl)) = c_last_tx_lt row"
proof -
  obtain i where i: "i < length wallets" "wallets ! i = wl" using assms(2) by (auto simp: in_set_conv_nth)
  define row' where "row' = rows ! i"
  have "i < length rows" using list_all2_lengthD [OF assms(1)] i(1) by simp
  then have row': "row' \<in> set rows" "wallet_of_row row' = Inr wl"
    using list_all2_nthD2 [OF assms(1) i(1)] i(2) unfolding row'_def by (blast intro: nth_mem, simp)
  then have "c_public_key row' = PublicKey wl" "LT wl = word_of_int (c_last_tx_lt row')" "0 \<le> c_last_tx_lt row'"
    by (auto simp: wallet_of_row_def scan_uint64_def split: sum.splits if_splits)
  moreover have "row' = row"
    using assms(3-5) row'(1) calculation(1) by (auto simp: distinct_map inj_on_def)
  ultimately show ?thesis using assms(6) by (simp add: unat_eq_nat_uint uint_word_of_int mod_pos_pos_trivial)
qed

lemma updated_wallets_laws:
  fixes cfg
  assumes "GetAllWallets (reliable q) (w_db w) = Inr wallets" "distinct (map c_public_key (providers_tbl (w_db w)))"
    and "\<forall>row \<in> set (providers_tbl (w_db w)). ToLower (e_loc e) (c_public_key row) = c_public_key row"
    and "\<forall>row \<in> set (providers_tbl (w_db w)). c_last_tx_lt row < 2 ^ 63"
  defines "updated \<equiv> advanced (scans (app_discovery e cfg) 0 wallets)"
  shows "distinct (map PublicKey updated)" "\<forall>p \<in> set updated. ToLower (e_loc e) (PublicKey p) = PublicKey p"
    "\<And>p row. p \<in> set updated \<Longrightarrow> row \<in> set (providers_tbl (w_db w)) \<Longrightarrow> PublicKey p = c_public_key row \<Longrightarrow>
       c_last_tx_lt row \<le> int (unat (LT p))"
proof -
  let ?rows = "reorder q (providers_tbl (w_db w))" and ?ss = "scans (app_discovery e cfg) 0 wallets"
  note rows = wallet_rows [OF assms(1)]
  then have keys: "map PublicKey wallets = map c_public_key ?rows"
    by (induction rule: list_all2_induct) (auto simp: wallet_of_row_def split: sum.splits)
  have dr: "distinct (map c_public_key ?rows)"
    using assms(2) by (metis mset_eq_imp_distinct_iff mset_map mset_reorder)
  then have dw: "distinct (map PublicKey wallets)" by (simp add: keys)
  have sub: "subseq (map PublicKey updated) (map PublicKey wallets)"
  proof -
    have "map PublicKey updated = map PublicKey (map fst (filter (\<lambda>(wl, cs, l). LT wl < l) ?ss))"
      by (simp add: updated_def advanced_def case_prod_beta)
    moreover have "subseq (map fst (filter (\<lambda>(wl, cs, l). LT wl < l) ?ss)) wallets"
      by (meson subseq_filter_left subseq_map subseq_order.trans subseq_scans)
    ultimately show ?thesis by (metis subseq_map)
  qed
  then show "distinct (map PublicKey updated)" using dw by (rule subseq_distinctI)
  show "\<forall>p \<in> set updated. ToLower (e_loc e) (PublicKey p) = PublicKey p"
  proof
    fix p assume "p \<in> set updated"
    then have "PublicKey p \<in> set (map PublicKey updated)" by simp
    then have "PublicKey p \<in> set (map PublicKey wallets)" using subseq_set_le [OF sub] by blast
    then show "ToLower (e_loc e) (PublicKey p) = PublicKey p" using assms(3) unfolding keys by auto
  qed
  show "c_last_tx_lt row \<le> int (unat (LT p))"
    if p: "p \<in> set updated" and row: "row \<in> set (providers_tbl (w_db w))" and key: "PublicKey p = c_public_key row" for p row
  proof -
    from p obtain wl cs l where wl: "(wl, cs, l) \<in> set ?ss" "LT wl < l" "p = wl\<lparr>LT := l\<rparr>"
      by (auto simp: updated_def advanced_def)
    have "int (unat (LT wl)) = c_last_tx_lt row"
      by (rule wallet_row_lt [OF rows _ dr]) (use scans_mem [OF wl(1)] row key wl(3) assms(4) in auto)
    moreover have "unat (LT wl) < unat (LT p)" using wl(2,3) by (simp add: word_less_nat_alt)
    ultimately show ?thesis by linarith
  qed
qed

text \<open>
  C4.  \<open>scan_wallets\<close> on the wired agent, with distinct wallet addresses.  A run that succeeds
  has put one result on its stream; its relations are exactly the pairs of a contract and a
  wallet such that the scan of that wallet found the contract, each with the public key of that
  wallet's row; contracts found through several wallets are merged into one; and the updated
  wallets are exactly those whose scan went beyond their checkpoint.
\<close>

theorem scan_wallets_relations:
  assumes "CollectStorageContracts ord (app_discovery e cfg) c w = (None, w')"
    and "GetAllWallets (e_q_wallets e) (w_db w) = Inr wallets" "wallets \<noteq> []" "distinct (map Address wallets)"
  shows "\<exists>r d. e_marshal e (result_env (e_pub_now e) (app_publisher cfg) (JobIDFrom c) CycleScanWallets (PScanWallets r)) = Inr d \<and>
     results w' = results w @ [(streamKey cfg ''result'' CycleScanWallets, d)] \<and>
     triple ` set (SW_Relations r) = {(SC_Address sc, PublicKey wl, Address wl) | wl cs l sc.
        (wl, cs, l) \<in> set (scans (app_discovery e cfg) 0 wallets) \<and> sc \<in> set cs} \<and>
     distinct (map SC_Address (SW_Contracts r)) \<and>
     UpdatedWallets r = map (\<lambda>(wl, cs, l). wl\<lparr>LT := l\<rparr>) (filter (\<lambda>(wl, cs, l). LT wl < l) (scans (app_discovery e cfg) 0 wallets))"
proof -
  let ?d = "app_discovery e cfg"
  obtain merged updated w1 where loop: "wallets_loop ?d c 0 wallets ([], []) = Inr (merged, updated)"
    and pub: "app_publish e cfg (streamKey cfg ''result'' CycleScanWallets) (JobIDFrom c) CycleScanWallets
       (PScanWallets \<lparr>SW_Contracts = map snd (map_range ord merged),
          SW_Relations = concat (map (contract_relations (addr_pubkeys wallets)) (map snd (map_range ord merged))),
          UpdatedWallets = updated\<rparr>) w = (None, w1)"
    and w': "w' = (if length updated > 0 then snd (on_db (UpdateLT (e_loc e) (e_pick e) (e_update_err e) updated) w1) else w1)"
    using app_CollectStorageContracts_ok [OF assms(1-3)] by blast
  let ?all = "concat (map (fst \<circ> snd) (scans ?d 0 wallets))"
  have m: "merged = fold merge_contract ?all []" "updated = advanced (scans ?d 0 wallets)"
    using wallets_loop_Inr [OF loop] by simp_all
  have law: "Providers sc = [Address wl]" if "(wl, cs, l) \<in> set (scans ?d 0 wallets)" "sc \<in> set cs" for wl cs l sc
    using app_scan_law that by blast
  have addr: "SC_Address (snd ae) = fst ae" if "ae \<in> set (map_range ord merged)" for ae
  proof -
    from that have "(fst ae, snd ae) \<in> set (fold merge_contract ?all [])" by (simp add: m set_map_range distinct_merge)
    then show ?thesis by (rule merge_entry(1))
  qed
  then have "map SC_Address (map snd (map_range ord merged)) = map fst (map_range ord merged)" by simp
  moreover have "distinct (map fst (map_range ord merged))" by (simp add: distinct_map_range m distinct_merge)
  ultimately have "distinct (map SC_Address (map snd (map_range ord merged)))" by (simp only:)
  moreover obtain d where "e_marshal e (result_env (e_pub_now e) (app_publisher cfg) (JobIDFrom c) CycleScanWallets
      (PScanWallets \<lparr>SW_Contracts = map snd (map_range ord merged),
          SW_Relations = concat (map (contract_relations (addr_pubkeys wallets)) (map snd (map_range ord merged))),
          UpdatedWallets = updated\<rparr>)) = Inr d"
      "results w1 = results w @ [(streamKey cfg ''result'' CycleScanWallets, d)]"
    using app_pub.published [OF pub] by blast
  moreover have "results w' = results w1" by (simp add: w')
  ultimately show ?thesis
    using relations_exact [where ord = ord and d = ?d and k = 0, OF assms(4) law]
    by (intro exI [of _ "\<lparr>SW_Contracts = map snd (map_range ord merged),
          SW_Relations = concat (map (contract_relations (addr_pubkeys wallets)) (map snd (map_range ord merged))),
          UpdatedWallets = updated\<rparr>"] exI [of _ d]) (simp add: m advanced_def)
qed

theorem scan_wallets_relations_witness:
  "\<exists>w' r. CollectStorageContracts source_order (app_discovery sample_env sample_cfg) sample_ctx sample_world = (None, w') \<and>
     triple ` set (SW_Relations (r :: ScanWalletsResult)) = {(''EQc'', sample_key, wallet_a)}"
proof -
  obtain w' where w': "CollectStorageContracts source_order (app_discovery sample_env sample_cfg) sample_ctx sample_world = (None, w')"
    using sample_scan_wallets by blast
  show ?thesis
    using scan_wallets_relations [OF w' _ _ _, of "[wallet_a_provider]"] w' sample_wallets
    unfolding sample_scans by (auto simp: found_contract_def wallet_a_provider_def simp del: scans.simps)
qed

text \<open>
  C5.  The wallets' checkpoints: a run of \<open>scan_wallets\<close> that fails leaves the database as it
  was, one that changes it has published its result, and with distinct lower-case keys in a table of
  \<open>bigint\<close> values no row's logical time ever goes back.
\<close>

theorem scan_wallets_checkpoint:
  assumes "CollectStorageContracts ord (app_discovery e cfg) c w = (r, w')" "e_q_wallets e = reliable q" "\<And>l. e_pick e [l] = l"
    and "distinct (map c_public_key (providers_tbl (w_db w)))"
    and "\<forall>row \<in> set (providers_tbl (w_db w)). ToLower (e_loc e) (c_public_key row) = c_public_key row"
    and "\<forall>row \<in> set (providers_tbl (w_db w)). c_last_tx_lt row < 2 ^ 63"
  shows "list_all2 (\<lambda>row row'. c_last_tx_lt row \<le> c_last_tx_lt row') (providers_tbl (w_db w)) (providers_tbl (w_db w')) \<and>
     (r \<noteq> None \<longrightarrow> w_db w' = w_db w) \<and> (w_db w' \<noteq> w_db w \<longrightarrow> (\<exists>x. results w' = results w @ [x]))"
proof (cases "w_db w' = w_db w")
  case True
  then show ?thesis by (simp add: list_all2_same)
next
  case False
  with assms(1) have r: "r = None" using app_CollectStorageContracts_fails by (cases r) blast+
  note ok = assms(1) [unfolded r]
  obtain wallets updated w1 where wl: "GetAllWallets (e_q_wallets e) (w_db w) = Inr wallets"
    and up: "updated = advanced (scans (app_discovery e cfg) 0 wallets)" and db: "w_db w1 = w_db w"
    and w': "w' = snd (on_db (UpdateLT (e_loc e) (e_pick e) (e_update_err e) updated) w1)"
    using app_CollectStorageContracts_changes [OF ok False] by metis
  have "list_all2 (\<lambda>row row'. c_last_tx_lt row \<le> c_last_tx_lt row') (providers_tbl (w_db w))
      (providers_tbl (snd (UpdateLT (e_loc e) (e_pick e) (e_update_err e) updated (w_db w))))"
    using updated_wallets_laws [OF wl [unfolded assms(2)] assms(4,5,6)] assms(3) unfolding up by (intro UpdateLT_monotone) blast+
  moreover have "w_db w' = snd (UpdateLT (e_loc e) (e_pick e) (e_update_err e) updated (w_db w))"
    by (simp add: w' db on_db_def split: prod.split)
  ultimately show ?thesis using h_scan_wallets.one_result [OF ok] r by simp blast
qed

theorem scan_wallets_checkpoint_witness:
  "\<exists>w'. CollectStorageContracts source_order (app_discovery sample_env sample_cfg) sample_ctx sample_world = (None, w') \<and>
     list_all2 (\<lambda>row row'. c_last_tx_lt row \<le> c_last_tx_lt row') [row_a] (providers_tbl (w_db w'))"
proof -
  obtain w' where w': "CollectStorageContracts source_order (app_discovery sample_env sample_cfg) sample_ctx sample_world = (None, w')"
    using sample_scan_wallets by blast
  have "ToLower (\<lambda>s. s) (c_public_key row_a) = c_public_key row_a" by (simp add: row_a_def sample_row_def) code_simp
  moreover have "c_last_tx_lt row_a < 2 ^ 63" by (simp add: row_a_def sample_row_def)
  ultimately show ?thesis using scan_wallets_checkpoint [OF w'] w' by simp
qed


section \<open>resolve_endpoints\<close>

lemma app_ResolveEndpoints_ok:
  assumes "ResolveEndpoints ord now (app_discovery e cfg) c w = (None, w')"
    and "GetActiveRelations (e_q_relations e) (w_db w) = Inr rels" "rels \<noteq> []"
  obtains existing r d
  where "resolve_loop (app_discovery e cfg) c now existing (bags_by_pubkey rels) 0 (map_range ord (contracts_by_pubkey rels)) empty_resolve = Inr r"
    "e_marshal e (result_env (e_pub_now e) (app_publisher cfg) (JobIDFrom c) CycleResolveEndpoints (PResolveEndpoints r)) = Inr d"
    "results w' = results w @ [(streamKey cfg ''result'' CycleResolveEndpoints, d)]"
proof -
  have "d_GetActiveRelations (app_discovery e cfg) w = Inr rels" using assms(2) by (simp add: app_discovery_def)
  with assms(1,3) obtain existing r
    where "resolve_loop (app_discovery e cfg) c now existing (bags_by_pubkey rels) 0 (map_range ord (contracts_by_pubkey rels)) empty_resolve = Inr r"
      and "app_publish e cfg (streamKey cfg ''result'' CycleResolveEndpoints) (JobIDFrom c) CycleResolveEndpoints (PResolveEndpoints r) w = (None, w')"
    by (auto simp: ResolveEndpoints_def split: sum.splits)
  with app_pub.published [OF this(2)] that show thesis by blast
qed

text \<open>
  C19.  \<open>resolve_endpoints\<close> on the wired agent: a run that succeeds has published one result that
  accounts for every provider of the active relations exactly once, as resolved, skipped or failed;
  the resolved ones are distinct, each with a 32-byte key, an address, and the time of the run.
\<close>

theorem resolve_endpoints_accounts:
  assumes "ResolveEndpoints ord now (app_discovery e cfg) c w = (None, w')"
    and "GetActiveRelations (e_q_relations e) (w_db w) = Inr rels" "rels \<noteq> []"
  shows "\<exists>r d. e_marshal e (result_env (e_pub_now e) (app_publisher cfg) (JobIDFrom c) CycleResolveEndpoints (PResolveEndpoints r)) = Inr d \<and>
     results w' = results w @ [(streamKey cfg ''result'' CycleResolveEndpoints, d)] \<and>
     length (Endpoints r) + RE_Skipped r + Failed r = card (ProviderPubkey ` set rels) \<and>
     distinct (map PE_PublicKey (Endpoints r)) \<and>
     (\<forall>ep \<in> set (Endpoints r). PE_PublicKey ep \<in> ProviderPubkey ` set rels \<and> valid_key (PE_PublicKey ep) \<and>
        UpdatedAt ep = now \<and> IP (PE_Provider ep) \<noteq> '''')"
proof -
  obtain existing r d
    where loop: "resolve_loop (app_discovery e cfg) c now existing (bags_by_pubkey rels) 0 (map_range ord (contracts_by_pubkey rels)) empty_resolve = Inr r"
      and pub: "e_marshal e (result_env (e_pub_now e) (app_publisher cfg) (JobIDFrom c) CycleResolveEndpoints (PResolveEndpoints r)) = Inr d"
        "results w' = results w @ [(streamKey cfg ''result'' CycleResolveEndpoints, d)]"
    using app_ResolveEndpoints_ok [OF assms] by blast
  let ?pcs = "map_range ord (contracts_by_pubkey rels)"
  have pcs: "distinct (map fst ?pcs)" "set (map fst ?pcs) = ProviderPubkey ` set rels"
    using contracts_by_pubkey_distinct [of rels] contracts_by_pubkey_keys [of rels]
    by (simp_all add: distinct_map_range set_map_range)
  then have "length ?pcs = card (ProviderPubkey ` set rels)" by (metis distinct_card length_map)
  with resolve_loop_counts [OF loop] have n: "length (Endpoints r) + RE_Skipped r + Failed r = card (ProviderPubkey ` set rels)"
    by (simp add: handled_def empty_resolve_def)
  have "subseq (map PE_PublicKey (Endpoints r)) (map fst ?pcs)"
    using resolve_loop_keys [OF loop] by (simp add: empty_resolve_def)
  then have "distinct (map PE_PublicKey (Endpoints r))" using pcs(1) by (rule subseq_distinctI)
  moreover have "PE_PublicKey ep \<in> ProviderPubkey ` set rels \<and> valid_key (PE_PublicKey ep) \<and> UpdatedAt ep = now \<and> IP (PE_Provider ep) \<noteq> ''''"
    if "ep \<in> set (Endpoints r)" for ep
  proof -
    from resolve_loop_endpoints [OF loop that] obtain pk a where "(pk, a) \<in> set ?pcs" "PE_PublicKey ep = pk" "UpdatedAt ep = now"
      "IP (PE_Provider ep) \<noteq> ''''" "\<exists>raw. hex_DecodeString pk = Inr raw \<and> length raw = 32"
      by (auto simp: empty_resolve_def)
    moreover have "pk \<in> ProviderPubkey ` set rels" using calculation(1) pcs(2) by force
    ultimately show ?thesis by (auto simp: valid_key_def)
  qed
  ultimately show ?thesis using n pub by blast
qed

theorem resolve_endpoints_accounts_witness:
  "\<exists>w' r. ResolveEndpoints source_order (100 * hour) (app_discovery sample_env sample_cfg) sample_ctx sample_world = (None, w') \<and>
     length (Endpoints (r :: ResolveEndpointsResult)) + RE_Skipped r + Failed r = 1"
proof -
  obtain w' where w': "ResolveEndpoints source_order (100 * hour) (app_discovery sample_env sample_cfg) sample_ctx sample_world = (None, w')"
    using sample_resolve by blast
  from resolve_endpoints_accounts [OF w', of "[sample_rel]"] w' show ?thesis by (auto simp: sample_relations)
qed



section \<open>inspect_contracts\<close>



section \<open>check_proofs\<close>

text \<open>
  C18.  \<open>check_proofs\<close> on the wired agent never proves a bag: the cached endpoint that
  \<open>LoadFresh\<close> returns has no public key of the storage node, without which \<open>Verify\<close> does
  not contact it, so every published verdict is \<open>IPNotFound\<close> or \<open>UnavailableProvider\<close>,
  whatever the providers store and answer.
\<close>

theorem check_proofs_never_valid:
  assumes "CheckStorageProofs ord fin notice rnd clk (app_proof e cfg) c w = (None, w')"
  shows "\<exists>r d. e_marshal e (result_env (e_pub_now e) (app_publisher cfg) (JobIDFrom c) CycleCheckProofs (PCheckProofs r)) = Inr d \<and>
     results w' = results w @ [(streamKey cfg ''result'' CycleCheckProofs, d)] \<and>
     (\<forall>v \<in> set (Results r). Reason v \<noteq> ValidStorageProof \<and> Reason v \<in> {IPNotFound, UnavailableProvider})"
proof -
  obtain r where pub: "app_publish e cfg (streamKey cfg ''result'' CycleCheckProofs) (JobIDFrom c) CycleCheckProofs (PCheckProofs r) w = (None, w')"
    and r: "\<forall>v \<in> set (Results r). \<exists>pk c' cs. v \<in> set (checkProvider (rnd pk) (clk pk) (app_proof e cfg) c' w pk cs)"
    using assms
    by (fastforce simp: CheckStorageProofs_def Let_def set_pool_results split: sum.splits prod.splits option.splits if_splits)
  have ports: "pr_Verify (app_proof e cfg) = (\<lambda>pk i. Verify (e_net e pk i) (e_net_clk e pk i) (e_draw e pk i))"
    "pr_LoadFresh (app_proof e cfg) = (\<lambda>pk age w. LoadFresh (e_loc e) (e_q_fresh e pk) (e_db_now e pk) pk age (w_db w))"
    by (simp_all add: app_proof_def NewProof_def)
  have reasons: "Reason v \<in> {IPNotFound, UnavailableProvider}" if "v \<in> set (Results r)" for v
    using r that app_ports.checkProvider_reasons [OF ports] by blast
  have "ValidStorageProof \<notin> {IPNotFound, UnavailableProvider}" by (simp add: reason_defs)
  with reasons have "\<forall>v \<in> set (Results r). Reason v \<noteq> ValidStorageProof \<and> Reason v \<in> {IPNotFound, UnavailableProvider}" by metis
  with app_pub.published [OF pub] show ?thesis by blast
qed

theorem check_proofs_never_valid_witness:
  "\<exists>w' d. CheckStorageProofs source_order source_order (\<lambda>_. None) (\<lambda>_ _. 0) (\<lambda>_ _. 0) (app_proof sample_env sample_cfg) sample_ctx sample_world =
       (None, w') \<and> results w' = [(streamKey sample_cfg ''result'' CycleCheckProofs, d)]"
proof -
  obtain w' where w': "CheckStorageProofs source_order source_order (\<lambda>_. None) (\<lambda>_ _. 0) (\<lambda>_ _. 0) (app_proof sample_env sample_cfg)
      sample_ctx sample_world = (None, w')" using sample_proofs by blast
  from check_proofs_never_valid [OF w'] w' show ?thesis by auto
qed

section \<open>lookup_ipinfo\<close>

text \<open>
  C24.  \<open>lookup_ipinfo\<close> on the wired agent: a run that succeeds has published one result; every item
  is for a provider of the table with an address whose stored geo data is empty or of another
  address, and carries what the geo service answered for exactly that address.
\<close>

theorem lookup_ipinfo_items:
  assumes "UpdateIPInfo (app_update e cfg) c w = (None, w')" "pg_ok (e_q_ips e)"
  shows "\<exists>r d. e_marshal e (result_env (e_pub_now e) (app_publisher cfg) (JobIDFrom c) CycleLookupIPInfo (PLookupIPInfo r)) = Inr d \<and>
     results w' = results w @ [(streamKey cfg ''result'' CycleLookupIPInfo, d)] \<and>
     (\<forall>x \<in> set (Items r). (\<exists>row \<in> set (providers_tbl (w_db w)). needs_ipinfo row \<and> IU_PublicKey x = c_public_key row \<and>
           c_ip row = Some (IU_IP x) \<and> IU_IP x \<noteq> '''') \<and>
        (\<exists>t j a. http_answer (e_http e t j) (IU_IP x) = Some a \<and> Country (Info x) = inf_Country a \<and> II_IP (Info x) = inf_IP a))"
proof -
  let ?u = "app_update e cfg"
  let ?eps = "map (\<lambda>r. zero_ProviderEndpoint\<lparr>PE_PublicKey := c_public_key r,
      PE_Provider := zero_Endpoint\<lparr>IP := (case c_ip r of Some ip \<Rightarrow> ip | None \<Rightarrow> '''')\<rparr>\<rparr>)
      (reorder (row_order (e_q_ips e)) (filter needs_ipinfo (providers_tbl (w_db w))))"
  have eps: "u_GetProvidersIPs ?u w = Inr ?eps"
    using assms(2) by (simp add: app_update_def NewUpdate_def GetProvidersIPs_def query_rows_ok)
  have get: "u_GetIPInfo ?u = (\<lambda>t k. GetIPInfo (e_http e t k))" by (simp add: app_update_def NewUpdate_def)
  obtain r where pub: "app_publish e cfg (streamKey cfg ''result'' CycleLookupIPInfo) (JobIDFrom c) CycleLookupIPInfo (PLookupIPInfo r) w = (None, w')"
    and r: "set (Items r) \<subseteq> set (looked_up ?u 0 ?eps)"
    using assms(1) eps
    by (fastforce simp: UpdateIPInfo_def dest: ip_loop_items split: sum.splits prod.splits option.splits if_splits)
  have "(\<exists>row \<in> set (providers_tbl (w_db w)). needs_ipinfo row \<and> IU_PublicKey x = c_public_key row \<and>
       c_ip row = Some (IU_IP x) \<and> IU_IP x \<noteq> '''') \<and>
      (\<exists>t j a. http_answer (e_http e t j) (IU_IP x) = Some a \<and> Country (Info x) = inf_Country a \<and> II_IP (Info x) = inf_IP a)"
    if "x \<in> set (Items r)" for x
  proof -
    from r that looked_up_mem obtain ep j where ep: "ep \<in> set ?eps" "IU_PublicKey x = PE_PublicKey ep" "IU_IP x = IP (PE_Provider ep)"
      "IU_IP x \<noteq> ''''" "u_GetIPInfo ?u (IPInfoTimeout (u_cfg ?u)) j (IU_IP x) = Inr (Info x)" by blast
    from ep(1) obtain row where row: "row \<in> set (providers_tbl (w_db w))" "needs_ipinfo row"
      "ep = zero_ProviderEndpoint\<lparr>PE_PublicKey := c_public_key row,
        PE_Provider := zero_Endpoint\<lparr>IP := (case c_ip row of Some ip \<Rightarrow> ip | None \<Rightarrow> '''')\<rparr>\<rparr>" by auto
    have "c_ip row = Some (IU_IP x)" using ep(3,4) row(3) by (cases "c_ip row") simp_all
    moreover have "IU_PublicKey x = c_public_key row" using ep(2) row(3) by simp
    moreover from ifconfig.answered [OF ep(5) [unfolded get]] obtain a
      where "http_answer (e_http e (IPInfoTimeout (u_cfg ?u)) j) (IU_IP x) = Some a"
        "Country (Info x) = inf_Country a" "II_IP (Info x) = inf_IP a" by blast
    ultimately show ?thesis using row(1,2) ep(4) by blast
  qed
  with app_pub.published [OF pub] show ?thesis by blast
qed

theorem lookup_ipinfo_items_witness:
  "\<exists>w' d. UpdateIPInfo (app_update sample_env sample_cfg) sample_ctx sample_world = (None, w') \<and>
     results w' = [(streamKey sample_cfg ''result'' CycleLookupIPInfo, d)]"
proof -
  obtain w' where w': "UpdateIPInfo (app_update sample_env sample_cfg) sample_ctx sample_world = (None, w')"
    using sample_ipinfo by blast
  from lookup_ipinfo_items [OF w'] w' show ?thesis by auto
qed

section \<open>Triggers and consumers\<close>


definition sample_world_redis :: "World Redis" where
  "sample_world_redis = \<lparr>XReadGroup = (\<lambda>a w. (Inl RedisNil, w)), XAck = (\<lambda>s g i w. (None, w)), XAutoClaim = (\<lambda>a w. (([], ''0-0'', None), w))\<rparr>"

definition sample_trigger :: XMessage where
  "sample_trigger = \<lparr>X_ID = ''1-0'', X_Values = [(''data'', VString ''job-9'')]\<rparr>"


text \<open>
  \<open>MustRun\<close>: it starts exactly one consumer for each enabled cycle, on the trigger stream of
  that cycle and with that cycle's handler; no two consumers share a stream, and no trigger stream
  is a result stream, so the agent never consumes what it publishes.
\<close>

lemma start_consumers_cover:
  assumes "start_consumers txt mk r um cfg (app_bindings e cfg) w = (Inr cs, w')"
  shows "map (\<lambda>c. cc_CycleType (conf c)) cs = map b_cycleType (filter (\<lambda>b. Enabled (b_usecase b)) (app_bindings e cfg)) \<and>
     map (\<lambda>c. cc_Stream (conf c)) cs = map (\<lambda>c. streamKey cfg ''cycle'' (cc_CycleType (conf c))) cs \<and>
     distinct (map (\<lambda>c. cc_Stream (conf c)) cs) \<and>
     (\<forall>c \<in> set cs. \<forall>cy. cc_Stream (conf c) \<noteq> streamKey cfg ''result'' cy) \<and>
     (\<forall>c \<in> set cs. 0 < cc_Pool (conf c) \<and> 0 < cc_Timeout (conf c) \<and> 0 < cc_BlockMs (conf c))"
proof -
  let ?bs = "filter (\<lambda>b. Enabled (b_usecase b)) (app_bindings e cfg)"
  have cs: "cs = map (\<lambda>b. NewConsumer r um (consumer_config cfg b) (b_handler b)) ?bs"
    using assms by (rule start_consumers_Inr)
  have types: "map (\<lambda>c. cc_CycleType (conf c)) cs = map b_cycleType ?bs"
    by (simp add: cs comp_def consumer_config_def)
  have streams: "map (\<lambda>c. cc_Stream (conf c)) cs = map (\<lambda>b. streamKey cfg ''cycle'' (b_cycleType b)) ?bs"
    by (simp add: cs comp_def consumer_config_def)
  have "inj (streamKey cfg ''cycle'')" by (auto simp: inj_def dest: streamKey_inject)
  moreover have "distinct (map b_cycleType ?bs)" using cycle_types_distinct by (rule distinct_map_filter)
  ultimately have "distinct (map (streamKey cfg ''cycle'') (map b_cycleType ?bs))"
    by (subst distinct_map) (auto simp: inj_on_def inj_def)
  then have "distinct (map (\<lambda>c. cc_Stream (conf c)) cs)" by (simp add: streams comp_def)
  moreover have "cc_Stream (conf c) \<noteq> streamKey cfg ''result'' cy" if "c \<in> set cs" for c cy
    using that by (auto simp: cs consumer_config_def dest!: streamKey_inject)
  moreover have "0 < cc_Pool (conf c) \<and> 0 < cc_Timeout (conf c) \<and> 0 < cc_BlockMs (conf c)" if "c \<in> set cs" for c
    using that NewConsumer_positive by (auto simp: cs)
  ultimately show ?thesis using types by (simp add: cs comp_def consumer_config_def)
qed

text \<open>An application that \<open>app.New\<close> returned cannot be closed: it holds neither the database pool nor
  the gateway it opened.\<close>

lemma Close_panics:
  assumes "app_New b e cfg = Inr a" "pool_Close cl None = Some p"
  shows "Close cl a = Some p \<and> a_pool a = None \<and> a_gateProvider a = None"
  using app_New_pointers [OF assms(1)] assms(2) by (simp add: Close_def)

lemma EnsureGroup_keeps:
  assumes "EnsureGroup etext agent_group_create stream grp w = (r, w')"
  shows "srv_waiting (w_server w) k \<subseteq> srv_waiting (w_server w') k" "srv_pending (w_server w) k \<subseteq> srv_pending (w_server w') k"
  using assms
  by (auto simp: EnsureGroup_def agent_group_create_def srv_group_create_def srv_waiting_def srv_pending_def called_def Let_def
      split: prod.splits option.splits if_splits)

lemma start_consumers_keeps:
  assumes "start_consumers etext agent_group_create rr um cfg bs w = (x, w')"
  shows "srv_waiting (w_server w) k \<subseteq> srv_waiting (w_server w') k \<and> srv_pending (w_server w) k \<subseteq> srv_pending (w_server w') k"
  using assms
proof (induction bs arbitrary: w x)
  case (Cons b bs)
  show ?case
  proof (cases "Enabled (b_usecase b)")
    case True
    obtain r w1 where w1: "EnsureGroup etext agent_group_create (streamKey cfg ''cycle'' (b_cycleType b)) (rd_Group (cfg_Redis cfg)) w = (r, w1)"
      by (metis surj_pair)
    with True Cons.prems have "w' = w1 \<or> (\<exists>y. start_consumers etext agent_group_create rr um cfg bs w1 = (y, w'))"
      by (auto split: option.splits prod.splits sum.splits)
    with Cons.IH [of w1] EnsureGroup_keeps [OF w1, of k] show ?thesis by blast
  qed (use Cons in simp)
qed simp

text \<open>
  C9.  No trigger is lost from the start of the agent on, in any interleaving of the
  workers and reapers of all its consumers, with calls of redis that fail, handlers that fail or
  panic, cancellations, and losses of the process at any point followed by a restart: every trigger
  that was waiting for a group or pending in it is still waiting or pending, or a handler has run
  on it.  Beside the agent, triggers may be added and time passes.
\<close>

theorem triggers_never_lost:
  assumes "start_consumers etext agent_group_create agent_redis um cfg (app_bindings e cfg) w = (Inr cs, w1)"
    and "ts = concat (map Run_threads cs)" "run parent env ts (run_init ts \<lparr>world = w1, metrics = m\<rparr>) es s"
    and "\<And>v v'. env v v' \<Longrightarrow> w_server v' = w_server v \<or> srv_env (w_server v) (w_server v')"
  shows "srv_waiting (w_server w) k \<union> srv_pending (w_server w) k \<subseteq>
     srv_waiting (w_server (world (r_state s))) k \<union> srv_pending (w_server (world (r_state s))) k \<union> {i. (k, i) \<in> set (r_log s)}"
proof -
  have "\<forall>c \<in> set cs. on_group agent_redis (srv_waiting \<circ> w_server) (srv_pending \<circ> w_server) c"
    using start_consumers_Inr [OF assms(1)] binding_agent_consumer [of _ e cfg] agent_consumer_on_group by auto
  moreover have "keeps_triggers (srv_waiting \<circ> w_server) (srv_pending \<circ> w_server) env"
    using assms(4) srv_env_keeps unfolding keeps_triggers_def comp_def by (metis order_refl le_supI1)
  ultimately show ?thesis
    using triggers_kept [OF agent_group.stream_group_axioms _ _ assms(3) [unfolded assms(2)], of k] start_consumers_keeps [OF assms(1), of k]
    by auto
qed

theorem triggers_never_lost_witness:
  "\<exists>cs w1 es s. start_consumers (\<lambda>e. ''BUSYGROUP'') agent_group_create agent_redis sample_unmarshal sample_cfg
       (app_bindings sample_env sample_cfg) sample_world = (Inr cs, w1) \<and>
     run sample_ctx (=) (concat (map Run_threads cs)) (run_init (concat (map Run_threads cs)) \<lparr>world = w1, metrics = Some NewMetrics\<rparr>) es s \<and>
     all_returned s \<and> (let k = (streamKey sample_cfg ''cycle'' CycleScanMaster, ''mtpa'') in
       ''1-0'' \<in> srv_waiting (w_server (world (r_state s))) k \<union> srv_pending (w_server (world (r_state s))) k \<union> {i. (k, i) \<in> set (r_log s)})"
proof -
  obtain cs w1 where st: "start_consumers (\<lambda>e. ''BUSYGROUP'') agent_group_create agent_redis sample_unmarshal sample_cfg
      (app_bindings sample_env sample_cfg) sample_world = (Inr cs, w1)" using sample_starts by blast
  have "\<forall>c \<in> set cs. 0 < cc_ReaperTimeout (conf c)" by (rule sample_reaper [OF st])
  from run_cancel_ends [OF this] obtain es s
    where run: "run sample_ctx (=) (concat (map Run_threads cs)) (run_init (concat (map Run_threads cs)) \<lparr>world = w1, metrics = Some NewMetrics\<rparr>) es s"
      "all_returned s" by blast
  have "''1-0'' \<in> srv_waiting (w_server sample_world) k" for k
    by (simp add: sample_world_def sample_server_def srv_waiting_def)
  with triggers_never_lost [OF st refl run(1)] have "''1-0'' \<in> srv_waiting (w_server (world (r_state s))) k \<union>
      srv_pending (w_server (world (r_state s))) k \<union> {i. (k, i) \<in> set (r_log s)}" for k by blast
  with st run show ?thesis unfolding Let_def by blast
qed



text \<open>
  C17.  The program never ends with exit code 0: when \<open>MustRun\<close> returns after a
  signal, the deferred \<open>Close\<close> panics on the pool that \<open>app.New\<close> did not store (if the
  library's \<open>Close\<close> panics on a nil pool).  It ends with code 1 exactly when \<open>app.New\<close> returned
  an error, and otherwise with a panic.
\<close>

theorem main_never_exits_cleanly:
  assumes "main_run l b e cl etext um parent env w r" "pool_Close cl None = Some p"
  shows "r \<noteq> Inr 0 \<and> (r = Inr 1 \<longleftrightarrow> (\<exists>cfg x. MustLoad l = Inr cfg \<and> app_New b e cfg = Inl x \<and> \<not> is_panic x))"
  using assms(1)
proof (cases rule: main_run.cases)
  case (ran cfg a q w')
  have "Close cl a = Some p" using Close_panics [OF ran(3) assms(2)] by blast
  with ran show ?thesis by (auto split: sum.splits)
qed auto

theorem main_never_exits_cleanly_witness:
  "\<exists>r. main_run \<lparr>CONFIG_PATH = ''c.yaml'', NotExist = (\<lambda>p. False), ReadConfig = (\<lambda>p. Inr sample_cfg), NewUUID = ''u'', GenerateKey = Inr [1],
      error_text = (\<lambda>e. '''')\<rparr> sample_build sample_env
     \<lparr>pool_Close = (\<lambda>p. if p = None then Some nil_deref else None), rdb_Close = (\<lambda>p. None), gate_Close = (\<lambda>p. None)\<rparr>
     (\<lambda>e. ''BUSYGROUP'') sample_unmarshal sample_ctx (=) sample_world r \<and> r \<noteq> Inr 0 \<and> r \<noteq> Inr 1"
proof -
  let ?l = "\<lparr>CONFIG_PATH = ''c.yaml'', NotExist = (\<lambda>p. False), ReadConfig = (\<lambda>p. Inr sample_cfg), NewUUID = ''u'', GenerateKey = Inr [1],
      error_text = (\<lambda>e. '''')\<rparr>"
  let ?cl = "\<lparr>pool_Close = (\<lambda>p. if p = None then Some nil_deref else None), rdb_Close = (\<lambda>p. None), gate_Close = (\<lambda>p. None)\<rparr>"
  let ?cfg = "sample_cfg\<lparr>cfg_System := (cfg_System sample_cfg)\<lparr>sys_AgentID := ''agent-u'', sys_Key := [1]\<rparr>\<rparr>"
  have cfg: "MustLoad ?l = Inr ?cfg" by (simp add: MustLoad_def Let_def sample_cfg_def)
  have "\<exists>a. app_New sample_build sample_env ?cfg = Inr a"
    by (simp add: app_New_def initADNL_def first_err_def NewPool_def NewClient_def sample_cfg_def sample_build_def)
  then obtain a where a: "app_New sample_build sample_env ?cfg = Inr a" by blast
  have "\<exists>cs w1. start_agent (\<lambda>e. ''BUSYGROUP'') sample_unmarshal a sample_world = (Inr cs, w1)"
    using sample_starts_as app_New_pointers [OF a] by (simp add: start_agent_def)
  moreover have "0 < sys_ReaperTimeout (cfg_System (a_Config a))"
    using app_New_pointers [OF a] by (simp add: sample_cfg_def minute_def second_def)
  ultimately obtain w' where "MustRun (\<lambda>e. ''BUSYGROUP'') sample_unmarshal sample_ctx (=) a sample_world (Inr ()) w'"
    using MustRun_returns by blast
  from main_run.ran [OF cfg a this, of ?cl]
  have run: "main_run ?l sample_build sample_env ?cl (\<lambda>e. ''BUSYGROUP'') sample_unmarshal sample_ctx (=) sample_world
      (case Close ?cl a of Some x \<Rightarrow> Inl x | None \<Rightarrow> Inr 0)" by simp
  from main_never_exits_cleanly [OF run, of nil_deref] cfg a run show ?thesis by auto
qed

text \<open>
  The loaded configuration is ready for use: \<open>MustLoad\<close> panics or returns a configuration
  with an agent id that is neither empty nor \<open>auto\<close> and with a key, everything else as it was read.
\<close>

lemma MustLoad_ready:
  assumes "GenerateKey l \<noteq> Inr []"
  shows "case MustLoad l of Inl e \<Rightarrow> is_panic e
   | Inr cfg \<Rightarrow> sys_AgentID (cfg_System cfg) \<noteq> '''' \<and> sys_AgentID (cfg_System cfg) \<noteq> ''auto'' \<and> sys_Key (cfg_System cfg) \<noteq> [] \<and>
       (\<exists>raw. ReadConfig l (CONFIG_PATH l) = Inr raw \<and>
          raw\<lparr>cfg_System := (cfg_System raw)\<lparr>sys_AgentID := sys_AgentID (cfg_System cfg), sys_Key := sys_Key (cfg_System cfg)\<rparr>\<rparr> = cfg)"
  using assms by (auto simp: MustLoad_def Let_def split: sum.split)

end
